(* ===== verification/Grnoti_Prelude.thy ===== *)
theory Grnoti_Prelude
  imports Main "HOL-Library.Word" "HOL-Library.Multiset" "HOL-Library.AList"
    "HOL-Library.Char_ord" "HOL-Library.List_Lexorder"
begin

text \<open>
  The shared vocabulary of the development: Go's \<^verbatim>\<open>time.Time\<close> and \<^verbatim>\<open>time.Duration\<close>,
  the 64-bit wrap-around of Go's integers, panics as values, decimal printing, Go maps as
  association lists with distinct keys, and the generic list and map lemmas the component
  theories rely on.  Nothing here is specific to one component.
\<close>

section \<open>Named collections\<close>

named_theorems store_simps \<open>lookup and update equations of the in-memory stores\<close>
named_theorems step_defs \<open>definitions of single operations, unfolded in step proofs\<close>

section \<open>Time\<close>

text \<open>
  A \<^verbatim>\<open>time.Time\<close> is an instant, counted in nanoseconds from Go's zero time (the first
  instant of year 1), so that the zero value of the type is \<open>0\<close>.  A \<^verbatim>\<open>time.Duration\<close> is a
  signed number of nanoseconds.  \<^verbatim>\<open>Time.Sub\<close> saturates at the ends of the 64-bit range,
  which is visible in this program: the difference between a current instant and a zero
  time is far more than \<open>2 ^ 63\<close> nanoseconds.
\<close>

type_synonym Time = int
type_synonym Duration = int

definition zero_time :: Time where
  "zero_time = 0"

definition IsZero :: "Time \<Rightarrow> bool" where
  "IsZero t \<longleftrightarrow> t = zero_time"

definition max_int64 :: int where
  "max_int64 = 2 ^ 63 - 1"

definition min_int64 :: int where
  "min_int64 = - (2 ^ 63)"

definition time_sub :: "Time \<Rightarrow> Time \<Rightarrow> Duration" where
  "time_sub t u = max min_int64 (min max_int64 (t - u))"

definition time_add :: "Time \<Rightarrow> Duration \<Rightarrow> Time" where
  "time_add t d = t + d"

abbreviation Millisecond :: Duration where
  "Millisecond \<equiv> 1000000"

abbreviation Second :: Duration where
  "Second \<equiv> 1000000000"

abbreviation Minute :: Duration where
  "Minute \<equiv> 60000000000"

abbreviation Hour :: Duration where
  "Hour \<equiv> 3600000000000"

section \<open>Integers of a fixed width, panics\<close>

text \<open>The value a Go \<^verbatim>\<open>int64\<close> expression takes when its exact value is \<open>x\<close>.\<close>

definition wrap64 :: "int \<Rightarrow> int" where
  "wrap64 x = sint (word_of_int x :: 64 word)"

text \<open>The value of the conversion \<^verbatim>\<open>uint32(x)\<close>.\<close>

definition to_uint32 :: "int \<Rightarrow> int" where
  "to_uint32 x = uint (word_of_int x :: 32 word)"

text \<open>Go's integer division truncates towards zero.\<close>

definition go_div :: "int \<Rightarrow> int \<Rightarrow> int" where
  "go_div a b = sgn a * sgn b * (\<bar>a\<bar> div \<bar>b\<bar>)"

text \<open>A Go call either returns a value or panics.\<close>

datatype 'a go = Ret 'a | Panic string

section \<open>Decimal printing\<close>

function show_nat :: "nat \<Rightarrow> string" where
  "show_nat n = (if n < 10 then [char_of (48 + n)] else show_nat (n div 10) @ [char_of (48 + n mod 10)])"
  by pat_completeness auto
termination
  by (relation "measure (\<lambda>n. n)") auto

declare show_nat.simps [simp del]

definition show_int :: "int \<Rightarrow> string" where
  "show_int i = (if i < 0 then ''-'' @ show_nat (nat (- i)) else show_nat (nat i))"

section \<open>Go maps\<close>

text \<open>
  A Go map is an association list with distinct keys; the order of the list stands for one
  iteration order of the map, which Go leaves open, so no property below depends on it.
  \<open>map_of\<close> is the lookup, \<^const>\<open>AList.update\<close> the assignment and \<^const>\<open>AList.delete\<close>
  the built-in \<^verbatim>\<open>delete\<close>.
\<close>

type_synonym ('k, 'v) gomap = "('k \<times> 'v) list"
type_synonym strmap = "(string, string) gomap"

definition map_ok :: "('k, 'v) gomap \<Rightarrow> bool" where
  "map_ok m \<longleftrightarrow> distinct (map fst m)"

text \<open>A read of a missing key yields the zero value; this is the \<^verbatim>\<open>m[k] += n\<close> of Go.\<close>

definition bump :: "'k \<Rightarrow> int \<Rightarrow> ('k, int) gomap \<Rightarrow> ('k, int) gomap" where
  "bump k n m = AList.update k ((case map_of m k of None \<Rightarrow> 0 | Some v \<Rightarrow> v) + n) m"

definition gsum :: "('k, int) gomap \<Rightarrow> int" where
  "gsum m = sum_list (map snd m)"

section \<open>Generic lemmas\<close>

lemma map_ok_Nil [simp]: "map_ok []"
  by (simp add: map_ok_def)

lemma map_ok_update [simp, intro]: "map_ok m \<Longrightarrow> map_ok (AList.update k v m)"
  by (simp add: map_ok_def distinct_update)

lemma map_ok_delete [simp, intro]: "map_ok m \<Longrightarrow> map_ok (AList.delete k m)"
  by (simp add: map_ok_def distinct_delete)

lemma map_of_update [simp, store_simps]:
  "map_of (AList.update k v m) k' = (if k = k' then Some v else map_of m k')"
  by (simp add: update_conv')

lemma map_of_delete [simp, store_simps]:
  "map_of (AList.delete k m) k' = (if k = k' then None else map_of m k')"
  by (simp add: delete_conv')

lemma map_ok_in_iff: "map_ok m \<Longrightarrow> (k, v) \<in> set m \<longleftrightarrow> map_of m k = Some v"
  by (auto simp: map_ok_def)

lemma gsum_Nil [simp]: "gsum [] = 0"
  by (simp add: gsum_def)

lemma gsum_update:
  "map_ok m \<Longrightarrow> gsum (AList.update k v m) = gsum m + v - (case map_of m k of None \<Rightarrow> 0 | Some w \<Rightarrow> w)"
proof (induction m)
  case Nil
  show ?case by (simp add: gsum_def)
next
  case (Cons p m)
  obtain k' w where p: "p = (k', w)" by (cases p)
  from Cons.prems have "map_ok m" by (simp add: map_ok_def)
  with Cons.IH show ?case by (auto simp: p gsum_def)
qed

lemma gsum_bump [simp]: "map_ok m \<Longrightarrow> gsum (bump k n m) = gsum m + n"
  by (simp add: bump_def gsum_update split: option.split)

lemma map_ok_bump [simp, intro]: "map_ok m \<Longrightarrow> map_ok (bump k n m)"
  by (simp add: bump_def)

lemma wrap64_range: "min_int64 \<le> wrap64 x \<and> wrap64 x \<le> max_int64"
  using sint_ge [of "word_of_int x :: 64 word"] sint_lt [of "word_of_int x :: 64 word"]
  by (simp add: wrap64_def min_int64_def max_int64_def)

lemma wrap64_id: "min_int64 \<le> x \<Longrightarrow> x \<le> max_int64 \<Longrightarrow> wrap64 x = x"
  unfolding wrap64_def min_int64_def max_int64_def
  by (simp add: sint_sbintrunc' signed_take_bit_int_eq_self)

lemma to_uint32_range: "0 \<le> to_uint32 x \<and> to_uint32 x < 2 ^ 32"
  unfolding to_uint32_def
  using uint_ge_0 [of "word_of_int x :: 32 word"] uint_lt2p [of "word_of_int x :: 32 word"] by simp

lemma to_uint32_id: "0 \<le> x \<Longrightarrow> x < 2 ^ 32 \<Longrightarrow> to_uint32 x = x"
  unfolding to_uint32_def by (simp add: uint_word_of_int)

lemma time_sub_nonneg: "0 \<le> time_sub t u \<longleftrightarrow> u \<le> t"
  by (auto simp: time_sub_def min_int64_def max_int64_def)

text \<open>Saturation does not change a comparison against a duration below the largest one.\<close>

lemma time_sub_le_iff: "d < max_int64 \<Longrightarrow> min_int64 \<le> d \<Longrightarrow> time_sub t u \<le> d \<longleftrightarrow> t - u \<le> d"
  by (auto simp: time_sub_def min_int64_def max_int64_def)

lemma time_sub_ge_iff: "min_int64 < d \<Longrightarrow> d \<le> max_int64 \<Longrightarrow> d \<le> time_sub t u \<longleftrightarrow> d \<le> t - u"
  by (auto simp: time_sub_def min_int64_def max_int64_def)

lemma distinct_fst_filter: "distinct (map fst xs) \<Longrightarrow> distinct (map fst (filter P xs))"
  by (rule distinct_map_filter)

lemma map_of_filter_snd:
  "map_ok m \<Longrightarrow> map_of (filter (\<lambda>p. P (snd p)) m) i =
     (case map_of m i of Some e \<Rightarrow> if P e then Some e else None | None \<Rightarrow> None)"
proof (induction m)
  case (Cons p m)
  then have "map_ok m" "map_of m (fst p) = None" by (auto simp: map_ok_def map_of_eq_None_iff)
  with Cons.IH show ?case by (cases "i = fst p") (auto split: option.splits)
qed simp

end
