(* ===== verification/Grnoti_Errors.thy ===== *)
theory Grnoti_Errors
  imports Grnoti_Prelude
begin

text \<open>
  Go errors as values (\<^verbatim>\<open>errors.go\<close>): the package's sentinels, the typed
  \<^verbatim>\<open>FCMError\<close>, and the three ways the code builds one error from another
  (\<^verbatim>\<open>fmt.Errorf\<close> with one \<^verbatim>\<open>%w\<close>, \<^verbatim>\<open>errors.Join\<close>, \<^verbatim>\<open>FCMError.Err\<close>), with
  \<^verbatim>\<open>errors.Is\<close> and \<^verbatim>\<open>errors.As\<close> as the standard library defines them on the chain.
\<close>

section \<open>Sentinels and FCM error codes\<close>

text \<open>
  The sentinels of \<^verbatim>\<open>errors.go\<close>, those declared next to their component
  (\<open>ErrCircuitOpen\<close>, \<open>ErrTooManyRequests\<close>, \<open>ErrWorkerPoolFull\<close>) and the sentinels of
  the standard library and the drivers that the code tests for.
\<close>

datatype sentinel =
    ErrClosed | ErrBackendUnavailable
  | ErrInvalidEventID | ErrNoTargetSpecified | ErrInvalidFID | ErrInvalidEventType
  | ErrInvalidPriority | ErrTemplateNotFound | ErrPreferencesNotFound
  | ErrPreferencesUserIDRequired | ErrExperimentNotFound | ErrExperimentAlreadyExists
  | ErrExperimentHasNoVariants | ErrDLQEventNotFound | ErrDLQEventNotClaimed
  | ErrFCMClientNil | ErrFCMPayloadTooLarge
  | ErrCircuitOpen | ErrTooManyRequests | ErrWorkerPoolFull
  | ContextCanceled | ContextDeadlineExceeded
  | ErrKeyNotFound | ErrNoDocuments | ErrNoRows

datatype FCMErrorCode =
    FCMErrorCodeUnspecified | FCMErrorCodeInvalidArgument | FCMErrorCodeUnregistered
  | FCMErrorCodeSenderIDMismatch | FCMErrorCodeQuotaExceeded | FCMErrorCodeUnavailable
  | FCMErrorCodeInternal | FCMErrorCodeThirdPartyAuthErr

fun code_IsRetryable :: "FCMErrorCode \<Rightarrow> bool" where
  "code_IsRetryable FCMErrorCodeUnavailable = True"
| "code_IsRetryable FCMErrorCodeInternal = True"
| "code_IsRetryable FCMErrorCodeQuotaExceeded = True"
| "code_IsRetryable _ = False"

fun code_IsPermanent :: "FCMErrorCode \<Rightarrow> bool" where
  "code_IsPermanent FCMErrorCodeUnregistered = True"
| "code_IsPermanent FCMErrorCodeInvalidArgument = True"
| "code_IsPermanent FCMErrorCodeSenderIDMismatch = True"
| "code_IsPermanent _ = False"

fun code_string :: "FCMErrorCode \<Rightarrow> string" where
  "code_string FCMErrorCodeUnspecified = ''unspecified''"
| "code_string FCMErrorCodeInvalidArgument = ''invalid_argument''"
| "code_string FCMErrorCodeUnregistered = ''unregistered''"
| "code_string FCMErrorCodeSenderIDMismatch = ''sender_id_mismatch''"
| "code_string FCMErrorCodeQuotaExceeded = ''quota_exceeded''"
| "code_string FCMErrorCodeUnavailable = ''unavailable''"
| "code_string FCMErrorCodeInternal = ''internal''"
| "code_string FCMErrorCodeThirdPartyAuthErr = ''third_party_auth_error''"

section \<open>Error values\<close>

text \<open>
  \<open>Wrap pre e post\<close> is \<^verbatim>\<open>fmt.Errorf("pre%wpost", e)\<close>, \<open>Join\<close> is \<^verbatim>\<open>errors.Join\<close> of two
  errors, \<open>FCM code fid message err\<close> is an \<^verbatim>\<open>*FCMError\<close>, and \<open>Opaque\<close> is an error of a
  driver or of \<^verbatim>\<open>fmt.Errorf\<close> without \<^verbatim>\<open>%w\<close>, of which the code sees the text only.
\<close>

datatype error =
    Sentinel sentinel
  | FCM FCMErrorCode string string "error option"
  | Wrap string error string
  | Join error error
  | Opaque string

fun sentinel_text :: "sentinel \<Rightarrow> string" where
  "sentinel_text ErrClosed = ''grnoti: closed''"
| "sentinel_text ErrBackendUnavailable = ''grnoti: backend unavailable''"
| "sentinel_text ErrInvalidEventID = ''grnoti: event id is required''"
| "sentinel_text ErrNoTargetSpecified =
     ''grnoti: at least one of user id, anonymous id, or FIDs is required''"
| "sentinel_text ErrInvalidFID = ''grnoti: invalid firebase installation id (fid)''"
| "sentinel_text ErrInvalidEventType = ''grnoti: invalid event type''"
| "sentinel_text ErrInvalidPriority = ''grnoti: invalid priority''"
| "sentinel_text ErrTemplateNotFound = ''grnoti: template not found for event type''"
| "sentinel_text ErrPreferencesNotFound = ''grnoti: preferences not found''"
| "sentinel_text ErrPreferencesUserIDRequired = ''grnoti: preferences user id is required''"
| "sentinel_text ErrExperimentNotFound = ''grnoti: experiment not found''"
| "sentinel_text ErrExperimentAlreadyExists = ''grnoti: experiment already exists''"
| "sentinel_text ErrExperimentHasNoVariants = ''grnoti: experiment has no variants''"
| "sentinel_text ErrDLQEventNotFound = ''grnoti: dead-letter event not found''"
| "sentinel_text ErrDLQEventNotClaimed =
     ''grnoti: dead-letter event is not in a claimed (retrying) state''"
| "sentinel_text ErrFCMClientNil = ''grnoti: fcm client is nil''"
| "sentinel_text ErrFCMPayloadTooLarge = ''grnoti: fcm payload exceeds maximum size''"
| "sentinel_text ErrCircuitOpen = ''grnoti: circuit breaker is open''"
| "sentinel_text ErrTooManyRequests =
     ''grnoti: too many requests while circuit breaker is half-open''"
| "sentinel_text ErrWorkerPoolFull = ''grnoti: worker pool queue is full''"
| "sentinel_text ContextCanceled = ''context canceled''"
| "sentinel_text ContextDeadlineExceeded = ''context deadline exceeded''"
| "sentinel_text ErrKeyNotFound = ''key not found''"
| "sentinel_text ErrNoDocuments = ''mongo: no documents in result''"
| "sentinel_text ErrNoRows = ''no rows in result set''"

text \<open>\<^verbatim>\<open>error.Error()\<close>, for an \<^verbatim>\<open>FCMError\<close> as \<^verbatim>\<open>errors.go\<close> formats it.\<close>

fun error_text :: "error \<Rightarrow> string" where
  "error_text (Sentinel s) = sentinel_text s"
| "error_text (FCM code fid msg None) =
     ''grnoti: fcm send failed ('' @ code_string code @ ''): '' @ msg"
| "error_text (FCM code fid msg (Some e)) =
     ''grnoti: fcm send failed ('' @ code_string code @ ''): '' @ msg @ '': '' @ error_text e"
| "error_text (Wrap pre e post) = pre @ error_text e @ post"
| "error_text (Join e1 e2) = error_text e1 @ [char_of (10 :: nat)] @ error_text e2"
| "error_text (Opaque t) = t"

definition NewFCMError :: "FCMErrorCode \<Rightarrow> string \<Rightarrow> string \<Rightarrow> error option \<Rightarrow> error" where
  "NewFCMError code fid message err = FCM code fid message err"

text \<open>\<^verbatim>\<open>errors.Is\<close> with a sentinel target: a depth-first walk of the tree of wrapped errors.\<close>

fun errors_is :: "error \<Rightarrow> sentinel \<Rightarrow> bool" where
  "errors_is (Sentinel s) t = (s = t)"
| "errors_is (FCM code fid msg None) t = False"
| "errors_is (FCM code fid msg (Some e)) t = errors_is e t"
| "errors_is (Wrap pre e post) t = errors_is e t"
| "errors_is (Join e1 e2) t = (errors_is e1 t \<or> errors_is e2 t)"
| "errors_is (Opaque s) t = False"

text \<open>\<^verbatim>\<open>errors.As(err, &fcmErr)\<close>: the first \<^verbatim>\<open>*FCMError\<close> in the same walk.\<close>

fun errors_as_fcm :: "error \<Rightarrow> FCMErrorCode option" where
  "errors_as_fcm (Sentinel s) = None"
| "errors_as_fcm (FCM code fid msg e) = Some code"
| "errors_as_fcm (Wrap pre e post) = errors_as_fcm e"
| "errors_as_fcm (Join e1 e2) =
     (case errors_as_fcm e1 of Some c \<Rightarrow> Some c | None \<Rightarrow> errors_as_fcm e2)"
| "errors_as_fcm (Opaque s) = None"

text \<open>The code of an error that is itself an \<^verbatim>\<open>*FCMError\<close>, as \<^verbatim>\<open>classifyFCMError\<close> returns it.\<close>

fun fcm_code :: "error \<Rightarrow> FCMErrorCode" where
  "fcm_code (FCM code fid msg e) = code"
| "fcm_code _ = FCMErrorCodeUnspecified"

definition fcm_IsRetryable :: "error \<Rightarrow> bool" where
  "fcm_IsRetryable e = code_IsRetryable (fcm_code e)"

definition fcm_IsPermanent :: "error \<Rightarrow> bool" where
  "fcm_IsPermanent e = code_IsPermanent (fcm_code e)"

section \<open>Lemmas\<close>

text \<open>
  Retryable and permanent are disjoint classes, so a failed FID is either pruned or
  counted as retryable, never both.
\<close>

lemma retryable_not_permanent: "code_IsRetryable c \<Longrightarrow> \<not> code_IsPermanent c"
  by (cases c) auto

lemma fcm_retryable_not_permanent: "fcm_IsRetryable e \<Longrightarrow> \<not> fcm_IsPermanent e"
  by (simp add: fcm_IsRetryable_def fcm_IsPermanent_def retryable_not_permanent)

lemma NewFCMError_simps [simp]:
  "fcm_code (NewFCMError c f m e) = c"
  "errors_as_fcm (NewFCMError c f m e) = Some c"
  by (simp_all add: NewFCMError_def)

end
