(* ===== verification/Grnoti_Types.thy ===== *)
theory Grnoti_Types
  imports Grnoti_Errors
begin

text \<open>
  The domain types of \<^verbatim>\<open>types.go\<close> that several components share: events, devices,
  messages, dispatch and processing results, and notification preferences, with their
  validation methods.  The string types \<^verbatim>\<open>Priority\<close>, \<^verbatim>\<open>Platform\<close>,
  \<^verbatim>\<open>NotificationCategory\<close> and \<^verbatim>\<open>EventType\<close> are open in Go (any string converts), so they
  are strings here with the named constants as definitions.
\<close>

section \<open>String enumerations\<close>

type_synonym Priority = string
type_synonym Platform = string
type_synonym NotificationCategory = string
type_synonym EventType = string

definition PriorityHigh :: Priority where "PriorityHigh = ''high''"
definition PriorityNormal :: Priority where "PriorityNormal = ''normal''"
definition PriorityLow :: Priority where "PriorityLow = ''low''"

definition priority_IsValid :: "Priority \<Rightarrow> bool" where
  "priority_IsValid p \<longleftrightarrow> p = PriorityHigh \<or> p = PriorityNormal \<or> p = PriorityLow"

definition PlatformAndroid :: Platform where "PlatformAndroid = ''android''"
definition PlatformIOS :: Platform where "PlatformIOS = ''ios''"
definition PlatformWeb :: Platform where "PlatformWeb = ''web''"

definition platform_IsValid :: "Platform \<Rightarrow> bool" where
  "platform_IsValid p \<longleftrightarrow> p = PlatformAndroid \<or> p = PlatformIOS \<or> p = PlatformWeb"

definition CategoryTransactional :: NotificationCategory where
  "CategoryTransactional = ''transactional''"
definition CategoryMarketing :: NotificationCategory where
  "CategoryMarketing = ''marketing''"
definition CategorySocial :: NotificationCategory where
  "CategorySocial = ''social''"
definition CategoryAlert :: NotificationCategory where
  "CategoryAlert = ''alert''"

definition eventtype_IsValid :: "EventType \<Rightarrow> bool" where
  "eventtype_IsValid e \<longleftrightarrow> e \<noteq> []"

section \<open>Firebase Installation IDs\<close>

text \<open>The character class \<^verbatim>\<open>[A-Za-z0-9_-]\<close> of \<^verbatim>\<open>fidPattern\<close>.\<close>

definition fid_char :: "char \<Rightarrow> bool" where
  "fid_char c \<longleftrightarrow>
     (let n = (of_char c :: nat) in
       (65 \<le> n \<and> n \<le> 90) \<or> (97 \<le> n \<and> n \<le> 122) \<or> (48 \<le> n \<and> n \<le> 57) \<or> n = 95 \<or> n = 45)"

text \<open>\<^verbatim>\<open>^[cdef][A-Za-z0-9_-]{21}$\<close>\<close>

fun validFID :: "string \<Rightarrow> bool" where
  "validFID [] = False"
| "validFID (c # cs) = (c \<in> set ''cdef'' \<and> length cs = 21 \<and> list_all fid_char cs)"

fun allValidFIDs :: "string list \<Rightarrow> bool" where
  "allValidFIDs [] = True"
| "allValidFIDs (fid # fids) = (if \<not> validFID fid then False else allValidFIDs fids)"

section \<open>Events\<close>

record Event =
  ev_EventID :: string
  ev_UserID :: string
  ev_AnonymousID :: string
  ev_FIDs :: "string list"
  ev_Type :: EventType
  ev_Payload :: strmap
  ev_Priority :: Priority
  ev_Timestamp :: Time
  ev_ExperimentID :: string

definition IsAuthenticated :: "Event \<Rightarrow> bool" where
  "IsAuthenticated e \<longleftrightarrow> ev_UserID e \<noteq> []"

definition IsAnonymous :: "Event \<Rightarrow> bool" where
  "IsAnonymous e \<longleftrightarrow> ev_AnonymousID e \<noteq> []"

definition HasDirectFIDs :: "Event \<Rightarrow> bool" where
  "HasDirectFIDs e \<longleftrightarrow> length (ev_FIDs e) > 0"

definition GetTargetID :: "Event \<Rightarrow> string" where
  "GetTargetID e =
     (if ev_UserID e \<noteq> [] then ev_UserID e
      else if ev_AnonymousID e \<noteq> [] then ev_AnonymousID e
      else ''direct'')"

definition event_Validate :: "Event \<Rightarrow> error option" where
  "event_Validate e =
     (if ev_EventID e = [] then Some (Sentinel ErrInvalidEventID)
      else if ev_UserID e = [] \<and> ev_AnonymousID e = [] \<and> length (ev_FIDs e) = 0
        then Some (Sentinel ErrNoTargetSpecified)
      else if \<not> allValidFIDs (ev_FIDs e) then Some (Sentinel ErrInvalidFID)
      else if \<not> eventtype_IsValid (ev_Type e) then Some (Sentinel ErrInvalidEventType)
      else if \<not> priority_IsValid (ev_Priority e) then Some (Sentinel ErrInvalidPriority)
      else None)"

section \<open>Devices and messages\<close>

record Device =
  dev_FID :: string
  dev_Platform :: Platform
  dev_UserID :: string
  dev_AnonymousID :: string
  dev_DeviceID :: string
  dev_AppVersion :: string
  dev_IsActive :: bool
  dev_CreatedAt :: Time
  dev_UpdatedAt :: Time

definition device_Validate :: "Device \<Rightarrow> error option" where
  "device_Validate d = (if \<not> validFID (dev_FID d) then Some (Sentinel ErrInvalidFID) else None)"

record NotificationAction =
  act_ID :: string
  act_Title :: string
  act_Icon :: string
  act_URL :: string

text \<open>\<open>msg_Data = None\<close> is a nil map; \<open>msg_Badge\<close> is a pointer.\<close>

record Message =
  msg_Title :: string
  msg_Body :: string
  msg_Data :: "strmap option"
  msg_ImageURL :: string
  msg_Priority :: Priority
  msg_TTL :: Duration
  msg_CollapseKey :: string
  msg_ChannelID :: string
  msg_Badge :: "int option"
  msg_Sound :: string
  msg_Actions :: "NotificationAction list"
  msg_DeepLink :: string
  msg_Category :: NotificationCategory

section \<open>Results\<close>

text \<open>
  The two per-platform maps are only read through, so a nil map and an empty one are the
  same value here.
\<close>

record DispatchResult =
  dr_SuccessCount :: int
  dr_FailureCount :: int
  dr_InvalidFIDs :: "string list"
  dr_RetryableErrors :: int
  dr_Errors :: "error list"
  dr_SuccessByPlatform :: "(Platform, int) gomap"
  dr_FailureByPlatform :: "(Platform, int) gomap"

definition zero_result :: DispatchResult where
  "zero_result = \<lparr>dr_SuccessCount = 0, dr_FailureCount = 0, dr_InvalidFIDs = [],
     dr_RetryableErrors = 0, dr_Errors = [], dr_SuccessByPlatform = [], dr_FailureByPlatform = []\<rparr>"

definition TotalCount :: "DispatchResult \<Rightarrow> int" where
  "TotalCount d = dr_SuccessCount d + dr_FailureCount d"

definition HasFailures :: "DispatchResult \<Rightarrow> bool" where
  "HasFailures d \<longleftrightarrow> dr_FailureCount d > 0"

record ProcessingResult =
  pr_EventID :: string
  pr_UserID :: string
  pr_DeviceCount :: int
  pr_DispatchResult :: DispatchResult
  pr_ProcessedAt :: Time
  pr_Duration :: Duration
  pr_Skipped :: bool
  pr_SkipReason :: string

section \<open>Preferences\<close>

record NotificationPreferences =
  np_UserID :: string
  np_GlobalEnabled :: bool
  np_QuietHoursEnabled :: bool
  np_QuietHoursStart :: string
  np_QuietHoursEnd :: string
  np_Timezone :: string
  np_Locale :: string
  np_EventTypeSettings :: "(EventType, bool) gomap"
  np_CreatedAt :: Time
  np_UpdatedAt :: Time

definition prefs_IsEventTypeEnabled :: "NotificationPreferences \<Rightarrow> EventType \<Rightarrow> bool" where
  "prefs_IsEventTypeEnabled p t =
     (if \<not> np_GlobalEnabled p then False
      else case map_of (np_EventTypeSettings p) t of Some enabled \<Rightarrow> enabled | None \<Rightarrow> True)"

section \<open>Lemmas\<close>

lemma validFID_length: "validFID s \<Longrightarrow> length s = 22"
  by (cases s) auto

lemma allValidFIDs_iff: "allValidFIDs fids \<longleftrightarrow> (\<forall>fid \<in> set fids. validFID fid)"
  by (induction fids) auto

lemma zero_result_simps [simp]:
  "dr_SuccessCount zero_result = 0" "dr_FailureCount zero_result = 0"
  "dr_InvalidFIDs zero_result = []" "dr_RetryableErrors zero_result = 0"
  "dr_Errors zero_result = []" "dr_SuccessByPlatform zero_result = []"
  "dr_FailureByPlatform zero_result = []"
  by (simp_all add: zero_result_def)

lemma TotalCount_zero [simp]: "TotalCount zero_result = 0"
  by (simp add: TotalCount_def)

text \<open>An event that passes validation has a recipient.\<close>

lemma validated_has_target:
  "event_Validate e = None \<Longrightarrow> HasDirectFIDs e \<or> IsAuthenticated e \<or> IsAnonymous e"
  by (auto simp: event_Validate_def HasDirectFIDs_def IsAuthenticated_def IsAnonymous_def
      split: if_splits)

end
