(* ===== verification/Grnoti_Retry.thy ===== *)
theory Grnoti_Retry
  imports Grnoti_Types
begin

text \<open>
  Backoff and retry decisions (\<^verbatim>\<open>retrystrategy.go\<close>).  Durations are 64-bit, and the
  product \<^verbatim>\<open>base * (1 << attempt)\<close> and the sum \<^verbatim>\<open>exp + 1\<close> are taken modulo the width, as
  Go does.  \<^verbatim>\<open>rand.Int63n\<close> is a parameter: any function that maps a positive \<open>n\<close> into
  \<open>{0..<n}\<close>; on a non-positive argument the library panics.
\<close>

section \<open>FullJitterBackoff\<close>

definition defaultMaxBackoff :: Duration where
  "defaultMaxBackoff = 30 * Second"

definition backoff_ceiling :: "Duration \<Rightarrow> Duration" where
  "backoff_ceiling mx = (if mx \<le> 0 then defaultMaxBackoff else mx)"

definition backoff_exp :: "Duration \<Rightarrow> Duration \<Rightarrow> int \<Rightarrow> Duration" where
  "backoff_exp base mx attempt =
     (let ceiling = backoff_ceiling mx in
      if 0 \<le> attempt \<and> attempt < 62 then
        (let scaled = wrap64 (base * 2 ^ nat attempt) in
         if scaled > 0 \<and> scaled < ceiling then scaled else ceiling)
      else ceiling)"

definition FullJitterBackoff :: "(int \<Rightarrow> int) \<Rightarrow> Duration \<Rightarrow> Duration \<Rightarrow> int \<Rightarrow> Duration go" where
  "FullJitterBackoff int63n base mx attempt =
     (if base \<le> 0 then Ret 0
      else
        (let n = wrap64 (backoff_exp base mx attempt + 1) in
         if n \<le> 0 then Panic ''invalid argument to Int63n'' else Ret (int63n n)))"

section \<open>Strategies\<close>

text \<open>The two implementations of the \<^verbatim>\<open>RetryStrategy\<close> interface.\<close>

datatype RetryStrategy =
    fullJitterRetry (maxAttempts: int) (baseDelay: Duration) (maxDelay: Duration)
  | noopRetryStrategy

fun ShouldRetry :: "RetryStrategy \<Rightarrow> int \<Rightarrow> error option \<Rightarrow> bool" where
  "ShouldRetry (fullJitterRetry mxa b m) attempt err =
     (case err of
        None \<Rightarrow> False
      | Some e \<Rightarrow>
          (if attempt \<ge> mxa then False
           else case errors_as_fcm e of Some c \<Rightarrow> code_IsRetryable c | None \<Rightarrow> True))"
| "ShouldRetry noopRetryStrategy attempt err = False"

fun GetDelay :: "(int \<Rightarrow> int) \<Rightarrow> RetryStrategy \<Rightarrow> int \<Rightarrow> Duration go" where
  "GetDelay int63n (fullJitterRetry mxa b m) attempt =
     FullJitterBackoff int63n b m (if attempt < 0 then 0 else attempt)"
| "GetDelay int63n noopRetryStrategy attempt = Ret 0"

text \<open>The documented range of \<^verbatim>\<open>rand.Int63n\<close>.\<close>

definition int63n_ok :: "(int \<Rightarrow> int) \<Rightarrow> bool" where
  "int63n_ok int63n \<longleftrightarrow> (\<forall>n > 0. 0 \<le> int63n n \<and> int63n n < n)"

section \<open>Lemmas\<close>

lemma backoff_ceiling_pos [simp]: "0 < backoff_ceiling mx"
  by (simp add: backoff_ceiling_def defaultMaxBackoff_def)

lemma backoff_exp_range: "0 < backoff_exp base mx attempt \<and> backoff_exp base mx attempt \<le> backoff_ceiling mx"
  by (auto simp: backoff_exp_def Let_def)

text \<open>
  A product that leaves the 64-bit range is larger than every ceiling, so the exponent
  never exceeds the exact product, also when the multiplication wraps around.
\<close>

lemma backoff_exp_le_product:
  assumes "0 < base" and "0 \<le> attempt" and "attempt < 62" and "mx \<le> max_int64"
  shows "backoff_exp base mx attempt \<le> base * 2 ^ nat attempt"
proof (cases "base * 2 ^ nat attempt \<le> max_int64")
  case True
  from assms(1) have "0 < base * 2 ^ nat attempt" by simp
  then have "wrap64 (base * 2 ^ nat attempt) = base * 2 ^ nat attempt"
    using True by (intro wrap64_id) (auto simp: min_int64_def)
  then show ?thesis using assms by (auto simp: backoff_exp_def Let_def)
next
  case False
  have "backoff_ceiling mx \<le> max_int64"
    using assms(4) by (auto simp: backoff_ceiling_def defaultMaxBackoff_def max_int64_def)
  with False show ?thesis using backoff_exp_range [of base mx attempt] by linarith
qed

lemma backoff_exp_wrap:
  "mx < max_int64 \<Longrightarrow> wrap64 (backoff_exp base mx attempt + 1) = backoff_exp base mx attempt + 1"
  using backoff_exp_range [of base mx attempt]
  by (intro wrap64_id) (auto simp: min_int64_def max_int64_def backoff_ceiling_def defaultMaxBackoff_def
      split: if_splits)

text \<open>Below the largest duration the call returns a value between zero and the exponent.\<close>

lemma FullJitterBackoff_Ret:
  assumes "int63n_ok int63n" and "0 < base" and "mx < max_int64"
  shows "\<exists>r. FullJitterBackoff int63n base mx attempt = Ret r \<and> 0 \<le> r \<and> r \<le> backoff_exp base mx attempt"
proof -
  let ?e = "backoff_exp base mx attempt"
  from backoff_exp_range [of base mx attempt] have "0 < ?e + 1" by simp
  with assms(1) have "0 \<le> int63n (?e + 1) \<and> int63n (?e + 1) < ?e + 1"
    unfolding int63n_ok_def by blast
  with assms(2) \<open>0 < ?e + 1\<close> show ?thesis
    by (auto simp: FullJitterBackoff_def Let_def backoff_exp_wrap [OF assms(3)])
qed

section \<open>Properties\<close>



text \<open>
   \<^verbatim>\<open>FullJitterBackoff\<close> panics in exactly one situation: the ceiling is the largest
  64-bit duration and the scaled delay does not lie below it, so that \<^verbatim>\<open>int64(exp)+1\<close>
  overflows to a negative argument of \<^verbatim>\<open>rand.Int63n\<close>.
\<close>

theorem FullJitterBackoff_panic_iff:
  assumes "mx \<le> max_int64"
  shows "FullJitterBackoff int63n base mx attempt = Panic m \<longleftrightarrow>
           0 < base \<and> backoff_exp base mx attempt = max_int64 \<and> m = ''invalid argument to Int63n''"
proof (cases "backoff_exp base mx attempt = max_int64")
  case True
  have "wrap64 (max_int64 + 1) = min_int64" by (simp add: wrap64_def max_int64_def min_int64_def)
  with True show ?thesis by (auto simp: FullJitterBackoff_def min_int64_def)
next
  case False
  have "backoff_ceiling mx \<le> max_int64"
    using assms by (auto simp: backoff_ceiling_def defaultMaxBackoff_def max_int64_def)
  with False backoff_exp_range [of base mx attempt]
  have "wrap64 (backoff_exp base mx attempt + 1) = backoff_exp base mx attempt + 1"
    by (intro wrap64_id) (auto simp: min_int64_def)
  with False backoff_exp_range [of base mx attempt] show ?thesis
    by (auto simp: FullJitterBackoff_def Let_def)
qed

theorem FullJitterBackoff_panic_iff_witness:
  "FullJitterBackoff (\<lambda>n. 0) 1 max_int64 62 = Panic ''invalid argument to Int63n''"
  using FullJitterBackoff_panic_iff [of max_int64 "\<lambda>n. 0" 1 62 "''invalid argument to Int63n''"]
  by (simp add: backoff_exp_def backoff_ceiling_def max_int64_def)

end
