(* ===== verification/Grnoti_DLQ.thy ===== *)
theory Grnoti_DLQ
  imports Grnoti_Retry
begin

text \<open>
  The dead-letter queue: its records (\<^verbatim>\<open>types.go\<close>), the in-memory handler
  (\<^verbatim>\<open>memory.go\<close>, one mutex hold per method, so each call is one atomic step), and the
  contract of \<^verbatim>\<open>DLQHandler\<close> (\<^verbatim>\<open>interfaces.go\<close>) as a locale over which the claim
  discipline is proved once for every backend.
\<close>

section \<open>Records\<close>

datatype DLQStatus = DLQStatusPending | DLQStatusRetrying | DLQStatusExhausted | DLQStatusResolved

record DLQRetryAttempt =
  at_AttemptNumber :: int
  at_AttemptedAt :: Time
  at_Success :: bool
  at_ErrorMessage :: string

record DLQEvent =
  dq_EventID :: string
  dq_Event :: Event
  dq_FailureReason :: string
  dq_RetryCount :: int
  dq_MaxRetries :: int
  dq_FirstFailureAt :: Time
  dq_LastAttemptAt :: Time
  dq_NextRetryAt :: Time
  dq_Status :: DLQStatus
  dq_AttemptHistory :: "DLQRetryAttempt list"
  dq_CreatedAt :: Time
  dq_UpdatedAt :: Time

section \<open>The in-memory handler\<close>

record dlqBackoffConfig =
  bc_maxRetries :: int
  bc_retryDelay :: Duration
  bc_maxRetryDelay :: Duration

record memoryDLQHandler =
  mdh_events :: "(string, DLQEvent) gomap"
  mdh_config :: dlqBackoffConfig

definition NewMemoryDLQHandler :: "int \<Rightarrow> Duration \<Rightarrow> Duration \<Rightarrow> memoryDLQHandler" where
  "NewMemoryDLQHandler maxRetries retryDelay maxRetryDelay =
     \<lparr>mdh_events = [],
      mdh_config = \<lparr>bc_maxRetries = (if maxRetries \<le> 0 then 3 else maxRetries),
                    bc_retryDelay = retryDelay, bc_maxRetryDelay = maxRetryDelay\<rparr>\<rparr>"

text \<open>Both branches of \<^verbatim>\<open>PublishToDLQ\<close>; the error it returns is always nil.\<close>

definition mem_PublishToDLQ :: "Time \<Rightarrow> Event \<Rightarrow> string \<Rightarrow> memoryDLQHandler \<Rightarrow> memoryDLQHandler" where
  "mem_PublishToDLQ now event failureReason h =
     (case map_of (mdh_events h) (ev_EventID event) of
        Some existing \<Rightarrow>
          h\<lparr>mdh_events := AList.update (ev_EventID event)
             (existing\<lparr>dq_FailureReason := failureReason, dq_LastAttemptAt := now, dq_UpdatedAt := now,
                dq_AttemptHistory := dq_AttemptHistory existing @
                  [\<lparr>at_AttemptNumber = dq_RetryCount existing, at_AttemptedAt = now,
                    at_Success = False, at_ErrorMessage = failureReason\<rparr>]\<rparr>) (mdh_events h)\<rparr>
      | None \<Rightarrow>
          h\<lparr>mdh_events := AList.update (ev_EventID event)
             \<lparr>dq_EventID = ev_EventID event, dq_Event = event, dq_FailureReason = failureReason,
              dq_RetryCount = 0, dq_MaxRetries = bc_maxRetries (mdh_config h),
              dq_FirstFailureAt = now, dq_LastAttemptAt = now,
              dq_NextRetryAt = time_add now (bc_retryDelay (mdh_config h)),
              dq_Status = DLQStatusPending,
              dq_AttemptHistory = [\<lparr>at_AttemptNumber = 0, at_AttemptedAt = now, at_Success = False,
                                    at_ErrorMessage = failureReason\<rparr>],
              dq_CreatedAt = now, dq_UpdatedAt = now\<rparr> (mdh_events h)\<rparr>)"

text \<open>
  The claim scan: the due pending entries (with their keys, which stand for the pointers of
  the slice), sorted by \<^verbatim>\<open>NextRetryAt\<close> and cut to the limit.  \<^verbatim>\<open>sort.Slice\<close> leaves the order
  of equal keys open, and so does the order of the underlying map.
\<close>

definition retryable :: "Time \<Rightarrow> DLQEvent \<Rightarrow> bool" where
  "retryable now e \<longleftrightarrow> dq_Status e = DLQStatusPending \<and> \<not> (dq_NextRetryAt e > now)"

definition candidates :: "Time \<Rightarrow> int \<Rightarrow> memoryDLQHandler \<Rightarrow> (string \<times> DLQEvent) list" where
  "candidates now limit h =
     (let cs = sort_key (dq_NextRetryAt \<circ> snd) (filter (retryable now \<circ> snd) (mdh_events h)) in
      if limit > 0 \<and> int (length cs) > limit then take (nat limit) cs else cs)"

fun claim_loop ::
  "Time \<Rightarrow> (string \<times> DLQEvent) list \<Rightarrow> (string, DLQEvent) gomap \<Rightarrow> DLQEvent list \<Rightarrow>
   DLQEvent list \<times> (string, DLQEvent) gomap" where
  "claim_loop now [] evs claimed = (claimed, evs)"
| "claim_loop now ((k, e) # cs) evs claimed =
     (let e' = e\<lparr>dq_Status := DLQStatusRetrying, dq_UpdatedAt := now\<rparr> in
      claim_loop now cs (AList.update k e' evs) (claimed @ [e']))"

definition mem_ClaimRetryableEvents ::
  "Time \<Rightarrow> int \<Rightarrow> memoryDLQHandler \<Rightarrow> DLQEvent list \<times> memoryDLQHandler" where
  "mem_ClaimRetryableEvents now limit h =
     (case claim_loop now (candidates now limit h) (mdh_events h) [] of
        (claimed, evs) \<Rightarrow> (claimed, h\<lparr>mdh_events := evs\<rparr>))"

text \<open>
  \<^verbatim>\<open>MarkRetried\<close>.  The backoff may panic (see \<^const>\<open>FullJitterBackoff\<close>); the deferred unlock
  then runs with the status already back to pending and nothing else recorded.
\<close>

definition mem_MarkRetried ::
  "(int \<Rightarrow> int) \<Rightarrow> Time \<Rightarrow> string \<Rightarrow> bool \<Rightarrow> error option \<Rightarrow> memoryDLQHandler \<Rightarrow>
   error option go \<times> memoryDLQHandler" where
  "mem_MarkRetried int63n now eventID success attemptErr h =
     (case map_of (mdh_events h) eventID of
        None \<Rightarrow> (Ret (Some (Sentinel ErrDLQEventNotFound)), h)
      | Some e \<Rightarrow>
          (if dq_Status e \<noteq> DLQStatusRetrying then (Ret (Some (Sentinel ErrDLQEventNotClaimed)), h)
           else
             (let newRetryCount = dq_RetryCount e + 1;
                  errMsg = (case attemptErr of None \<Rightarrow> [] | Some err \<Rightarrow> error_text err);
                  finish = (\<lambda>e1. (Ret None, h\<lparr>mdh_events := AList.update eventID
                    (e1\<lparr>dq_RetryCount := newRetryCount, dq_LastAttemptAt := now, dq_UpdatedAt := now,
                       dq_AttemptHistory := dq_AttemptHistory e1 @
                         [\<lparr>at_AttemptNumber = newRetryCount, at_AttemptedAt = now,
                           at_Success = success, at_ErrorMessage = errMsg\<rparr>]\<rparr>) (mdh_events h)\<rparr>))
              in if success then finish (e\<lparr>dq_Status := DLQStatusResolved\<rparr>)
                 else if newRetryCount \<ge> dq_MaxRetries e then finish (e\<lparr>dq_Status := DLQStatusExhausted\<rparr>)
                 else (case FullJitterBackoff int63n (bc_retryDelay (mdh_config h))
                              (bc_maxRetryDelay (mdh_config h)) newRetryCount of
                         Panic p \<Rightarrow> (Panic p, h\<lparr>mdh_events :=
                           AList.update eventID (e\<lparr>dq_Status := DLQStatusPending\<rparr>) (mdh_events h)\<rparr>)
                       | Ret d \<Rightarrow> finish (e\<lparr>dq_Status := DLQStatusPending,
                                           dq_NextRetryAt := time_add now d\<rparr>)))))"

definition mem_GetEventByID :: "string \<Rightarrow> memoryDLQHandler \<Rightarrow> error + DLQEvent" where
  "mem_GetEventByID eventID h =
     (case map_of (mdh_events h) eventID of
        None \<Rightarrow> Inl (Sentinel ErrDLQEventNotFound) | Some e \<Rightarrow> Inr e)"

definition purgeable :: "Time \<Rightarrow> DLQEvent \<Rightarrow> bool" where
  "purgeable cutoff e \<longleftrightarrow> dq_Status e = DLQStatusResolved \<or> dq_Status e = DLQStatusExhausted \<or>
     dq_CreatedAt e < cutoff"

definition mem_PurgeExpiredEvents :: "Time \<Rightarrow> Duration \<Rightarrow> memoryDLQHandler \<Rightarrow> int \<times> memoryDLQHandler" where
  "mem_PurgeExpiredEvents now maxAge h =
     (let cutoff = time_add now (wrap64 (- maxAge)) in
      (int (length (filter (purgeable cutoff \<circ> snd) (mdh_events h))),
       h\<lparr>mdh_events := filter (\<lambda>p. \<not> purgeable cutoff (snd p)) (mdh_events h)\<rparr>))"

section \<open>The handler as seen by its callers\<close>

text \<open>
  The calls that reach a handler, in the order their critical sections take place, with the
  clock reading of each.  \<open>dlq_run\<close> collects the ids each claim hands out.
\<close>

datatype dlq_call =
    CPublish Time Event string
  | CClaim Time int
  | CMark Time string bool "error option"
  | CPurge Time Duration

record 's DLQHandler =
  dlq_Publish :: "Time \<Rightarrow> Event \<Rightarrow> string \<Rightarrow> 's \<Rightarrow> 's"
  dlq_Claim :: "Time \<Rightarrow> int \<Rightarrow> 's \<Rightarrow> DLQEvent list \<times> 's"
  dlq_Mark :: "Time \<Rightarrow> string \<Rightarrow> bool \<Rightarrow> error option \<Rightarrow> 's \<Rightarrow> error option go \<times> 's"
  dlq_Purge :: "Time \<Rightarrow> Duration \<Rightarrow> 's \<Rightarrow> int \<times> 's"

fun dlq_step :: "'s DLQHandler \<Rightarrow> dlq_call \<Rightarrow> 's \<Rightarrow> string list \<times> 's" where
  "dlq_step h (CPublish now ev reason) s = ([], dlq_Publish h now ev reason s)"
| "dlq_step h (CClaim now limit) s =
     (case dlq_Claim h now limit s of (es, s') \<Rightarrow> (map dq_EventID es, s'))"
| "dlq_step h (CMark now i ok err) s = ([], snd (dlq_Mark h now i ok err s))"
| "dlq_step h (CPurge now age) s = ([], snd (dlq_Purge h now age s))"

fun dlq_run :: "'s DLQHandler \<Rightarrow> dlq_call list \<Rightarrow> 's \<Rightarrow> string list \<times> 's" where
  "dlq_run h [] s = ([], s)"
| "dlq_run h (c # cs) s =
     (case dlq_step h c s of (ids, s') \<Rightarrow>
        (case dlq_run h cs s' of (ids', s'') \<Rightarrow> (ids @ ids', s'')))"

definition mem_DLQHandler :: "(int \<Rightarrow> int) \<Rightarrow> memoryDLQHandler DLQHandler" where
  "mem_DLQHandler int63n =
     \<lparr>dlq_Publish = mem_PublishToDLQ, dlq_Claim = mem_ClaimRetryableEvents,
      dlq_Mark = mem_MarkRetried int63n, dlq_Purge = mem_PurgeExpiredEvents\<rparr>"

text \<open>A call that may end the claim on the event \<open>i\<close>: its own \<^verbatim>\<open>MarkRetried\<close>, or a purge.\<close>

fun releases :: "string \<Rightarrow> dlq_call \<Rightarrow> bool" where
  "releases i (CMark now j ok err) = (i = j)"
| "releases i (CPurge now age) = True"
| "releases i _ = False"

section \<open>Marking, abstractly\<close>

text \<open>
  What \<^verbatim>\<open>MarkRetried\<close> means for the record of an event, whatever the backend: its answer, and what becomes of the
  status, the number of attempts and their bound.
\<close>

type_synonym dlq_slot = "DLQStatus \<times> int \<times> int"

definition mark_slot :: "bool \<Rightarrow> dlq_slot option \<Rightarrow> error option \<times> dlq_slot option" where
  "mark_slot success slot =
     (case slot of
        None \<Rightarrow> (Some (Sentinel ErrDLQEventNotFound), None)
      | Some (status, n, m) \<Rightarrow>
          if status \<noteq> DLQStatusRetrying then (Some (Sentinel ErrDLQEventNotClaimed), slot)
          else (None, Some (if success then DLQStatusResolved
                            else if n + 1 \<ge> m then DLQStatusExhausted else DLQStatusPending, n + 1, m)))"

definition dlq_slot :: "DLQEvent \<Rightarrow> dlq_slot" where
  "dlq_slot e = (dq_Status e, dq_RetryCount e, dq_MaxRetries e)"

section \<open>Invariant\<close>

text \<open>
  Records stand under their own event id; the retry counter of a live record is below its
  bound, which is the configured one; an exhausted record has used exactly its attempts.
\<close>

definition dlq_event_ok :: "int \<Rightarrow> string \<Rightarrow> DLQEvent \<Rightarrow> bool" where
  "dlq_event_ok maxr i e \<longleftrightarrow>
     dq_EventID e = i \<and> dq_MaxRetries e = maxr \<and> 0 \<le> dq_RetryCount e \<and> dq_AttemptHistory e \<noteq> [] \<and>
     int (length (dq_AttemptHistory e)) > dq_RetryCount e \<and>
     (dq_Status e = DLQStatusPending \<or> dq_Status e = DLQStatusRetrying \<longrightarrow> dq_RetryCount e < maxr) \<and>
     (dq_Status e = DLQStatusExhausted \<longrightarrow> dq_RetryCount e = maxr) \<and>
     dq_RetryCount e \<le> maxr"

definition mdh_inv :: "memoryDLQHandler \<Rightarrow> bool" where
  "mdh_inv h \<longleftrightarrow> map_ok (mdh_events h) \<and> bc_maxRetries (mdh_config h) > 0 \<and>
     (\<forall>i e. map_of (mdh_events h) i = Some e \<longrightarrow> dlq_event_ok (bc_maxRetries (mdh_config h)) i e)"

abbreviation dlq_at :: "memoryDLQHandler \<Rightarrow> string \<Rightarrow> DLQEvent option" where
  "dlq_at h i \<equiv> map_of (mdh_events h) i"

section \<open>Lemmas on the in-memory handler\<close>

abbreviation retrying :: "Time \<Rightarrow> DLQEvent \<Rightarrow> DLQEvent" where
  "retrying now e \<equiv> e\<lparr>dq_Status := DLQStatusRetrying, dq_UpdatedAt := now\<rparr>"

lemma claim_loop_claimed:
  "fst (claim_loop now cs evs acc) = acc @ map (retrying now \<circ> snd) cs"
  by (induction now cs evs acc rule: claim_loop.induct) (simp_all add: Let_def)

lemma claim_loop_ok: "map_ok evs \<Longrightarrow> map_ok (snd (claim_loop now cs evs acc))"
  by (induction now cs evs acc rule: claim_loop.induct) (simp_all add: Let_def)

lemma claim_loop_lookup:
  "distinct (map fst cs) \<Longrightarrow> map_of (snd (claim_loop now cs evs acc)) i =
     (case map_of cs i of Some e \<Rightarrow> Some (retrying now e) | None \<Rightarrow> map_of evs i)"
proof (induction now cs evs acc rule: claim_loop.induct)
  case (2 now k e cs evs acc)
  from "2.prems" have none: "map_of cs k = None" by (simp add: map_of_eq_None_iff)
  show ?case
  proof (cases "i = k")
    case True
    with none 2 show ?thesis by (simp add: Let_def)
  next
    case False
    with 2 show ?thesis by (simp add: Let_def split: option.split)
  qed
qed simp

lemma candidates_sublist:
  "set (candidates now limit h) \<subseteq> {p \<in> set (mdh_events h). retryable now (snd p)}"
  by (auto simp: candidates_def Let_def dest: in_set_takeD)

lemma distinct_fst_sort: "distinct (map fst xs) \<Longrightarrow> distinct (map fst (sort_key f xs))"
  by (simp add: distinct_map)

lemma candidates_distinct: "map_ok (mdh_events h) \<Longrightarrow> distinct (map fst (candidates now limit h))"
  by (simp add: candidates_def Let_def map_ok_def distinct_fst_filter distinct_fst_sort distinct_take
      flip: take_map)

lemma candidates_sorted: "sorted (map (dq_NextRetryAt \<circ> snd) (candidates now limit h))"
  by (simp add: candidates_def Let_def sorted_wrt_take flip: take_map)

lemma map_of_candidates:
  assumes "map_ok (mdh_events h)"
  shows "map_of (candidates now limit h) i = Some e \<Longrightarrow> dlq_at h i = Some e \<and> retryable now e"
  using assms candidates_sublist [of now limit h] map_of_SomeD [of "candidates now limit h" i e]
  by (auto simp: map_ok_def)

lemma mem_Claim_spec:
  assumes "mdh_inv h" "mem_ClaimRetryableEvents now limit h = (es, h')"
  shows "es = map (retrying now \<circ> snd) (candidates now limit h)"
    and "mdh_config h' = mdh_config h"
    and "map_ok (mdh_events h')"
    and "dlq_at h' i = (case map_of (candidates now limit h) i of
           Some e \<Rightarrow> Some (retrying now e) | None \<Rightarrow> dlq_at h i)"
proof -
  let ?cs = "candidates now limit h"
  let ?r = "claim_loop now ?cs (mdh_events h) []"
  have ok: "map_ok (mdh_events h)" using assms(1) by (simp add: mdh_inv_def)
  have es: "es = fst ?r" and h': "h' = h\<lparr>mdh_events := snd ?r\<rparr>"
    using assms(2) by (simp_all add: mem_ClaimRetryableEvents_def split: prod.splits)
  show "es = map (retrying now \<circ> snd) ?cs" by (simp add: es claim_loop_claimed)
  show "mdh_config h' = mdh_config h" by (simp add: h')
  show "map_ok (mdh_events h')" by (simp add: h' claim_loop_ok ok)
  show "dlq_at h' i = (case map_of ?cs i of Some e \<Rightarrow> Some (retrying now e) | None \<Rightarrow> dlq_at h i)"
    by (simp add: h' claim_loop_lookup candidates_distinct ok)
qed

lemma candidates_ids:
  assumes "mdh_inv h"
  shows "map (dq_EventID \<circ> snd) (candidates now limit h) = map fst (candidates now limit h)"
proof (rule map_cong [OF refl])
  fix p assume "p \<in> set (candidates now limit h)"
  then have "p \<in> set (mdh_events h)" using candidates_sublist by blast
  with assms have "dlq_at h (fst p) = Some (snd p)" by (auto simp: mdh_inv_def map_ok_def)
  with assms show "(dq_EventID \<circ> snd) p = fst p" by (simp add: mdh_inv_def dlq_event_ok_def)
qed

lemma mem_Claim_ids:
  assumes "mdh_inv h" "mem_ClaimRetryableEvents now limit h = (es, h')"
  shows "map dq_EventID es = map fst (candidates now limit h)"
proof -
  have "map dq_EventID es = map (dq_EventID \<circ> snd) (candidates now limit h)"
    by (simp add: mem_Claim_spec(1) [OF assms])
  then show ?thesis by (simp add: candidates_ids [OF assms(1)])
qed

text \<open>Every operation keeps the invariant.\<close>

lemma dlq_event_ok_retrying:
  "dlq_event_ok m i e \<Longrightarrow> dq_Status e = DLQStatusPending \<Longrightarrow> dlq_event_ok m i (retrying now e)"
  by (simp add: dlq_event_ok_def)

lemma mdh_inv_new: "mdh_inv (NewMemoryDLQHandler m d md)"
  by (simp add: mdh_inv_def NewMemoryDLQHandler_def)

lemma mdh_inv_at: "mdh_inv h \<Longrightarrow> dlq_at h i = Some e \<Longrightarrow> dlq_event_ok (bc_maxRetries (mdh_config h)) i e"
  by (simp add: mdh_inv_def)

lemma mdh_inv_update:
  "mdh_inv h \<Longrightarrow> dlq_event_ok (bc_maxRetries (mdh_config h)) i e \<Longrightarrow>
   mdh_inv (h\<lparr>mdh_events := AList.update i e (mdh_events h)\<rparr>)"
  by (simp add: mdh_inv_def)

lemma mem_Publish_inv:
  assumes "mdh_inv h"
  shows "mdh_inv (mem_PublishToDLQ now ev r h)"
proof (cases "dlq_at h (ev_EventID ev)")
  case None
  have "0 < bc_maxRetries (mdh_config h)" using assms by (simp add: mdh_inv_def)
  with None assms show ?thesis
    by (simp add: mem_PublishToDLQ_def mdh_inv_update dlq_event_ok_def)
next
  case (Some e)
  with mdh_inv_at [OF assms Some] assms show ?thesis
    by (simp add: mem_PublishToDLQ_def) (intro mdh_inv_update, simp, simp add: dlq_event_ok_def)
qed

lemma mem_Claim_inv:
  assumes "mdh_inv h" "mem_ClaimRetryableEvents now limit h = (es, h')"
  shows "mdh_inv h'"
proof -
  have "dlq_event_ok (bc_maxRetries (mdh_config h)) i e" if e: "dlq_at h' i = Some e" for i e
  proof (cases "map_of (candidates now limit h) i")
    case None
    with e mem_Claim_spec(4) [OF assms] assms(1) show ?thesis by (simp add: mdh_inv_def)
  next
    case (Some e0)
    with assms(1) have "dlq_at h i = Some e0" "retryable now e0"
      using map_of_candidates by (auto simp: mdh_inv_def)
    with e Some mem_Claim_spec(4) [OF assms] assms(1) show ?thesis
      by (auto simp: mdh_inv_def retryable_def intro: dlq_event_ok_retrying)
  qed
  with assms(1) mem_Claim_spec(2,3) [OF assms] show ?thesis by (simp add: mdh_inv_def)
qed

lemma mem_Mark_inv:
  assumes "mdh_inv h"
  shows "mdh_inv (snd (mem_MarkRetried int63n now i ok err h))"
proof (cases "dlq_at h i")
  case None
  with assms show ?thesis by (simp add: mem_MarkRetried_def)
next
  case (Some e)
  note ok = mdh_inv_at [OF assms Some]
  show ?thesis
  proof (cases "dq_Status e = DLQStatusRetrying")
    case False
    with Some assms show ?thesis by (simp add: mem_MarkRetried_def)
  next
    case True
    with ok have "dq_RetryCount e + 1 \<le> dq_MaxRetries e" by (simp add: dlq_event_ok_def)
    with True Some ok assms show ?thesis
      by (simp add: mem_MarkRetried_def Let_def split: go.split)
        (intro conjI impI allI mdh_inv_update; simp add: dlq_event_ok_def)
  qed
qed

lemma mem_Purge_at:
  "mdh_inv h \<Longrightarrow> dlq_at (snd (mem_PurgeExpiredEvents now age h)) i =
     (case dlq_at h i of
        Some e \<Rightarrow> if purgeable (time_add now (wrap64 (- age))) e then None else Some e
      | None \<Rightarrow> None)"
  using map_of_filter_snd [of "mdh_events h" "\<lambda>e. \<not> purgeable (time_add now (wrap64 (- age))) e" i]
  by (simp add: mem_PurgeExpiredEvents_def Let_def mdh_inv_def split: option.split)

lemma mem_Purge_inv:
  assumes "mdh_inv h"
  shows "mdh_inv (snd (mem_PurgeExpiredEvents now age h))"
proof -
  have "map_ok (mdh_events (snd (mem_PurgeExpiredEvents now age h)))"
    using assms by (simp add: mem_PurgeExpiredEvents_def Let_def mdh_inv_def map_ok_def distinct_fst_filter)
  with assms mem_Purge_at [OF assms] show ?thesis
    by (auto simp: mdh_inv_def mem_PurgeExpiredEvents_def Let_def split: option.splits if_splits)
qed

section \<open>The contract of a DLQ handler\<close>

lemma count_list_distinct: "distinct xs \<Longrightarrow> x \<in> set xs \<Longrightarrow> count_list xs x = 1"
  by (induction xs) auto

text \<open>
  The laws the package documents for \<^verbatim>\<open>DLQHandler\<close>, on the status of each event: a claim hands out distinct
  pending records and turns them to retrying; a mark acts only on the claimed record it names; a publish
  never changes the status of a record it finds.  The laws leave room for a backend that fails: a publish may
  record nothing, and a claim may turn a record to retrying without handing it out (the claim is then lost,
  which \<^verbatim>\<open>ClaimRetryableEvents\<close> documents as a risk), but it never hands out what is not pending.
\<close>

abbreviation status_of :: "DLQEvent option \<Rightarrow> DLQStatus option" where
  "status_of \<equiv> map_option dq_Status"

lemma dlq_step_claim:
  "dlq_step h (CClaim now limit) s =
     (map dq_EventID (fst (dlq_Claim h now limit s)), snd (dlq_Claim h now limit s))"
  by (simp split: prod.split)

lemma dlq_run_Cons:
  "fst (dlq_run h (c # cs) s) = fst (dlq_step h c s) @ fst (dlq_run h cs (snd (dlq_step h c s)))"
  "snd (dlq_run h (c # cs) s) = snd (dlq_run h cs (snd (dlq_step h c s)))"
  by (simp_all split: prod.split)

declare dlq_step.simps(2) [simp del] dlq_run.simps(2) [simp del]
declare dlq_step_claim [simp] dlq_run_Cons [simp]

locale dlq_contract =
  fixes H :: "'s DLQHandler"
    and inv :: "'s \<Rightarrow> bool"
    and st :: "'s \<Rightarrow> string \<Rightarrow> DLQStatus option"
  assumes publish_inv: "inv s \<Longrightarrow> inv (dlq_Publish H now ev r s)"
    and publish_status: "inv s \<Longrightarrow> st (dlq_Publish H now ev r s) i = st s i \<or>
      i = ev_EventID ev \<and> st s i = None \<and> st (dlq_Publish H now ev r s) i = Some DLQStatusPending"
    and claim_inv: "inv s \<Longrightarrow> inv (snd (dlq_Claim H now limit s))"
    and claim_distinct: "inv s \<Longrightarrow> distinct (map dq_EventID (fst (dlq_Claim H now limit s)))"
    and claim_claimed: "inv s \<Longrightarrow> e \<in> set (fst (dlq_Claim H now limit s)) \<Longrightarrow>
      st s (dq_EventID e) = Some DLQStatusPending \<and>
      st (snd (dlq_Claim H now limit s)) (dq_EventID e) = Some DLQStatusRetrying"
    and claim_other: "inv s \<Longrightarrow> st (snd (dlq_Claim H now limit s)) i = st s i \<or>
      st s i = Some DLQStatusPending \<and> st (snd (dlq_Claim H now limit s)) i = Some DLQStatusRetrying"
    and mark_inv: "inv s \<Longrightarrow> inv (snd (dlq_Mark H now j ok err s))"
    and mark_other: "inv s \<Longrightarrow> i \<noteq> j \<or> st s i \<noteq> Some DLQStatusRetrying \<Longrightarrow>
      st (snd (dlq_Mark H now j ok err s)) i = st s i"
    and purge_inv: "inv s \<Longrightarrow> inv (snd (dlq_Purge H now age s))"
begin

lemma step_inv: "inv s \<Longrightarrow> inv (snd (dlq_step H c s))"
  by (cases c) (simp_all add: publish_inv claim_inv mark_inv purge_inv)

lemma run_inv: "inv s \<Longrightarrow> inv (snd (dlq_run H cs s))"
  by (induction cs arbitrary: s) (simp_all add: step_inv)

text \<open>A claimed record is not handed out again, and stays claimed, until a call that releases it.\<close>

lemma step_retrying:
  assumes "inv s" "st s i = Some DLQStatusRetrying" "\<not> releases i c"
  shows "i \<notin> set (fst (dlq_step H c s)) \<and> st (snd (dlq_step H c s)) i = Some DLQStatusRetrying"
proof (cases c)
  case (CPublish now ev r)
  with assms publish_status [OF assms(1), of now ev r i] show ?thesis by simp
next
  case (CClaim now limit)
  have "i \<notin> dq_EventID ` set (fst (dlq_Claim H now limit s))"
    using claim_claimed [OF assms(1)] assms(2) by fastforce
  with CClaim claim_other [OF assms(1), of now limit i] assms(2) show ?thesis by simp
next
  case (CMark now j ok err)
  with assms show ?thesis by (simp add: mark_other)
next
  case (CPurge now age)
  with assms show ?thesis by simp
qed

lemma run_retrying:
  assumes "inv s" "st s i = Some DLQStatusRetrying" "list_all (\<lambda>c. \<not> releases i c) cs"
  shows "i \<notin> set (fst (dlq_run H cs s)) \<and> st (snd (dlq_run H cs s)) i = Some DLQStatusRetrying"
  using assms
proof (induction cs arbitrary: s)
  case (Cons c cs)
  from Cons.prems have "\<not> releases i c" "list_all (\<lambda>c. \<not> releases i c) cs" by simp_all
  with step_retrying [OF Cons.prems(1,2)] Cons.IH [OF step_inv [OF Cons.prems(1)]]
  show ?case by simp
qed simp

lemma step_claims:
  assumes "inv s" "i \<in> set (fst (dlq_step H c s))"
  shows "st (snd (dlq_step H c s)) i = Some DLQStatusRetrying \<and> count_list (fst (dlq_step H c s)) i = 1"
proof (cases c)
  case (CClaim now limit)
  let ?r = "dlq_Claim H now limit s"
  from CClaim assms(2) obtain e where e: "e \<in> set (fst ?r)" "dq_EventID e = i" by auto
  with claim_claimed [OF assms(1) e(1)] have "st (snd ?r) i = Some DLQStatusRetrying"
    by simp
  moreover have "i \<in> set (map dq_EventID (fst ?r))" using e by force
  then have "count_list (map dq_EventID (fst ?r)) i = 1"
    by (rule count_list_distinct [OF claim_distinct [OF assms(1)]])
  ultimately show ?thesis using CClaim by simp
qed (use assms(2) in simp_all)

lemma run_claims_once:
  assumes "inv s" "list_all (\<lambda>c. \<not> releases i c) cs"
  shows "count_list (fst (dlq_run H cs s)) i \<le> 1"
  using assms
proof (induction cs arbitrary: s)
  case (Cons c cs)
  let ?s' = "snd (dlq_step H c s)"
  have inv': "inv ?s'" by (rule step_inv [OF Cons.prems(1)])
  have eq: "fst (dlq_run H (c # cs) s) = fst (dlq_step H c s) @ fst (dlq_run H cs ?s')"
    by simp
  show ?case
  proof (cases "i \<in> set (fst (dlq_step H c s))")
    case True
    with step_claims [OF Cons.prems(1)] run_retrying [OF inv', of i cs] Cons.prems(2)
    show ?thesis by (simp add: eq count_notin)
  next
    case False
    with Cons.IH [OF inv'] Cons.prems(2) show ?thesis by (simp add: eq count_notin)
  qed
qed simp

text \<open>Resolved and exhausted are absorbing until a purge removes the record.\<close>

lemma run_terminal:
  assumes "inv s" "st s i = Some t" "t \<noteq> DLQStatusPending" "t \<noteq> DLQStatusRetrying"
    "list_all (\<lambda>c. \<forall>now age. c \<noteq> CPurge now age) cs"
  shows "i \<notin> set (fst (dlq_run H cs s)) \<and> st (snd (dlq_run H cs s)) i = Some t"
  using assms(1,2,5)
proof (induction cs arbitrary: s)
  case (Cons c cs)
  let ?s' = "snd (dlq_step H c s)"
  have "i \<notin> set (fst (dlq_step H c s)) \<and> st ?s' i = Some t"
  proof (cases c)
    case (CPublish now ev r)
    with publish_status [OF Cons.prems(1), of now ev r i] Cons.prems show ?thesis by simp
  next
    case (CClaim now limit)
    have "i \<notin> dq_EventID ` set (fst (dlq_Claim H now limit s))"
      using claim_claimed [OF Cons.prems(1)] Cons.prems(2) assms(3) by fastforce
    with CClaim claim_other [OF Cons.prems(1), of now limit i] Cons.prems(2) assms(3) show ?thesis by simp
  next
    case (CMark now j ok err)
    with Cons.prems assms(4) show ?thesis by (simp add: mark_other)
  next
    case (CPurge now age)
    with Cons.prems show ?thesis by simp
  qed
  moreover have "list_all (\<lambda>c. \<forall>now age. c \<noteq> CPurge now age) cs" using Cons.prems(3) by simp
  ultimately show ?case using Cons.IH [OF step_inv [OF Cons.prems(1)]] by simp
qed simp

end

interpretation mem_dlq: dlq_contract "mem_DLQHandler int63n" mdh_inv "\<lambda>h i. status_of (dlq_at h i)" for int63n
proof unfold_locales
  fix s :: memoryDLQHandler and now ev r i limit j ok err e age
  assume inv: "mdh_inv s"
  let ?H = "mem_DLQHandler int63n"
  obtain es s' where r: "mem_ClaimRetryableEvents now limit s = (es, s')" by fastforce
  note spec = mem_Claim_spec [OF inv r] and ids = mem_Claim_ids [OF inv r]
  have ok: "map_ok (mdh_events s)" using inv by (simp add: mdh_inv_def)
  have H: "dlq_Claim ?H now limit s = (es, s')" using r by (simp add: mem_DLQHandler_def)
  show "mdh_inv (dlq_Publish ?H now ev r s)"
    using mem_Publish_inv [OF inv] by (simp add: mem_DLQHandler_def)
  show "status_of (dlq_at (dlq_Publish ?H now ev r s) i) = status_of (dlq_at s i) \<or>
      i = ev_EventID ev \<and> status_of (dlq_at s i) = None \<and>
      status_of (dlq_at (dlq_Publish ?H now ev r s) i) = Some DLQStatusPending"
    by (simp add: mem_DLQHandler_def mem_PublishToDLQ_def split: option.split)
  show "mdh_inv (snd (dlq_Claim ?H now limit s))"
    using mem_Claim_inv [OF inv r] by (simp add: H)
  show "distinct (map dq_EventID (fst (dlq_Claim ?H now limit s)))"
    using ids candidates_distinct [OF ok] by (simp add: H)
  show "status_of (dlq_at (snd (dlq_Claim ?H now limit s)) i) = status_of (dlq_at s i) \<or>
      status_of (dlq_at s i) = Some DLQStatusPending \<and>
      status_of (dlq_at (snd (dlq_Claim ?H now limit s)) i) = Some DLQStatusRetrying"
    using spec(4) [of i] map_of_candidates [OF ok, of now limit i]
    by (auto simp: H retryable_def split: option.splits)
  show "status_of (dlq_at s (dq_EventID e)) = Some DLQStatusPending \<and>
      status_of (dlq_at (snd (dlq_Claim ?H now limit s)) (dq_EventID e)) = Some DLQStatusRetrying"
    if e: "e \<in> set (fst (dlq_Claim ?H now limit s))"
  proof -
    from e spec(1) obtain k e0 where ke: "(k, e0) \<in> set (candidates now limit s)" "e = retrying now e0"
      by (auto simp: H)
    have at: "map_of (candidates now limit s) k = Some e0" using candidates_distinct [OF ok] ke(1) by simp
    with map_of_candidates [OF ok] have "dlq_at s k = Some e0" "retryable now e0" by blast+
    moreover from this mdh_inv_at [OF inv] have "dq_EventID e = k" by (simp add: dlq_event_ok_def ke(2))
    ultimately show ?thesis using spec(4) [of k] at ke(2) by (simp add: H retryable_def)
  qed
  show "mdh_inv (snd (dlq_Mark ?H now j ok err s))"
    using mem_Mark_inv [OF inv] by (simp add: mem_DLQHandler_def)
  show "status_of (dlq_at (snd (dlq_Mark ?H now j ok err s)) i) = status_of (dlq_at s i)"
    if "i \<noteq> j \<or> status_of (dlq_at s i) \<noteq> Some DLQStatusRetrying"
    using that by (auto simp: mem_DLQHandler_def mem_MarkRetried_def Let_def split: option.split go.split)
  show "mdh_inv (snd (dlq_Purge ?H now age s))"
    using mem_Purge_inv [OF inv] by (simp add: mem_DLQHandler_def)
qed

section \<open>Exhaustion\<close>

text \<open>
  One retry cycle of a worker whose attempt fails: claim what is due, then report the failure
  of \<open>i\<close>.  \<open>spaced g t0 ts\<close> says the cycles start at \<open>t0\<close> or later and at least \<open>g\<close> apart.
\<close>

fun fail_cycles :: "(int \<Rightarrow> int) \<Rightarrow> string \<Rightarrow> Time list \<Rightarrow> memoryDLQHandler \<Rightarrow> memoryDLQHandler" where
  "fail_cycles int63n i [] h = h"
| "fail_cycles int63n i (t # ts) h =
     fail_cycles int63n i ts
       (snd (mem_MarkRetried int63n t i False None (snd (mem_ClaimRetryableEvents t 0 h))))"

fun spaced :: "Duration \<Rightarrow> Time \<Rightarrow> Time list \<Rightarrow> bool" where
  "spaced g t0 [] = True"
| "spaced g t0 (t # ts) = (t0 \<le> t \<and> spaced g (t + g) ts)"

lemma backoff_returns:
  assumes "int63n_ok int63n" "mx < max_int64"
  obtains d where "FullJitterBackoff int63n base mx attempt = Ret d" "0 \<le> d" "d \<le> backoff_ceiling mx"
proof (cases "base \<le> 0")
  case True
  then show ?thesis using that [of 0] backoff_ceiling_pos [of mx] by (simp add: FullJitterBackoff_def)
next
  case False
  with FullJitterBackoff_Ret [OF assms(1) _ assms(2), of base attempt] that
    backoff_exp_range [of base mx attempt] show ?thesis by force
qed

lemma mem_Mark_slot:
  assumes "int63n_ok int63n" "bc_maxRetryDelay (mdh_config h) < max_int64"
    and "mem_MarkRetried int63n now i ok err h = (r, h')"
  shows "r = Ret (fst (mark_slot ok (map_option dlq_slot (dlq_at h i))))"
    and "map_option dlq_slot (dlq_at h' i) = snd (mark_slot ok (map_option dlq_slot (dlq_at h i)))"
proof -
  obtain d where "FullJitterBackoff int63n (bc_retryDelay (mdh_config h)) (bc_maxRetryDelay (mdh_config h))
      (dq_RetryCount (the (dlq_at h i)) + 1) = Ret d"
    by (rule backoff_returns [OF assms(1,2)])
  with assms(3) show "r = Ret (fst (mark_slot ok (map_option dlq_slot (dlq_at h i))))"
    and "map_option dlq_slot (dlq_at h' i) = snd (mark_slot ok (map_option dlq_slot (dlq_at h i)))"
    by (auto simp: mem_MarkRetried_def mark_slot_def dlq_slot_def Let_def split: option.splits if_splits)
qed

text \<open>An unlimited claim takes every due record.\<close>

lemma candidates_all:
  assumes "mdh_inv h" "dlq_at h i = Some e" "retryable now e"
  shows "map_of (candidates now 0 h) i = Some e"
proof -
  have "(i, e) \<in> set (candidates now 0 h)"
    using assms(2,3) by (auto simp: candidates_def Let_def dest: map_of_SomeD)
  with assms(1) show ?thesis
    using candidates_distinct [of h now 0] by (simp add: mdh_inv_def)
qed

lemma fail_cycle:
  assumes inv: "mdh_inv h" and at: "dlq_at h i = Some e" and pend: "dq_Status e = DLQStatusPending"
    and due: "dq_NextRetryAt e \<le> t" and rnd: "int63n_ok int63n"
    and mx: "bc_maxRetryDelay (mdh_config h) < max_int64"
  defines "h' \<equiv> snd (mem_MarkRetried int63n t i False None (snd (mem_ClaimRetryableEvents t 0 h)))"
  shows "mdh_inv h' \<and> mdh_config h' = mdh_config h \<and>
    (\<exists>e'. dlq_at h' i = Some e' \<and> dq_RetryCount e' = dq_RetryCount e + 1 \<and> dq_MaxRetries e' = dq_MaxRetries e \<and>
      (if dq_RetryCount e + 1 \<ge> dq_MaxRetries e then dq_Status e' = DLQStatusExhausted
       else dq_Status e' = DLQStatusPending \<and>
         dq_NextRetryAt e' \<le> t + backoff_ceiling (bc_maxRetryDelay (mdh_config h))))"
proof -
  obtain es h1 where r: "mem_ClaimRetryableEvents t 0 h = (es, h1)" by fastforce
  note spec = mem_Claim_spec [OF inv r]
  have "map_of (candidates t 0 h) i = Some e"
    using candidates_all [OF inv at] pend due by (simp add: retryable_def)
  with spec(4) [of i] have at1: "dlq_at h1 i = Some (retrying t e)" by simp
  have inv': "mdh_inv h'" unfolding h'_def r by (simp add: mem_Mark_inv mem_Claim_inv [OF inv r])
  obtain d where d: "FullJitterBackoff int63n (bc_retryDelay (mdh_config h)) (bc_maxRetryDelay (mdh_config h))
      (dq_RetryCount e + 1) = Ret d" "d \<le> backoff_ceiling (bc_maxRetryDelay (mdh_config h))"
    using backoff_returns [OF rnd mx] by metis
  show ?thesis using inv' at1 d spec(2) unfolding h'_def r
    by (simp add: mem_MarkRetried_def Let_def time_add_def)
qed

lemma fail_cycles_spec:
  assumes "mdh_inv h" "dlq_at h i = Some e" "dq_Status e = DLQStatusPending"
    "spaced (backoff_ceiling (bc_maxRetryDelay (mdh_config h))) t0 ts" "dq_NextRetryAt e \<le> t0"
    "int63n_ok int63n" "bc_maxRetryDelay (mdh_config h) < max_int64"
    "dq_RetryCount e + int (length ts) \<le> dq_MaxRetries e"
  shows "\<exists>e'. dlq_at (fail_cycles int63n i ts h) i = Some e' \<and>
           dq_RetryCount e' = dq_RetryCount e + int (length ts) \<and>
           dq_Status e' = (if dq_RetryCount e' = dq_MaxRetries e then DLQStatusExhausted else DLQStatusPending)"
  using assms
proof (induction ts arbitrary: h e t0)
  case Nil
  from mdh_inv_at [OF Nil(1,2)] Nil(3) have "dq_RetryCount e < dq_MaxRetries e" by (simp add: dlq_event_ok_def)
  with Nil show ?case by simp
next
  case (Cons t ts)
  let ?h = "snd (mem_MarkRetried int63n t i False None (snd (mem_ClaimRetryableEvents t 0 h)))"
  have due: "dq_NextRetryAt e \<le> t" using Cons.prems(4,5) by simp
  from fail_cycle [OF Cons.prems(1-3) due Cons.prems(6,7)]
  obtain e' where h': "mdh_inv ?h" "mdh_config ?h = mdh_config h" and e': "dlq_at ?h i = Some e'"
    "dq_RetryCount e' = dq_RetryCount e + 1" "dq_MaxRetries e' = dq_MaxRetries e"
    "if dq_RetryCount e + 1 \<ge> dq_MaxRetries e then dq_Status e' = DLQStatusExhausted
     else dq_Status e' = DLQStatusPending \<and>
       dq_NextRetryAt e' \<le> t + backoff_ceiling (bc_maxRetryDelay (mdh_config h))" by blast
  show ?case
  proof (cases ts)
    case Nil
    with e' Cons.prems(8) show ?thesis by (auto split: if_splits)
  next
    case (Cons t' ts')
    with Cons.prems(8) have "\<not> dq_RetryCount e + 1 \<ge> dq_MaxRetries e" by simp
    with e'(4) have p: "dq_Status e' = DLQStatusPending"
      "dq_NextRetryAt e' \<le> t + backoff_ceiling (bc_maxRetryDelay (mdh_config h))" by simp_all
    show ?thesis
      using Cons.IH [OF h'(1) e'(1) p(1) _ _ Cons.prems(6), of "t + backoff_ceiling (bc_maxRetryDelay (mdh_config h))"]
        Cons.prems(4,7,8) p(2) h'(2) e'(2,3) by (simp add: algebra_simps)
  qed
qed

section \<open>Properties\<close>

text \<open>
  Whatever calls reach a new in-memory handler, in whatever order, every record stands under
  its own event id, carries the configured bound, and has a retry counter that stays strictly
  below the bound while the record is pending or retrying and equals it once it is exhausted.
\<close>

theorem dlq_reachable_invariant:
  "mdh_inv (snd (dlq_run (mem_DLQHandler int63n) calls (NewMemoryDLQHandler maxRetries d md)))"
  by (rule mem_dlq.run_inv [OF mdh_inv_new])

text \<open>
  C7. Single claimant: over any sequence of calls in which nothing releases the event \<open>i\<close>
  (no \<^verbatim>\<open>MarkRetried\<close> for it and no purge), all the claims together hand \<open>i\<close> out at most once.  The
  calls of concurrent workers are such a sequence, since each holds the mutex.
\<close>

theorem dlq_claims_disjoint:
  assumes "mdh_inv h" and "list_all (\<lambda>c. \<not> releases i c) calls"
  shows "count_list (fst (dlq_run (mem_DLQHandler int63n) calls h)) i \<le> 1"
  by (rule mem_dlq.run_claims_once [OF assms])

definition demo_event :: Event where
  "demo_event = \<lparr>ev_EventID = ''e1'', ev_UserID = ''u1'', ev_AnonymousID = [], ev_FIDs = [],
     ev_Type = ''order'', ev_Payload = [], ev_Priority = PriorityHigh, ev_Timestamp = 0, ev_ExperimentID = []\<rparr>"

definition demo_dlq :: memoryDLQHandler where
  "demo_dlq = mem_PublishToDLQ 100 demo_event ''boom'' (NewMemoryDLQHandler 3 0 0)"

lemma demo_dlq_inv: "mdh_inv demo_dlq"
  unfolding demo_dlq_def by (rule mem_Publish_inv [OF mdh_inv_new])

lemma demo_dlq_at:
  "mdh_events demo_dlq = [(''e1'', \<lparr>dq_EventID = ''e1'', dq_Event = demo_event, dq_FailureReason = ''boom'',
     dq_RetryCount = 0, dq_MaxRetries = 3, dq_FirstFailureAt = 100, dq_LastAttemptAt = 100,
     dq_NextRetryAt = 100, dq_Status = DLQStatusPending,
     dq_AttemptHistory = [\<lparr>at_AttemptNumber = 0, at_AttemptedAt = 100, at_Success = False, at_ErrorMessage = ''boom''\<rparr>],
     dq_CreatedAt = 100, dq_UpdatedAt = 100\<rparr>)]"
  "mdh_config demo_dlq = \<lparr>bc_maxRetries = 3, bc_retryDelay = 0, bc_maxRetryDelay = 0\<rparr>"
  by (simp_all add: demo_dlq_def demo_event_def mem_PublishToDLQ_def NewMemoryDLQHandler_def time_add_def)

lemmas dlq_eval = mem_DLQHandler_def mem_ClaimRetryableEvents_def mem_MarkRetried_def candidates_def
  retryable_def demo_dlq_at dlq_run.simps(2) Let_def

theorem dlq_claims_disjoint_witness:
  "mdh_inv demo_dlq \<and> list_all (\<lambda>c. \<not> releases ''e1'' c) [CClaim 200 0, CClaim 300 5]
   \<and> count_list (fst (dlq_run (mem_DLQHandler (\<lambda>n. 0)) [CClaim 200 0, CClaim 300 5] demo_dlq)) ''e1'' \<le> 1
   \<and> ''e1'' \<in> set (fst (dlq_run (mem_DLQHandler (\<lambda>n. 0)) [CClaim 200 0, CClaim 300 5] demo_dlq))"
  using dlq_claims_disjoint [OF demo_dlq_inv, of "''e1''" "[CClaim 200 0, CClaim 300 5]" "\<lambda>n. 0"] demo_dlq_inv
  by (simp add: dlq_eval)

lemma sorted_append_le: "sorted (map f (xs @ ys)) \<Longrightarrow> x \<in> set xs \<Longrightarrow> y \<in> set ys \<Longrightarrow> f x \<le> f y"
  by (auto simp: sorted_append)

text \<open>What a limited claim leaves is due no earlier than what it takes.\<close>

lemma claim_leaves_later:
  assumes inv: "mdh_inv h" and r: "mem_ClaimRetryableEvents now limit h = (es, h')"
    and e: "dlq_at h i = Some e" "retryable now e" "i \<notin> dq_EventID ` set es" and c: "c \<in> set es"
  shows "int (length es) = limit \<and> dq_NextRetryAt c \<le> dq_NextRetryAt e"
proof -
  let ?cs = "candidates now limit h"
  let ?f = "dq_NextRetryAt \<circ> snd"
  let ?all = "sort_key ?f (filter (retryable now \<circ> snd) (mdh_events h))"
  note es = mem_Claim_spec(1) [OF inv r]
  have all: "(i, e) \<in> set ?all" using e(1,2) by (auto dest: map_of_SomeD)
  have "i \<notin> fst ` set ?cs" using e(3) mem_Claim_ids [OF inv r] by (metis set_map)
  then have out: "(i, e) \<notin> set ?cs" by force
  with all have cut: "limit > 0 \<and> int (length ?all) > limit" and cs: "?cs = take (nat limit) ?all"
    by (auto simp: candidates_def Let_def split: if_splits)
  have late: "(i, e) \<in> set (drop (nat limit) ?all)"
    using all out unfolding cs by (metis UnE append_take_drop_id set_append)
  obtain p where p: "p \<in> set (take (nat limit) ?all)" "c = retrying now (snd p)"
    using c by (auto simp: es cs)
  have "sorted (map ?f (take (nat limit) ?all @ drop (nat limit) ?all))"
    by (simp only: append_take_drop_id sorted_sort_key)
  from sorted_append_le [OF this p(1) late] have "?f p \<le> ?f (i, e)" .
  moreover have "nat limit \<le> length ?all" using cut by linarith
  then have "length es = nat limit" by (simp add: es cs min_def)
  ultimately show ?thesis using cut p(2) by simp
qed

text \<open>
  A claim hands out due pending records only, in the order of their due times, never more
  than a positive limit; it takes every due record when it is below the limit, and otherwise
  whatever it leaves is due no earlier than anything it took.
\<close>

theorem ClaimRetryableEvents_earliest_first:
  assumes "mdh_inv h" and "mem_ClaimRetryableEvents now limit h = (es, h')"
  shows "sorted (map dq_NextRetryAt es) \<and> (0 < limit \<longrightarrow> int (length es) \<le> limit) \<and>
         (\<forall>e \<in> set es. dq_Status e = DLQStatusRetrying \<and> dq_NextRetryAt e \<le> now) \<and>
         (\<forall>i e c. dlq_at h i = Some e \<longrightarrow> retryable now e \<longrightarrow> i \<notin> dq_EventID ` set es \<longrightarrow> c \<in> set es \<longrightarrow>
            int (length es) = limit \<and> dq_NextRetryAt c \<le> dq_NextRetryAt e)"
proof (intro conjI)
  let ?cs = "candidates now limit h"
  note es = mem_Claim_spec(1) [OF assms]
  have nra: "map dq_NextRetryAt es = map (dq_NextRetryAt \<circ> snd) ?cs" by (simp add: es)
  show "sorted (map dq_NextRetryAt es)" unfolding nra by (rule candidates_sorted)
  show "0 < limit \<longrightarrow> int (length es) \<le> limit" by (simp add: es candidates_def Let_def)
  show "\<forall>e \<in> set es. dq_Status e = DLQStatusRetrying \<and> dq_NextRetryAt e \<le> now"
    using candidates_sublist [of now limit h] by (fastforce simp: es retryable_def)
  show "\<forall>i e c. dlq_at h i = Some e \<longrightarrow> retryable now e \<longrightarrow> i \<notin> dq_EventID ` set es \<longrightarrow> c \<in> set es \<longrightarrow>
      int (length es) = limit \<and> dq_NextRetryAt c \<le> dq_NextRetryAt e"
    using claim_leaves_later [OF assms] by blast
qed

theorem ClaimRetryableEvents_earliest_first_witness:
  "mdh_inv demo_dlq \<and> sorted (map dq_NextRetryAt (fst (mem_ClaimRetryableEvents 200 1 demo_dlq)))
   \<and> map dq_EventID (fst (mem_ClaimRetryableEvents 200 1 demo_dlq)) = [''e1'']"
  using ClaimRetryableEvents_earliest_first [OF demo_dlq_inv surjective_pairing, of 200 1] demo_dlq_inv
  by (simp add: dlq_eval)

text \<open>
  C14. The retry budget: a pending record whose attempts keep failing is claimed again after every
  backoff, counts one attempt per cycle, and turns to exhausted exactly when the attempts reach
  its bound, provided the cycles are at least the largest backoff apart.
\<close>

theorem dlq_exhausts_after_MaxRetries:
  assumes "mdh_inv h" and "dlq_at h i = Some e" and "dq_Status e = DLQStatusPending"
    and "spaced (backoff_ceiling (bc_maxRetryDelay (mdh_config h))) (dq_NextRetryAt e) ts"
    and "int63n_ok int63n" and "bc_maxRetryDelay (mdh_config h) < max_int64"
    and "dq_RetryCount e + int (length ts) \<le> dq_MaxRetries e"
  shows "\<exists>e'. dlq_at (fail_cycles int63n i ts h) i = Some e' \<and>
           dq_RetryCount e' = dq_RetryCount e + int (length ts) \<and>
           dq_Status e' = (if dq_RetryCount e' = dq_MaxRetries e then DLQStatusExhausted else DLQStatusPending)"
  using fail_cycles_spec [OF assms(1-4) order_refl assms(5-7)] .

theorem dlq_exhausts_after_MaxRetries_witness:
  "\<exists>e'. dlq_at (fail_cycles (\<lambda>n. 0) ''e1'' [200, 200 + 30 * Second, 200 + 70 * Second] demo_dlq) ''e1'' = Some e'
     \<and> dq_RetryCount e' = 3 \<and> dq_Status e' = DLQStatusExhausted"
proof -
  have "dlq_at demo_dlq ''e1'' = Some (snd (hd (mdh_events demo_dlq)))" by (simp add: demo_dlq_at)
  from dlq_exhausts_after_MaxRetries [OF demo_dlq_inv this, of "[200, 200 + 30 * Second, 200 + 70 * Second]" "\<lambda>n. 0"]
  show ?thesis
    by (simp add: demo_dlq_at int63n_ok_def backoff_ceiling_def defaultMaxBackoff_def max_int64_def
        del: fail_cycles.simps split: if_splits) metis
qed

text \<open>
  A record that was resolved or exhausted is never claimed again before a purge removes it, not
  even when \<^verbatim>\<open>PublishToDLQ\<close> records a new failure of the same event: the documentation of
  \<^verbatim>\<open>PublishToDLQ\<close> reserves appending for pending and retrying records, the code appends to every
  record it finds and leaves its status.
\<close>

theorem republished_terminal_never_claimed:
  assumes "mdh_inv h" and "dlq_at h i = Some e"
    and "dq_Status e = DLQStatusResolved \<or> dq_Status e = DLQStatusExhausted"
    and "list_all (\<lambda>c. \<forall>now age. c \<noteq> CPurge now age) calls"
  shows "i \<notin> set (fst (dlq_run (mem_DLQHandler int63n) calls h)) \<and>
         status_of (dlq_at (snd (dlq_run (mem_DLQHandler int63n) calls h)) i) = Some (dq_Status e)"
  by (rule mem_dlq.run_terminal [OF assms(1) _ _ _ assms(4)]) (use assms(2,3) in auto)

definition demo_resolved :: memoryDLQHandler where
  "demo_resolved = snd (mem_MarkRetried (\<lambda>n. 0) 210 ''e1'' True None (snd (mem_ClaimRetryableEvents 200 0 demo_dlq)))"

lemma demo_resolved_at:
  "mdh_inv demo_resolved"
  "\<exists>e. dlq_at demo_resolved ''e1'' = Some e \<and> dq_Status e = DLQStatusResolved"
  unfolding demo_resolved_def
  by (rule mem_Mark_inv, rule mem_Claim_inv [OF demo_dlq_inv surjective_pairing])
    (simp add: dlq_eval)

theorem republished_terminal_never_claimed_witness:
  "''e1'' \<notin> set (fst (dlq_run (mem_DLQHandler (\<lambda>n. 0))
      [CPublish 300 demo_event ''again'', CClaim 900 0] demo_resolved))"
  using republished_terminal_never_claimed [OF demo_resolved_at(1),
      of "''e1''" _ "[CPublish 300 demo_event ''again'', CClaim 900 0]"] demo_resolved_at(2)
  by (auto simp: demo_resolved_def dlq_eval)

end
