(* ===== verification/Grnoti_Backend.thy ===== *)
theory Grnoti_Backend
  imports Grnoti_Types
begin

text \<open>
  What the Postgres and Mongo backends share: a store whose rows live in a table with a primary key,
  whose statements are atomic and may fail, and which can be closed; the conversions of
  \<^verbatim>\<open>postgres.go\<close>; and the resolution of stored times.

  The database servers and their drivers are not part of the repository.  A statement either fails with
  an error and no effect (a broken connection, a violated constraint, a cancelled context), or has the
  effect its SQL or BSON text describes; which of the two happens is read from a script that is part
  of the state, so every pattern of failures is covered.  Statements of concurrent clients are
  interleaved as a sequence.
\<close>

section \<open>Tables and statements\<close>

record 'r backend =
  db_closed :: bool
  db_rows :: "(string, 'r) gomap"
  db_faults :: "error option list"

definition new_backend :: "'r backend" where
  "new_backend = \<lparr>db_closed = False, db_rows = [], db_faults = []\<rparr>"

text \<open>One statement: the next entry of the script decides; an empty script means success.\<close>

definition db_stmt ::
  "('r backend \<Rightarrow> 'a \<times> 'r backend) \<Rightarrow> 'r backend \<Rightarrow> (error + 'a) \<times> 'r backend" where
  "db_stmt f s =
     (case db_faults s of
        Some err # fs \<Rightarrow> (Inl err, s\<lparr>db_faults := fs\<rparr>)
      | None # fs \<Rightarrow> (case f (s\<lparr>db_faults := fs\<rparr>) of (a, s') \<Rightarrow> (Inr a, s'))
      | [] \<Rightarrow> (case f s of (a, s') \<Rightarrow> (Inr a, s')))"

text \<open>A statement that reads, and one that changes the rows.\<close>

definition db_query :: "((string, 'r) gomap \<Rightarrow> 'a) \<Rightarrow> 'r backend \<Rightarrow> (error + 'a) \<times> 'r backend" where
  "db_query f = db_stmt (\<lambda>s. (f (db_rows s), s))"

definition db_exec ::
  "((string, 'r) gomap \<Rightarrow> 'a \<times> (string, 'r) gomap) \<Rightarrow> 'r backend \<Rightarrow> (error + 'a) \<times> 'r backend" where
  "db_exec f = db_stmt (\<lambda>s. case f (db_rows s) of (a, rows) \<Rightarrow> (a, s\<lparr>db_rows := rows\<rparr>))"

text \<open>\<^verbatim>\<open>Close\<close> of every backed store: the flag is set once; the pool or client is closed outside the model.\<close>

definition db_Close :: "'r backend \<Rightarrow> 'r backend" where
  "db_Close s = s\<lparr>db_closed := True\<rparr>"

text \<open>\<^verbatim>\<open>fmt.Errorf("...: %w", errors.Join(err, ErrBackendUnavailable))\<close>\<close>

definition backend_error :: "string \<Rightarrow> error \<Rightarrow> error" where
  "backend_error context err = Wrap (context @ '': '') (Join err (Sentinel ErrBackendUnavailable)) []"

text \<open>\<^verbatim>\<open>fmt.Errorf("...: %w", err)\<close> with an error of \<^verbatim>\<open>encoding/json\<close>, whose text is not modelled.\<close>

definition json_error :: "string \<Rightarrow> error" where
  "json_error context = Wrap (context @ '': '') (Opaque ''json'') []"

section \<open>Conversions\<close>

text \<open>
  A \<^verbatim>\<open>pgtype.Timestamptz\<close> is \<open>None\<close> when it is not valid.  The column type keeps microseconds, a BSON date
  keeps milliseconds.  The code passes current times only, so the \<^verbatim>\<open>NOT NULL\<close> constraints on the time
  columns are never violated by an invalid value.
\<close>

type_synonym Timestamptz = "Time option"

definition micros :: "Time \<Rightarrow> Time" where
  "micros t = t - t mod 1000"

definition millis :: "Time \<Rightarrow> Time" where
  "millis t = t - t mod 1000000"

definition pgTimestamptz :: "Time \<Rightarrow> Timestamptz" where
  "pgTimestamptz t = (if IsZero t then None else Some (micros t))"

definition pgTime :: "Timestamptz \<Rightarrow> Time" where
  "pgTime t = (case t of None \<Rightarrow> zero_time | Some u \<Rightarrow> u)"

text \<open>A comparison with NULL is not true.\<close>

definition ts_le :: "Timestamptz \<Rightarrow> Timestamptz \<Rightarrow> bool" where
  "ts_le a b = (case (a, b) of (Some x, Some y) \<Rightarrow> x \<le> y | _ \<Rightarrow> False)"

definition ts_less :: "Timestamptz \<Rightarrow> Timestamptz \<Rightarrow> bool" where
  "ts_less a b = (case (a, b) of (Some x, Some y) \<Rightarrow> x < y | _ \<Rightarrow> False)"

definition max_int32 :: int where "max_int32 = 2 ^ 31 - 1"
definition min_int32 :: int where "min_int32 = - (2 ^ 31)"

definition pgInt32 :: "int \<Rightarrow> int" where
  "pgInt32 n = (if n > max_int32 then max_int32 else if n < min_int32 then min_int32 else n)"

text \<open>\<^verbatim>\<open>json.Marshal\<close> and \<^verbatim>\<open>json.Unmarshal\<close> of one type; \<open>None\<close> is an error.\<close>

record 'a codec =
  Marshal :: "'a \<Rightarrow> string option"
  Unmarshal :: "string \<Rightarrow> 'a option"

text \<open>Decoding what was encoded gives the value back.\<close>

definition codec_ok :: "'a codec \<Rightarrow> bool" where
  "codec_ok J \<longleftrightarrow> (\<forall>a raw b. Marshal J a = Some raw \<and> Unmarshal J raw = Some b \<longrightarrow> b = a)"

text \<open>Every value is encoded, and what is encoded can be decoded.\<close>

definition codec_total :: "'a codec \<Rightarrow> bool" where
  "codec_total J \<longleftrightarrow> (\<forall>a. \<exists>raw b. Marshal J a = Some raw \<and> Unmarshal J raw = Some b)"

text \<open>The value of a call, with a default for errors.\<close>

definition value_or :: "'a \<Rightarrow> error + 'a \<Rightarrow> 'a" where
  "value_or d r = (case r of Inl err \<Rightarrow> d | Inr a \<Rightarrow> a)"

text \<open>A store that is open and whose statements all succeed.\<close>

definition healthy :: "'r backend \<Rightarrow> bool" where
  "healthy s \<longleftrightarrow> \<not> db_closed s \<and> db_faults s = []"

text \<open>Rows stand under their own primary key.\<close>

definition keyed :: "('r \<Rightarrow> string) \<Rightarrow> (string, 'r) gomap \<Rightarrow> bool" where
  "keyed key rows \<longleftrightarrow> map_ok rows \<and> (\<forall>k r. map_of rows k = Some r \<longrightarrow> key r = k)"

section \<open>Lemmas\<close>

lemma keyed_Nil [simp]: "keyed key []"
  by (simp add: keyed_def)

lemma keyed_update [intro]: "keyed key rows \<Longrightarrow> key r = k \<Longrightarrow> keyed key (AList.update k r rows)"
  by (simp add: keyed_def)

lemma keyed_delete [intro]: "keyed key rows \<Longrightarrow> keyed key (AList.delete k rows)"
  by (simp add: keyed_def)

lemma keyed_filter: "keyed key rows \<Longrightarrow> keyed key (filter (\<lambda>p. P (snd p)) rows)"
  by (auto simp: keyed_def map_ok_def distinct_fst_filter map_of_filter_snd split: option.splits)

lemma keyed_set: "keyed key rows \<Longrightarrow> r \<in> snd ` set rows \<longleftrightarrow> (\<exists>k. map_of rows k = Some r)"
  by (force simp: keyed_def map_ok_in_iff [symmetric])

lemma keyed_distinct: "keyed key rows \<Longrightarrow> distinct (map key (map snd rows))"
proof -
  assume k: "keyed key rows"
  then have "map key (map snd rows) = map fst rows"
    by (auto simp: keyed_def map_ok_in_iff [symmetric])
  with k show ?thesis by (simp add: keyed_def map_ok_def del: map_map)
qed

lemma db_stmt_healthy [simp]: "db_faults s = [] \<Longrightarrow> db_stmt f s = (Inr (fst (f s)), snd (f s))"
  by (simp add: db_stmt_def split_beta)

lemma db_query_healthy [simp]: "db_faults s = [] \<Longrightarrow> db_query f s = (Inr (f (db_rows s)), s)"
  by (simp add: db_query_def)

lemma db_exec_healthy [simp]:
  "db_faults s = [] \<Longrightarrow> db_exec f s = (Inr (fst (f (db_rows s))), s\<lparr>db_rows := snd (f (db_rows s))\<rparr>)"
  by (simp add: db_exec_def split_beta)

text \<open>A statement that fails leaves the rows alone.\<close>

lemma db_stmt_fails: "db_stmt f s = (Inl err, s') \<Longrightarrow> db_rows s' = db_rows s \<and> db_closed s' = db_closed s"
  by (auto simp: db_stmt_def split: list.splits option.splits prod.splits)

lemma db_query_rows: "db_query f s = (r, s') \<Longrightarrow> db_rows s' = db_rows s \<and> db_closed s' = db_closed s"
  by (auto simp: db_query_def db_stmt_def split: list.splits option.splits prod.splits)

lemma db_query_result: "db_query f s = (Inr a, s') \<Longrightarrow> a = f (db_rows s)"
  by (auto simp: db_query_def db_stmt_def split: list.splits option.splits prod.splits)

lemma db_exec_cases:
  assumes "db_exec f s = (r, s')"
  obtains (failed) err where "r = Inl err" "db_rows s' = db_rows s"
    | (applied) "r = Inr (fst (f (db_rows s)))" "db_rows s' = snd (f (db_rows s))"
  using assms by (auto simp: db_exec_def db_stmt_def split: list.splits option.splits prod.splits)

lemma micros_le: "micros t \<le> t"
  by (simp add: micros_def)

lemma millis_le: "millis t \<le> t"
  by (simp add: millis_def)

lemma micros_zero [simp]: "micros zero_time = zero_time"
  by (simp add: micros_def zero_time_def)

lemma pgTime_pgTimestamptz [simp]: "pgTime (pgTimestamptz t) = micros t"
  by (simp add: pgTime_def pgTimestamptz_def IsZero_def)

lemma ts_le_pgTime: "ts_le a (pgTimestamptz t) \<Longrightarrow> pgTime a \<le> t"
  using micros_le [of t] by (auto simp: ts_le_def pgTime_def pgTimestamptz_def split: option.splits if_splits)

lemma pgInt32_range: "min_int32 \<le> pgInt32 n \<and> pgInt32 n \<le> max_int32"
  by (simp add: pgInt32_def min_int32_def max_int32_def)

lemma backend_error_is [simp]: "errors_is (backend_error c e) ErrBackendUnavailable"
  by (simp add: backend_error_def)

text \<open>A codec that knows one value, for concrete instances.\<close>

definition demo_codec :: "'a \<Rightarrow> 'a codec" where
  "demo_codec a = \<lparr>Marshal = (\<lambda>b. if b = a then Some ''a'' else None),
     Unmarshal = (\<lambda>raw. if raw = ''a'' then Some a else None)\<rparr>"

lemma demo_codec_ok: "codec_ok (demo_codec a)"
  by (simp add: codec_ok_def demo_codec_def)

end
