(* ===== verification/Grnoti_DLQ_Postgres.thy ===== *)
theory Grnoti_DLQ_Postgres
  imports Grnoti_DLQ Grnoti_Backend
begin

text \<open>
  The dead-letter queue on Postgres (\<^verbatim>\<open>dlq.postgres.go\<close>, \<^verbatim>\<open>internal/postgresdb/dlq.sql.go\<close>).  It keeps the
  contract of a DLQ handler under every pattern of failing statements, so the claim discipline proved for
  that contract holds for it.  Rows that cannot be decoded, and the marking in two statements, are where it
  differs from the in-memory handler.
\<close>

section \<open>Rows and statements\<close>

text \<open>
  A row of \<^verbatim>\<open>grnoti_dlq\<close>.  The status strings are the four constants of the code, and a JSON array is the list of the
  texts of its elements, so that the \<^verbatim>\<open>||\<close> of two arrays is their concatenation.
\<close>

record GrnotiDlq =
  gq_EventID :: string
  gq_EventData :: string
  gq_FailureReason :: string
  gq_RetryCount :: int
  gq_MaxRetries :: int
  gq_FirstFailureAt :: Timestamptz
  gq_LastAttemptAt :: Timestamptz
  gq_NextRetryAt :: Timestamptz
  gq_Status :: DLQStatus
  gq_AttemptHistory :: "string list"
  gq_CreatedAt :: Timestamptz
  gq_UpdatedAt :: Timestamptz

type_synonym dlq_rows = "(string, GrnotiDlq) gomap"

definition sql_UpsertDLQEvent :: "GrnotiDlq \<Rightarrow> dlq_rows \<Rightarrow> unit \<times> dlq_rows" where
  "sql_UpsertDLQEvent new rows =
     (case map_of rows (gq_EventID new) of
        None \<Rightarrow> ((), AList.update (gq_EventID new) new rows)
      | Some old \<Rightarrow> ((), AList.update (gq_EventID new)
          (old\<lparr>gq_FailureReason := gq_FailureReason new, gq_LastAttemptAt := gq_LastAttemptAt new,
               gq_UpdatedAt := gq_UpdatedAt new,
               gq_AttemptHistory := gq_AttemptHistory old @ gq_AttemptHistory new\<rparr>) rows))"

text \<open>
  The claim is one statement: the inner query locks the due pending rows that come first in the order of their due
  time, the outer update changes and returns exactly those.
\<close>

definition sql_due_ids :: "Timestamptz \<Rightarrow> int \<Rightarrow> dlq_rows \<Rightarrow> string list" where
  "sql_due_ids now limit rows =
     map fst (take (nat limit) (sort_key (pgTime \<circ> gq_NextRetryAt \<circ> snd)
       (filter (\<lambda>(k, r). gq_Status r = DLQStatusPending \<and> ts_le (gq_NextRetryAt r) now) rows)))"

definition sql_ClaimRetryableEvents ::
  "Timestamptz \<Rightarrow> Timestamptz \<Rightarrow> int \<Rightarrow> dlq_rows \<Rightarrow> GrnotiDlq list \<times> dlq_rows" where
  "sql_ClaimRetryableEvents now updatedAt limit rows =
     (let ids = sql_due_ids now limit rows;
          claim = (\<lambda>r. r\<lparr>gq_Status := DLQStatusRetrying, gq_UpdatedAt := updatedAt\<rparr>)
      in (map (claim \<circ> snd) (filter (\<lambda>p. fst p \<in> set ids) rows),
          map (\<lambda>p. if fst p \<in> set ids then (fst p, claim (snd p)) else p) rows))"

definition sql_IncrementRetryCount :: "string \<Rightarrow> Timestamptz \<Rightarrow> dlq_rows \<Rightarrow> GrnotiDlq option \<times> dlq_rows" where
  "sql_IncrementRetryCount eventID now rows =
     (case map_of rows eventID of
        None \<Rightarrow> (None, rows)
      | Some r \<Rightarrow>
          if gq_Status r = DLQStatusRetrying
          then (let r' = r\<lparr>gq_RetryCount := gq_RetryCount r + 1, gq_LastAttemptAt := now, gq_UpdatedAt := now\<rparr>
                in (Some r', AList.update eventID r' rows))
          else (None, rows))"

definition sql_FinalizeRetryTerminal ::
  "string \<Rightarrow> DLQStatus \<Rightarrow> Timestamptz \<Rightarrow> string list \<Rightarrow> dlq_rows \<Rightarrow> unit \<times> dlq_rows" where
  "sql_FinalizeRetryTerminal eventID status updatedAt attempt rows =
     ((), case map_of rows eventID of
            None \<Rightarrow> rows
          | Some r \<Rightarrow> AList.update eventID (r\<lparr>gq_Status := status, gq_UpdatedAt := updatedAt,
                        gq_AttemptHistory := gq_AttemptHistory r @ attempt\<rparr>) rows)"

definition sql_FinalizeRetryPending ::
  "string \<Rightarrow> Timestamptz \<Rightarrow> Timestamptz \<Rightarrow> string list \<Rightarrow> dlq_rows \<Rightarrow> unit \<times> dlq_rows" where
  "sql_FinalizeRetryPending eventID nextRetryAt updatedAt attempt rows =
     ((), case map_of rows eventID of
            None \<Rightarrow> rows
          | Some r \<Rightarrow> AList.update eventID (r\<lparr>gq_Status := DLQStatusPending, gq_NextRetryAt := nextRetryAt,
                        gq_UpdatedAt := updatedAt, gq_AttemptHistory := gq_AttemptHistory r @ attempt\<rparr>) rows)"

definition sql_GetDLQEventByID :: "string \<Rightarrow> dlq_rows \<Rightarrow> GrnotiDlq option" where
  [simp]: "sql_GetDLQEventByID eventID rows = map_of rows eventID"

definition sql_purgeable :: "Timestamptz \<Rightarrow> GrnotiDlq \<Rightarrow> bool" where
  "sql_purgeable cutoff r \<longleftrightarrow>
     gq_Status r \<in> {DLQStatusResolved, DLQStatusExhausted} \<or> ts_less (gq_CreatedAt r) cutoff"

definition sql_PurgeExpiredEvents :: "Timestamptz \<Rightarrow> dlq_rows \<Rightarrow> int \<times> dlq_rows" where
  "sql_PurgeExpiredEvents cutoff rows =
     (int (length (filter (\<lambda>p. sql_purgeable cutoff (snd p)) rows)), filter (\<lambda>p. \<not> sql_purgeable cutoff (snd p)) rows)"

record dlq_json =
  dj_event :: "Event codec"
  dj_attempt :: "DLQRetryAttempt codec"

definition zero_event :: Event where
  "zero_event = \<lparr>ev_EventID = [], ev_UserID = [], ev_AnonymousID = [], ev_FIDs = [], ev_Type = [], ev_Payload = [],
     ev_Priority = [], ev_Timestamp = zero_time, ev_ExperimentID = []\<rparr>"

fun decode_history :: "DLQRetryAttempt codec \<Rightarrow> string list \<Rightarrow> DLQRetryAttempt list option" where
  "decode_history J [] = Some []"
| "decode_history J (raw # raws) =
     (case Unmarshal J raw of
        None \<Rightarrow> None
      | Some a \<Rightarrow> (case decode_history J raws of None \<Rightarrow> None | Some as \<Rightarrow> Some (a # as)))"

definition dlqRowToDomain :: "dlq_json \<Rightarrow> GrnotiDlq \<Rightarrow> error + DLQEvent" where
  "dlqRowToDomain J r =
     (case (if length (gq_EventData r) > 0 then Unmarshal (dj_event J) (gq_EventData r) else Some zero_event) of
        None \<Rightarrow> Inl (json_error (''grnoti/postgres: decode event for '' @ gq_EventID r))
      | Some event \<Rightarrow>
          (case decode_history (dj_attempt J) (gq_AttemptHistory r) of
             None \<Rightarrow> Inl (json_error (''grnoti/postgres: decode attempt history for '' @ gq_EventID r))
           | Some history \<Rightarrow>
               Inr \<lparr>dq_EventID = gq_EventID r, dq_Event = event, dq_FailureReason = gq_FailureReason r,
                    dq_RetryCount = gq_RetryCount r, dq_MaxRetries = gq_MaxRetries r,
                    dq_FirstFailureAt = pgTime (gq_FirstFailureAt r), dq_LastAttemptAt = pgTime (gq_LastAttemptAt r),
                    dq_NextRetryAt = pgTime (gq_NextRetryAt r), dq_Status = gq_Status r, dq_AttemptHistory = history,
                    dq_CreatedAt = pgTime (gq_CreatedAt r), dq_UpdatedAt = pgTime (gq_UpdatedAt r)\<rparr>))"

section \<open>The handler\<close>

record postgresDLQHandler =
  pq_db :: "GrnotiDlq backend"
  pq_config :: dlqBackoffConfig

definition pg_dlq_new :: "int \<Rightarrow> Duration \<Rightarrow> Duration \<Rightarrow> postgresDLQHandler" where
  "pg_dlq_new maxRetries retryDelay maxRetryDelay =
     \<lparr>pq_db = new_backend,
      pq_config = \<lparr>bc_maxRetries = (if maxRetries \<le> 0 then 3 else maxRetries),
                   bc_retryDelay = retryDelay, bc_maxRetryDelay = maxRetryDelay\<rparr>\<rparr>"

definition pg_PublishToDLQ ::
  "dlq_json \<Rightarrow> Time \<Rightarrow> Event \<Rightarrow> string \<Rightarrow> postgresDLQHandler \<Rightarrow> error option \<times> postgresDLQHandler" where
  "pg_PublishToDLQ J now event failureReason h =
     (if db_closed (pq_db h) then (Some (Sentinel ErrClosed), h)
      else case Marshal (dj_event J) event of
        None \<Rightarrow> (Some (json_error (''grnoti/postgres: encode event '' @ ev_EventID event)), h)
      | Some eventData \<Rightarrow>
          (case Marshal (dj_attempt J) \<lparr>at_AttemptNumber = 0, at_AttemptedAt = now, at_Success = False,
                                         at_ErrorMessage = failureReason\<rparr> of
             None \<Rightarrow> (Some (json_error (''grnoti/postgres: encode attempt for '' @ ev_EventID event)), h)
           | Some attemptJSON \<Rightarrow>
               (case db_exec (sql_UpsertDLQEvent
                    \<lparr>gq_EventID = ev_EventID event, gq_EventData = eventData, gq_FailureReason = failureReason,
                     gq_RetryCount = 0, gq_MaxRetries = pgInt32 (bc_maxRetries (pq_config h)),
                     gq_FirstFailureAt = pgTimestamptz now, gq_LastAttemptAt = pgTimestamptz now,
                     gq_NextRetryAt = pgTimestamptz (time_add now (bc_retryDelay (pq_config h))),
                     gq_Status = DLQStatusPending, gq_AttemptHistory = [attemptJSON],
                     gq_CreatedAt = pgTimestamptz now, gq_UpdatedAt = pgTimestamptz now\<rparr>) (pq_db h) of
                  (Inl err, db) \<Rightarrow>
                    (Some (backend_error (''grnoti/postgres: publish to dlq '' @ ev_EventID event) err), h\<lparr>pq_db := db\<rparr>)
                | (Inr u, db) \<Rightarrow> (None, h\<lparr>pq_db := db\<rparr>))))"

fun dlq_rows_loop :: "dlq_json \<Rightarrow> GrnotiDlq list \<Rightarrow> DLQEvent list \<Rightarrow> error + DLQEvent list" where
  "dlq_rows_loop J [] claimed = Inr claimed"
| "dlq_rows_loop J (r # rows) claimed =
     (case dlqRowToDomain J r of
        Inl err \<Rightarrow> Inl err
      | Inr e \<Rightarrow> dlq_rows_loop J rows (claimed @ [e]))"

definition pg_ClaimRetryableEvents ::
  "dlq_json \<Rightarrow> Time \<Rightarrow> int \<Rightarrow> postgresDLQHandler \<Rightarrow> (error + DLQEvent list) \<times> postgresDLQHandler" where
  "pg_ClaimRetryableEvents J now limit h =
     (if db_closed (pq_db h) then (Inl (Sentinel ErrClosed), h)
      else (let limit' = (if limit \<le> 0 then 10 else limit) in
        case db_exec (sql_ClaimRetryableEvents (pgTimestamptz now) (pgTimestamptz now) (pgInt32 limit')) (pq_db h) of
          (Inl err, db) \<Rightarrow> (Inl (backend_error ''grnoti/postgres: claim retryable events'' err), h\<lparr>pq_db := db\<rparr>)
        | (Inr rows, db) \<Rightarrow> (dlq_rows_loop J rows [], h\<lparr>pq_db := db\<rparr>)))"

definition pg_GetEventByID ::
  "dlq_json \<Rightarrow> string \<Rightarrow> postgresDLQHandler \<Rightarrow> (error + DLQEvent) \<times> postgresDLQHandler" where
  "pg_GetEventByID J eventID h =
     (if db_closed (pq_db h) then (Inl (Sentinel ErrClosed), h)
      else case db_query (sql_GetDLQEventByID eventID) (pq_db h) of
        (Inl err, db) \<Rightarrow> (Inl (backend_error (''grnoti/postgres: get event '' @ eventID) err), h\<lparr>pq_db := db\<rparr>)
      | (Inr None, db) \<Rightarrow> (Inl (Sentinel ErrDLQEventNotFound), h\<lparr>pq_db := db\<rparr>)
      | (Inr (Some row), db) \<Rightarrow> (dlqRowToDomain J row, h\<lparr>pq_db := db\<rparr>))"

text \<open>The statement that ends a mark, or the panic of the backoff before it.\<close>

definition pg_finalize ::
  "(int \<Rightarrow> int) \<Rightarrow> Time \<Rightarrow> string \<Rightarrow> bool \<Rightarrow> GrnotiDlq \<Rightarrow> string \<Rightarrow> dlqBackoffConfig \<Rightarrow> (dlq_rows \<Rightarrow> unit \<times> dlq_rows) go" where
  "pg_finalize int63n now eventID success row attemptJSON cfg =
     (if success then Ret (sql_FinalizeRetryTerminal eventID DLQStatusResolved (pgTimestamptz now) [attemptJSON])
      else if gq_RetryCount row \<ge> gq_MaxRetries row
        then Ret (sql_FinalizeRetryTerminal eventID DLQStatusExhausted (pgTimestamptz now) [attemptJSON])
      else (case FullJitterBackoff int63n (bc_retryDelay cfg) (bc_maxRetryDelay cfg) (gq_RetryCount row) of
              Panic p \<Rightarrow> Panic p
            | Ret d \<Rightarrow> Ret (sql_FinalizeRetryPending eventID (pgTimestamptz (time_add now d)) (pgTimestamptz now) [attemptJSON])))"

definition pg_MarkRetried ::
  "dlq_json \<Rightarrow> (int \<Rightarrow> int) \<Rightarrow> Time \<Rightarrow> string \<Rightarrow> bool \<Rightarrow> error option \<Rightarrow> postgresDLQHandler \<Rightarrow>
     error option go \<times> postgresDLQHandler" where
  "pg_MarkRetried J int63n now eventID success attemptErr h =
     (if db_closed (pq_db h) then (Ret (Some (Sentinel ErrClosed)), h)
      else case db_exec (sql_IncrementRetryCount eventID (pgTimestamptz now)) (pq_db h) of
        (Inl err, db) \<Rightarrow>
          (Ret (Some (backend_error (''grnoti/postgres: mark retried '' @ eventID) err)), h\<lparr>pq_db := db\<rparr>)
      | (Inr None, db) \<Rightarrow>
          (case pg_GetEventByID J eventID (h\<lparr>pq_db := db\<rparr>) of (got, h1) \<Rightarrow>
             if got = Inl (Sentinel ErrDLQEventNotFound) then (Ret (Some (Sentinel ErrDLQEventNotFound)), h1)
             else (Ret (Some (Sentinel ErrDLQEventNotClaimed)), h1))
      | (Inr (Some row), db) \<Rightarrow>
          (let errMsg = (case attemptErr of None \<Rightarrow> [] | Some err \<Rightarrow> error_text err);
               h1 = h\<lparr>pq_db := db\<rparr>
           in case Marshal (dj_attempt J) \<lparr>at_AttemptNumber = gq_RetryCount row, at_AttemptedAt = now,
                                            at_Success = success, at_ErrorMessage = errMsg\<rparr> of
                None \<Rightarrow> (Ret (Some (json_error (''grnoti/postgres: encode attempt for '' @ eventID))), h1)
              | Some attemptJSON \<Rightarrow>
                  (case pg_finalize int63n now eventID success row attemptJSON (pq_config h) of
                     Panic p \<Rightarrow> (Panic p, h1)
                   | Ret stmt \<Rightarrow>
                       (case db_exec stmt db of
                          (Inl err, db') \<Rightarrow>
                            (Ret (Some (backend_error (''grnoti/postgres: mark retried '' @ eventID @ '' (finalize)'') err)),
                             h\<lparr>pq_db := db'\<rparr>)
                        | (Inr u, db') \<Rightarrow> (Ret None, h\<lparr>pq_db := db'\<rparr>)))))"

definition pg_PurgeExpiredEvents :: "Time \<Rightarrow> Duration \<Rightarrow> postgresDLQHandler \<Rightarrow> (error + int) \<times> postgresDLQHandler" where
  "pg_PurgeExpiredEvents now maxAge h =
     (if db_closed (pq_db h) then (Inl (Sentinel ErrClosed), h)
      else case db_exec (sql_PurgeExpiredEvents (pgTimestamptz (time_add now (wrap64 (- maxAge))))) (pq_db h) of
        (Inl err, db) \<Rightarrow> (Inl (backend_error ''grnoti/postgres: purge expired events'' err), h\<lparr>pq_db := db\<rparr>)
      | (Inr purged, db) \<Rightarrow> (Inr purged, h\<lparr>pq_db := db\<rparr>))"

definition pg_DLQHandler :: "dlq_json \<Rightarrow> (int \<Rightarrow> int) \<Rightarrow> postgresDLQHandler DLQHandler" where
  "pg_DLQHandler J int63n =
     \<lparr>dlq_Publish = (\<lambda>now ev r h. snd (pg_PublishToDLQ J now ev r h)),
      dlq_Claim = (\<lambda>now limit h. case pg_ClaimRetryableEvents J now limit h of (r, h') \<Rightarrow> (value_or [] r, h')),
      dlq_Mark = pg_MarkRetried J int63n,
      dlq_Purge = (\<lambda>now age h. case pg_PurgeExpiredEvents now age h of (r, h') \<Rightarrow> (value_or 0 r, h'))\<rparr>"

section \<open>The Postgres handler keeps the contract\<close>

abbreviation pq_rows :: "postgresDLQHandler \<Rightarrow> dlq_rows" where
  "pq_rows h \<equiv> db_rows (pq_db h)"

abbreviation row_status :: "dlq_rows \<Rightarrow> string \<Rightarrow> DLQStatus option" where
  "row_status rows i \<equiv> map_option gq_Status (map_of rows i)"

text \<open>The statements, on the status of a row.\<close>

lemma sql_Upsert_keyed: "keyed gq_EventID rows \<Longrightarrow> keyed gq_EventID (snd (sql_UpsertDLQEvent new rows))"
  by (auto simp: sql_UpsertDLQEvent_def keyed_def split: option.split)

lemma sql_Upsert_status:
  "row_status (snd (sql_UpsertDLQEvent new rows)) i =
     (if i = gq_EventID new \<and> map_of rows i = None then Some (gq_Status new) else row_status rows i)"
  by (simp add: sql_UpsertDLQEvent_def split: option.split)

lemma map_of_map_value:
  "map_of (map (\<lambda>p. if fst p \<in> A then (fst p, f (snd p)) else p) rows) i =
     map_option (\<lambda>r. if i \<in> A then f r else r) (map_of rows i)"
  by (induction rows) auto

lemma map_fst_map_value: "map fst (map (\<lambda>p. if fst p \<in> A then (fst p, f (snd p)) else p) rows) = map fst rows"
  by (induction rows) auto

lemma sql_due_ids_due:
  assumes "map_ok rows" "i \<in> set (sql_due_ids now limit rows)"
  shows "\<exists>r. map_of rows i = Some r \<and> gq_Status r = DLQStatusPending \<and> ts_le (gq_NextRetryAt r) now"
  using assms by (auto simp: sql_due_ids_def map_ok_def dest!: in_set_takeD)

lemma sql_due_ids_length: "0 \<le> limit \<Longrightarrow> int (length (sql_due_ids now limit rows)) \<le> limit"
  by (simp add: sql_due_ids_def)

lemma sql_Claim_at:
  "map_of (snd (sql_ClaimRetryableEvents now u limit rows)) i =
     map_option (\<lambda>r. if i \<in> set (sql_due_ids now limit rows)
                    then r\<lparr>gq_Status := DLQStatusRetrying, gq_UpdatedAt := u\<rparr> else r) (map_of rows i)"
  unfolding sql_ClaimRetryableEvents_def Let_def snd_conv
  by (rule map_of_map_value [of _ "\<lambda>r. r\<lparr>gq_Status := DLQStatusRetrying, gq_UpdatedAt := u\<rparr>"])

lemma sql_Claim_keys: "map fst (snd (sql_ClaimRetryableEvents now u limit rows)) = map fst rows"
  unfolding sql_ClaimRetryableEvents_def Let_def snd_conv
  by (rule map_fst_map_value [of _ "\<lambda>r. r\<lparr>gq_Status := DLQStatusRetrying, gq_UpdatedAt := u\<rparr>"])

lemma sql_Claim_keyed: "keyed gq_EventID rows \<Longrightarrow> keyed gq_EventID (snd (sql_ClaimRetryableEvents now u limit rows))"
  by (auto simp: keyed_def map_ok_def sql_Claim_at sql_Claim_keys)

lemma sql_Claim_ids:
  assumes "keyed gq_EventID rows"
  shows "map gq_EventID (fst (sql_ClaimRetryableEvents now u limit rows)) =
           filter (\<lambda>k. k \<in> set (sql_due_ids now limit rows)) (map fst rows)"
proof -
  have "map (gq_EventID \<circ> snd) rows = map fst rows"
    using assms by (auto simp: keyed_def map_ok_in_iff [symmetric])
  then have "gq_EventID (snd p) = fst p" if "p \<in> set rows" for p
    using that by (metis comp_apply map_eq_conv)
  then show ?thesis
    by (simp add: sql_ClaimRetryableEvents_def Let_def filter_map comp_def cong: map_cong)
qed

lemma sql_Increment_status: "row_status (snd (sql_IncrementRetryCount j now rows)) i = row_status rows i"
  by (auto simp: sql_IncrementRetryCount_def Let_def split: option.split)

lemma sql_Increment_keyed: "keyed gq_EventID rows \<Longrightarrow> keyed gq_EventID (snd (sql_IncrementRetryCount j now rows))"
  by (auto simp: sql_IncrementRetryCount_def Let_def keyed_def split: option.split)

lemma sql_Increment_Some:
  "fst (sql_IncrementRetryCount j now rows) = Some row \<Longrightarrow> row_status rows j = Some DLQStatusRetrying"
  by (simp add: sql_IncrementRetryCount_def Let_def split: option.splits if_splits)

lemma sql_Increment_None:
  "fst (sql_IncrementRetryCount j now rows) = None \<Longrightarrow> snd (sql_IncrementRetryCount j now rows) = rows"
  by (simp add: sql_IncrementRetryCount_def Let_def split: option.splits if_splits)

text \<open>Whatever statement ends a mark, it changes the named row only and keeps the keys.\<close>

lemma pg_finalize_stmt:
  assumes "pg_finalize int63n now j ok row raw cfg = Ret stmt"
  shows "keyed gq_EventID rows \<Longrightarrow> keyed gq_EventID (snd (stmt rows))"
    and "i \<noteq> j \<Longrightarrow> map_of (snd (stmt rows)) i = map_of rows i"
  using assms
  by (auto simp: pg_finalize_def sql_FinalizeRetryTerminal_def sql_FinalizeRetryPending_def keyed_def
      split: option.splits if_splits go.splits)

lemma dlqRowToDomain_id: "dlqRowToDomain J r = Inr e \<Longrightarrow> dq_EventID e = gq_EventID r \<and> dq_Status e = gq_Status r"
  by (auto simp: dlqRowToDomain_def split: option.splits)

lemma dlq_rows_loop_ids:
  "dlq_rows_loop J rows acc = Inr es \<Longrightarrow> map dq_EventID es = map dq_EventID acc @ map gq_EventID rows"
  by (induction J rows acc rule: dlq_rows_loop.induct) (auto split: sum.splits dest: dlqRowToDomain_id)

lemma pg_GetEventByID_rows: "pq_rows (snd (pg_GetEventByID J i h)) = pq_rows h"
  by (auto simp: pg_GetEventByID_def dest: db_query_rows split: prod.split sum.split option.split)

lemma pg_Publish_rows:
  assumes inv: "keyed gq_EventID (pq_rows h)" and p: "pg_PublishToDLQ J now ev why h = (r, h')"
  shows "keyed gq_EventID (pq_rows h')"
    and "row_status (pq_rows h') i = row_status (pq_rows h) i \<or>
      i = ev_EventID ev \<and> row_status (pq_rows h) i = None \<and> row_status (pq_rows h') i = Some DLQStatusPending"
proof -
  from p consider "pq_rows h' = pq_rows h"
    | new where "gq_EventID new = ev_EventID ev" "gq_Status new = DLQStatusPending"
        "pq_rows h' = snd (sql_UpsertDLQEvent new (pq_rows h))"
    by (auto simp: pg_PublishToDLQ_def split: if_splits option.splits prod.splits sum.splits elim!: db_exec_cases)
      (metis GrnotiDlq.select_convs(1,9))
  then have "keyed gq_EventID (pq_rows h') \<and> (row_status (pq_rows h') i = row_status (pq_rows h) i \<or>
      i = ev_EventID ev \<and> row_status (pq_rows h) i = None \<and> row_status (pq_rows h') i = Some DLQStatusPending)"
  proof cases
    case (2 new)
    with sql_Upsert_keyed [OF inv, of new] sql_Upsert_status [of new "pq_rows h" i] show ?thesis by auto
  qed (simp add: inv)
  then show "keyed gq_EventID (pq_rows h')"
    and "row_status (pq_rows h') i = row_status (pq_rows h) i \<or>
      i = ev_EventID ev \<and> row_status (pq_rows h) i = None \<and> row_status (pq_rows h') i = Some DLQStatusPending"
    by blast+
qed

text \<open>A claim either leaves the rows alone and hands out nothing, or is one claim statement.\<close>

lemma pg_Claim_cases:
  assumes "pg_ClaimRetryableEvents J now limit h = (r, h')"
  obtains (unchanged) "pq_rows h' = pq_rows h" "value_or [] r = []"
    | (claimed) c where
        "c = sql_ClaimRetryableEvents (pgTimestamptz now) (pgTimestamptz now)
               (pgInt32 (if limit \<le> 0 then 10 else limit)) (pq_rows h)"
        "pq_rows h' = snd c" "r = dlq_rows_loop J (fst c) []"
  using assms
  by (auto simp: pg_ClaimRetryableEvents_def Let_def value_or_def split: if_splits prod.splits sum.splits
      elim!: db_exec_cases)

lemma pg_Claim_rows:
  assumes inv: "keyed gq_EventID (pq_rows h)" and c: "pg_ClaimRetryableEvents J now limit h = (r, h')"
  shows "keyed gq_EventID (pq_rows h')"
    and "distinct (map dq_EventID (value_or [] r))"
    and "e \<in> set (value_or [] r) \<Longrightarrow> row_status (pq_rows h) (dq_EventID e) = Some DLQStatusPending \<and>
           row_status (pq_rows h') (dq_EventID e) = Some DLQStatusRetrying"
    and "row_status (pq_rows h') i = row_status (pq_rows h) i \<or>
           row_status (pq_rows h) i = Some DLQStatusPending \<and> row_status (pq_rows h') i = Some DLQStatusRetrying"
proof -
  have "keyed gq_EventID (pq_rows h') \<and> distinct (map dq_EventID (value_or [] r)) \<and>
      (\<forall>i \<in> dq_EventID ` set (value_or [] r). row_status (pq_rows h) i = Some DLQStatusPending \<and>
           row_status (pq_rows h') i = Some DLQStatusRetrying) \<and>
      (\<forall>i. row_status (pq_rows h') i = row_status (pq_rows h) i \<or>
           row_status (pq_rows h) i = Some DLQStatusPending \<and> row_status (pq_rows h') i = Some DLQStatusRetrying)"
    using c
  proof (cases rule: pg_Claim_cases)
    case unchanged
    then show ?thesis using inv by simp
  next
    case (claimed c)
    let ?ids = "sql_due_ids (pgTimestamptz now) (pgInt32 (if limit \<le> 0 then 10 else limit)) (pq_rows h)"
    have ok: "map_ok (pq_rows h)" using inv by (simp add: keyed_def)
    have due: "row_status (pq_rows h) i = Some DLQStatusPending \<and> row_status (pq_rows h') i = Some DLQStatusRetrying"
      if "i \<in> set ?ids" for i
      using sql_due_ids_due [OF ok that] that by (auto simp: claimed(1,2) sql_Claim_at)
    have other: "row_status (pq_rows h') i = row_status (pq_rows h) i" if "i \<notin> set ?ids" for i
      using that by (simp add: claimed(1,2) sql_Claim_at option.map_comp comp_def)
    have "map dq_EventID (value_or [] r) = filter (\<lambda>k. k \<in> set ?ids) (map fst (pq_rows h)) \<or> value_or [] r = []"
    proof (cases r)
      case (Inr es)
      from claimed(3) Inr have "map dq_EventID es = map gq_EventID (fst c)" using dlq_rows_loop_ids [of J "fst c" "[]"] by simp
      then show ?thesis unfolding claimed(1) sql_Claim_ids [OF inv] by (simp add: Inr value_or_def)
    qed (simp add: value_or_def)
    then have "distinct (map dq_EventID (value_or [] r)) \<and> set (map dq_EventID (value_or [] r)) \<subseteq> set ?ids"
      by (elim disjE ssubst) (use ok in \<open>auto simp: map_ok_def\<close>)
    moreover have "keyed gq_EventID (pq_rows h')" unfolding claimed(1,2) by (rule sql_Claim_keyed [OF inv])
    ultimately show ?thesis using due other unfolding set_map by blast
  qed
  then show "keyed gq_EventID (pq_rows h')" "distinct (map dq_EventID (value_or [] r))"
    and "e \<in> set (value_or [] r) \<Longrightarrow> row_status (pq_rows h) (dq_EventID e) = Some DLQStatusPending \<and>
           row_status (pq_rows h') (dq_EventID e) = Some DLQStatusRetrying"
    and "row_status (pq_rows h') i = row_status (pq_rows h) i \<or>
           row_status (pq_rows h) i = Some DLQStatusPending \<and> row_status (pq_rows h') i = Some DLQStatusRetrying"
    by blast+
qed

text \<open>
  What a mark leaves in the table: the rows as they were, the counter of the claimed row raised (when the second
  statement did not take place), or both statements done.
\<close>

lemma pg_Mark_cases:
  assumes "pg_MarkRetried J int63n now j ok err h = (r, h')"
  obtains (unchanged) "pq_rows h' = pq_rows h"
    | (incremented) row where "sql_IncrementRetryCount j (pgTimestamptz now) (pq_rows h) = (Some row, pq_rows h')"
    | (finalized) row rows raw stmt where
        "sql_IncrementRetryCount j (pgTimestamptz now) (pq_rows h) = (Some row, rows)"
        "pg_finalize int63n now j ok row raw (pq_config h) = Ret stmt" "pq_rows h' = snd (stmt rows)"
proof -
  obtain q db where q: "db_exec (sql_IncrementRetryCount j (pgTimestamptz now)) (pq_db h) = (q, db)"
    by (rule prod.exhaust)
  note mark = assms [symmetric, unfolded pg_MarkRetried_def q prod.case]
  from q show ?thesis
  proof (cases rule: db_exec_cases)
    case (failed e)
    with mark unchanged show ?thesis by (simp split: if_splits)
  next
    case applied
    let ?inc = "sql_IncrementRetryCount j (pgTimestamptz now) (pq_rows h)"
    show ?thesis
    proof (cases "fst ?inc")
      case None
      then show ?thesis
        using mark applied sql_Increment_None [OF None] pg_GetEventByID_rows [of J j "h\<lparr>pq_db := db\<rparr>"] unchanged
        by (simp add: split_beta split: if_splits)
    next
      case (Some row)
      have inc: "?inc = (Some row, db_rows db)" using Some applied(2) by (simp add: prod_eq_iff)
      show ?thesis
        using mark applied(1) Some unchanged incremented [OF inc [THEN trans]] finalized [OF inc]
        by (auto simp: Let_def split: if_splits option.splits go.splits prod.splits sum.splits elim!: db_exec_cases)
    qed
  qed
qed

text \<open>A mark of a row that is not claimed leaves the rows alone; otherwise it changes that row only.\<close>

lemma pg_Mark_rows:
  assumes "keyed gq_EventID (pq_rows h)" "pg_MarkRetried J int63n now j ok err h = (r, h')"
  shows "keyed gq_EventID (pq_rows h')"
    and "i \<noteq> j \<or> row_status (pq_rows h) i \<noteq> Some DLQStatusRetrying \<Longrightarrow>
         row_status (pq_rows h') i = row_status (pq_rows h) i"
proof -
  let ?inc = "sql_IncrementRetryCount j (pgTimestamptz now) (pq_rows h)"
  note inc = sql_Increment_keyed [OF assms(1), of j "pgTimestamptz now"]
    sql_Increment_status [of j "pgTimestamptz now" "pq_rows h" i] sql_Increment_Some [of j "pgTimestamptz now" "pq_rows h"]
  from assms(2) have "keyed gq_EventID (pq_rows h') \<and>
      (i \<noteq> j \<or> row_status (pq_rows h) j \<noteq> Some DLQStatusRetrying \<longrightarrow> row_status (pq_rows h') i = row_status (pq_rows h) i)"
  proof (cases rule: pg_Mark_cases)
    case unchanged
    then show ?thesis using assms(1) by simp
  next
    case (incremented row)
    then show ?thesis using inc by simp
  next
    case (finalized row rows raw stmt)
    then show ?thesis using inc pg_finalize_stmt [OF finalized(2)] by simp
  qed
  then show "keyed gq_EventID (pq_rows h')"
    and "i \<noteq> j \<or> row_status (pq_rows h) i \<noteq> Some DLQStatusRetrying \<Longrightarrow>
         row_status (pq_rows h') i = row_status (pq_rows h) i" by blast+
qed

interpretation pg_dlq: dlq_contract "pg_DLQHandler J int63n" "\<lambda>h. keyed gq_EventID (pq_rows h)"
  "\<lambda>h. row_status (pq_rows h)" for J int63n
proof unfold_locales
  fix s :: postgresDLQHandler and now ev why i limit j ok err e age
  assume inv: "keyed gq_EventID (pq_rows s)"
  let ?H = "pg_DLQHandler J int63n"
  obtain p s1 where p: "pg_PublishToDLQ J now ev why s = (p, s1)" by (rule prod.exhaust)
  obtain c s2 where c: "pg_ClaimRetryableEvents J now limit s = (c, s2)" by (rule prod.exhaust)
  obtain m s3 where m: "pg_MarkRetried J int63n now j ok err s = (m, s3)" by (rule prod.exhaust)
  obtain g s4 where g: "pg_PurgeExpiredEvents now age s = (g, s4)" by (rule prod.exhaust)
  have H: "dlq_Publish ?H now ev why s = s1" "dlq_Claim ?H now limit s = (value_or [] c, s2)"
      "snd (dlq_Mark ?H now j ok err s) = s3" "snd (dlq_Purge ?H now age s) = s4"
    by (simp_all add: pg_DLQHandler_def p c m g)
  show "keyed gq_EventID (pq_rows (dlq_Publish ?H now ev why s))"
    unfolding H by (rule pg_Publish_rows(1) [OF inv p])
  show "row_status (pq_rows (dlq_Publish ?H now ev why s)) i = row_status (pq_rows s) i \<or>
      i = ev_EventID ev \<and> row_status (pq_rows s) i = None \<and>
      row_status (pq_rows (dlq_Publish ?H now ev why s)) i = Some DLQStatusPending"
    unfolding H by (rule pg_Publish_rows(2) [OF inv p])
  show "keyed gq_EventID (pq_rows (snd (dlq_Claim ?H now limit s)))"
    unfolding H snd_conv by (rule pg_Claim_rows(1) [OF inv c])
  show "distinct (map dq_EventID (fst (dlq_Claim ?H now limit s)))"
    unfolding H fst_conv by (rule pg_Claim_rows(2) [OF inv c])
  show "e \<in> set (fst (dlq_Claim ?H now limit s)) \<Longrightarrow>
      row_status (pq_rows s) (dq_EventID e) = Some DLQStatusPending \<and>
      row_status (pq_rows (snd (dlq_Claim ?H now limit s))) (dq_EventID e) = Some DLQStatusRetrying"
    unfolding H fst_conv snd_conv by (rule pg_Claim_rows(3) [OF inv c])
  show "row_status (pq_rows (snd (dlq_Claim ?H now limit s))) i = row_status (pq_rows s) i \<or>
      row_status (pq_rows s) i = Some DLQStatusPending \<and>
      row_status (pq_rows (snd (dlq_Claim ?H now limit s))) i = Some DLQStatusRetrying"
    unfolding H snd_conv by (rule pg_Claim_rows(4) [OF inv c])
  show "keyed gq_EventID (pq_rows (snd (dlq_Mark ?H now j ok err s)))"
    unfolding H by (rule pg_Mark_rows(1) [OF inv m])
  show "i \<noteq> j \<or> row_status (pq_rows s) i \<noteq> Some DLQStatusRetrying \<Longrightarrow>
      row_status (pq_rows (snd (dlq_Mark ?H now j ok err s))) i = row_status (pq_rows s) i"
    unfolding H by (rule pg_Mark_rows(2) [OF inv m])
  show "keyed gq_EventID (pq_rows (snd (dlq_Purge ?H now age s)))"
    unfolding H using g inv keyed_filter [OF inv]
    by (auto simp: pg_PurgeExpiredEvents_def sql_PurgeExpiredEvents_def split: if_splits prod.splits sum.splits
        elim!: db_exec_cases)
qed

section \<open>Marking\<close>

definition row_slot :: "GrnotiDlq \<Rightarrow> dlq_slot" where
  "row_slot r = (gq_Status r, gq_RetryCount r, gq_MaxRetries r)"

abbreviation pg_slot :: "postgresDLQHandler \<Rightarrow> string \<Rightarrow> dlq_slot option" where
  "pg_slot h i \<equiv> map_option row_slot (map_of (pq_rows h) i)"

lemma dlqRowToDomain_not_missing: "dlqRowToDomain J r \<noteq> Inl (Sentinel ErrDLQEventNotFound)"
  by (simp add: dlqRowToDomain_def json_error_def split: option.split)

lemma pg_Mark_slot:
  assumes "healthy (pq_db h)" "codec_total (dj_attempt J)"
    and "int63n_ok int63n" "bc_maxRetryDelay (pq_config h) < max_int64"
    and "pg_MarkRetried J int63n now i ok err h = (r, h')"
  shows "r = Ret (fst (mark_slot ok (pg_slot h i)))" and "pg_slot h' i = snd (mark_slot ok (pg_slot h i))"
proof -
  have up: "\<not> db_closed (pq_db h)" "db_faults (pq_db h) = []" using assms(1) by (simp_all add: healthy_def)
  note mark = assms(5) [symmetric, unfolded pg_MarkRetried_def]
  have "r = Ret (fst (mark_slot ok (pg_slot h i))) \<and> pg_slot h' i = snd (mark_slot ok (pg_slot h i))"
  proof (cases "row_status (pq_rows h) i = Some DLQStatusRetrying")
    case False
    then show ?thesis
      using mark up dlqRowToDomain_not_missing
      by (auto simp: sql_IncrementRetryCount_def pg_GetEventByID_def mark_slot_def row_slot_def split: option.splits)
  next
    case True
    then obtain row where row: "map_of (pq_rows h) i = Some row" "gq_Status row = DLQStatusRetrying" by auto
    let ?attempt = "\<lparr>at_AttemptNumber = gq_RetryCount row + 1, at_AttemptedAt = now, at_Success = ok,
      at_ErrorMessage = (case err of None \<Rightarrow> [] | Some e \<Rightarrow> error_text e)\<rparr>"
    obtain raw where raw: "Marshal (dj_attempt J) ?attempt = Some raw"
      using assms(2) by (auto simp: codec_total_def)
    obtain d where d: "FullJitterBackoff int63n (bc_retryDelay (pq_config h)) (bc_maxRetryDelay (pq_config h))
        (gq_RetryCount row + 1) = Ret d" by (rule backoff_returns [OF assms(3,4)])
    show ?thesis
      using mark up row raw d
      by (cases ok; cases "gq_MaxRetries row \<le> gq_RetryCount row + 1")
        (simp_all add: sql_IncrementRetryCount_def Let_def pg_finalize_def sql_FinalizeRetryTerminal_def
          sql_FinalizeRetryPending_def mark_slot_def row_slot_def)
  qed
  then show "r = Ret (fst (mark_slot ok (pg_slot h i)))" "pg_slot h' i = snd (mark_slot ok (pg_slot h i))" by blast+
qed

section \<open>Concrete instances\<close>

definition demo_json :: "Event option \<Rightarrow> dlq_json" where
  "demo_json ev = \<lparr>dj_event = \<lparr>Marshal = (\<lambda>e. Some ''{}''), Unmarshal = (\<lambda>raw. ev)\<rparr>,
     dj_attempt = \<lparr>Marshal = (\<lambda>a. Some ''{}''), Unmarshal = (\<lambda>raw. Some \<lparr>at_AttemptNumber = 0, at_AttemptedAt = 0,
       at_Success = False, at_ErrorMessage = []\<rparr>)\<rparr>\<rparr>"

lemma demo_json_total: "codec_total (dj_attempt (demo_json ev))"
  by (simp add: codec_total_def demo_json_def)

definition demo_pg :: postgresDLQHandler where
  "demo_pg = snd (pg_PublishToDLQ (demo_json None) 5000 demo_event ''boom'' (pg_dlq_new 3 0 0))"

definition demo_pg_claimed :: postgresDLQHandler where
  "demo_pg_claimed = snd (pg_ClaimRetryableEvents (demo_json (Some demo_event)) 9000 1 demo_pg)"

lemmas pg_eval = pg_DLQHandler_def pg_PublishToDLQ_def pg_ClaimRetryableEvents_def dlqRowToDomain_def
  sql_UpsertDLQEvent_def sql_ClaimRetryableEvents_def sql_due_ids_def demo_json_def pg_dlq_new_def
  new_backend_def demo_event_def ts_le_def pgTimestamptz_def micros_def IsZero_def zero_time_def pgInt32_def
  max_int32_def min_int32_def time_add_def pgTime_def Let_def value_or_def

lemma demo_pg_at:
  "pq_rows demo_pg = [(''e1'', \<lparr>gq_EventID = ''e1'', gq_EventData = ''{}'', gq_FailureReason = ''boom'', gq_RetryCount = 0,
     gq_MaxRetries = 3, gq_FirstFailureAt = Some 5000, gq_LastAttemptAt = Some 5000, gq_NextRetryAt = Some 5000,
     gq_Status = DLQStatusPending, gq_AttemptHistory = [''{}''], gq_CreatedAt = Some 5000, gq_UpdatedAt = Some 5000\<rparr>)]"
  "healthy (pq_db demo_pg)" "pq_config demo_pg = \<lparr>bc_maxRetries = 3, bc_retryDelay = 0, bc_maxRetryDelay = 0\<rparr>"
  by (simp_all add: demo_pg_def pg_eval healthy_def)

lemma demo_pg_keyed: "keyed gq_EventID (pq_rows demo_pg)"
  by (simp add: demo_pg_at keyed_def map_ok_def)

lemma demo_pg_claimed_at:
  "pg_slot demo_pg_claimed ''e1'' = Some (DLQStatusRetrying, 0, 3)" "healthy (pq_db demo_pg_claimed)"
  "pq_config demo_pg_claimed = pq_config demo_pg"
  using demo_pg_at(2) by (simp_all add: demo_pg_claimed_def pg_eval demo_pg_at healthy_def row_slot_def)

section \<open>Properties\<close>

text \<open>
  C39. A row whose stored event cannot be decoded costs the whole batch: the claim statement has turned every row of the
  batch to retrying when the loop over them meets the decoding error and returns no event at all.  Every row the
  statement selected is then retrying, and no later claim hands it out until a mark for it or a purge; nobody
  was told of the claim, so there is no such mark.
\<close>

theorem pg_claim_decode_error_orphans:
  assumes "keyed gq_EventID (pq_rows h)" and "healthy (pq_db h)"
    and "pg_ClaimRetryableEvents J now limit h = (Inl err, h')"
    and "i \<in> set (sql_due_ids (pgTimestamptz now) (pgInt32 (if limit \<le> 0 then 10 else limit)) (pq_rows h))"
    and "list_all (\<lambda>c. \<not> releases i c) calls"
  shows "row_status (pq_rows h') i = Some DLQStatusRetrying \<and>
         i \<notin> set (fst (dlq_run (pg_DLQHandler J int63n) calls h'))"
proof -
  let ?l = "pgInt32 (if limit \<le> 0 then 10 else limit)"
  have rows: "pq_rows h' = snd (sql_ClaimRetryableEvents (pgTimestamptz now) (pgTimestamptz now) ?l (pq_rows h))"
    using assms(2,3) by (auto simp: pg_ClaimRetryableEvents_def healthy_def Let_def)
  have keyed': "keyed gq_EventID (pq_rows h')" unfolding rows by (rule sql_Claim_keyed [OF assms(1)])
  have "map_ok (pq_rows h)" using assms(1) by (simp add: keyed_def)
  from sql_due_ids_due [OF this assms(4)] have st: "row_status (pq_rows h') i = Some DLQStatusRetrying"
    using assms(4) unfolding rows by (auto simp: sql_Claim_at)
  with pg_dlq.run_retrying [OF keyed' st assms(5)] show ?thesis by simp
qed

theorem pg_claim_decode_error_orphans_witness:
  "row_status (pq_rows (snd (pg_ClaimRetryableEvents (demo_json None) 9000 1 demo_pg))) ''e1'' = Some DLQStatusRetrying \<and>
   ''e1'' \<notin> set (fst (dlq_run (pg_DLQHandler (demo_json None) (\<lambda>n. 0)) [CClaim 99000 5]
      (snd (pg_ClaimRetryableEvents (demo_json None) 9000 1 demo_pg))))"
proof -
  let ?r = "pg_ClaimRetryableEvents (demo_json None) 9000 1 demo_pg"
  have up: "\<not> db_closed (pq_db demo_pg)" "db_faults (pq_db demo_pg) = []" using demo_pg_at(2) by (simp_all add: healthy_def)
  have "?r = (Inl (json_error ''grnoti/postgres: decode event for e1''), snd ?r)"
    using up by (simp add: pg_eval demo_pg_at)
  moreover have "''e1'' \<in> set (sql_due_ids (pgTimestamptz 9000) (pgInt32 (if (1::int) \<le> 0 then 10 else 1)) (pq_rows demo_pg))"
    by (simp add: pg_eval demo_pg_at)
  ultimately show ?thesis
    using pg_claim_decode_error_orphans [OF demo_pg_keyed demo_pg_at(2), of "demo_json None" 9000 1 _ _ "''e1''" "[CClaim 99000 5]"]
    by simp
qed

end
