(* ===== verification/Grnoti_DLQ_Mongo.thy ===== *)
theory Grnoti_DLQ_Mongo
  imports Grnoti_DLQ_Postgres
begin

text \<open>
  The dead-letter queue on Mongo (\<^verbatim>\<open>dlq.mongo.go\<close>).  Documents are claimed one \<^verbatim>\<open>FindOneAndUpdate\<close> at a time; a
  failure in the middle returns what was claimed so far together with the error.  The TTL index on
  \<^verbatim>\<open>created_at\<close> deletes documents on the server's own schedule and is outside the model; the calls of the
  package see it as a purge.
\<close>

section \<open>Documents and statements\<close>

record mongoDLQDoc =
  mq_EventID :: string
  mq_Event :: Event
  mq_FailureReason :: string
  mq_RetryCount :: int
  mq_MaxRetries :: int
  mq_FirstFailureAt :: Time
  mq_LastAttemptAt :: Time
  mq_NextRetryAt :: Time
  mq_Status :: DLQStatus
  mq_AttemptHistory :: "DLQRetryAttempt list"
  mq_CreatedAt :: Time
  mq_UpdatedAt :: Time

type_synonym dlq_docs = "(string, mongoDLQDoc) gomap"

definition toDLQEvent :: "mongoDLQDoc \<Rightarrow> DLQEvent" where
  "toDLQEvent d = \<lparr>dq_EventID = mq_EventID d, dq_Event = mq_Event d, dq_FailureReason = mq_FailureReason d,
     dq_RetryCount = mq_RetryCount d, dq_MaxRetries = mq_MaxRetries d, dq_FirstFailureAt = mq_FirstFailureAt d,
     dq_LastAttemptAt = mq_LastAttemptAt d, dq_NextRetryAt = mq_NextRetryAt d, dq_Status = mq_Status d,
     dq_AttemptHistory = mq_AttemptHistory d, dq_CreatedAt = mq_CreatedAt d, dq_UpdatedAt = mq_UpdatedAt d\<rparr>"

text \<open>The upsert of \<^verbatim>\<open>PublishToDLQ\<close>; \<open>stored\<close> is the event as the driver encodes it.\<close>

definition bson_upsert_dlq ::
  "Time \<Rightarrow> string \<Rightarrow> Event \<Rightarrow> string \<Rightarrow> int \<Rightarrow> Time \<Rightarrow> dlq_docs \<Rightarrow> unit \<times> dlq_docs" where
  "bson_upsert_dlq now eventID stored failureReason maxRetries nextRetryAt docs =
     (let attempt = \<lparr>at_AttemptNumber = 0, at_AttemptedAt = now, at_Success = False, at_ErrorMessage = failureReason\<rparr>
      in ((), AList.update eventID
        (case map_of docs eventID of
           Some d \<Rightarrow> d\<lparr>mq_AttemptHistory := mq_AttemptHistory d @ [attempt], mq_FailureReason := failureReason,
                       mq_LastAttemptAt := now, mq_UpdatedAt := now\<rparr>
         | None \<Rightarrow> \<lparr>mq_EventID = eventID, mq_Event = stored, mq_FailureReason = failureReason, mq_RetryCount = 0,
                    mq_MaxRetries = maxRetries, mq_FirstFailureAt = now, mq_LastAttemptAt = now,
                    mq_NextRetryAt = nextRetryAt, mq_Status = DLQStatusPending, mq_AttemptHistory = [attempt],
                    mq_CreatedAt = now, mq_UpdatedAt = now\<rparr>) docs))"

text \<open>\<^verbatim>\<open>FindOneAndUpdate\<close> of the claim: the due pending document with the earliest due time.\<close>

definition bson_due :: "Time \<Rightarrow> mongoDLQDoc \<Rightarrow> bool" where
  "bson_due now d \<longleftrightarrow> mq_Status d = DLQStatusPending \<and> mq_NextRetryAt d \<le> now"

definition bson_claim_one :: "Time \<Rightarrow> dlq_docs \<Rightarrow> mongoDLQDoc option \<times> dlq_docs" where
  "bson_claim_one now docs =
     (case sort_key (mq_NextRetryAt \<circ> snd) (filter (\<lambda>p. bson_due now (snd p)) docs) of
        [] \<Rightarrow> (None, docs)
      | (k, d) # _ \<Rightarrow>
          (let d' = d\<lparr>mq_Status := DLQStatusRetrying, mq_UpdatedAt := now\<rparr> in (Some d', AList.update k d' docs)))"

text \<open>The first statement of a mark.\<close>

definition bson_increment :: "Time \<Rightarrow> string \<Rightarrow> dlq_docs \<Rightarrow> mongoDLQDoc option \<times> dlq_docs" where
  "bson_increment now eventID docs =
     (case map_of docs eventID of
        None \<Rightarrow> (None, docs)
      | Some d \<Rightarrow>
          if mq_Status d = DLQStatusRetrying
          then (let d' = d\<lparr>mq_RetryCount := mq_RetryCount d + 1, mq_LastAttemptAt := now, mq_UpdatedAt := now\<rparr>
                in (Some d', AList.update eventID d' docs))
          else (None, docs))"

text \<open>The second one: the fields of \<^verbatim>\<open>setFields\<close>, and the attempt pushed on the history.\<close>

record setFields =
  sf_updated_at :: Time
  sf_status :: DLQStatus
  sf_next_retry_at :: "Time option"

definition bson_finalize :: "string \<Rightarrow> setFields \<Rightarrow> DLQRetryAttempt \<Rightarrow> dlq_docs \<Rightarrow> unit \<times> dlq_docs" where
  "bson_finalize eventID fs attempt docs =
     ((), case map_of docs eventID of
            None \<Rightarrow> docs
          | Some d \<Rightarrow> AList.update eventID
              (d\<lparr>mq_UpdatedAt := sf_updated_at fs, mq_Status := sf_status fs,
                 mq_NextRetryAt := (case sf_next_retry_at fs of None \<Rightarrow> mq_NextRetryAt d | Some t \<Rightarrow> t),
                 mq_AttemptHistory := mq_AttemptHistory d @ [attempt]\<rparr>) docs)"

definition bson_purgeable :: "Time \<Rightarrow> mongoDLQDoc \<Rightarrow> bool" where
  "bson_purgeable cutoff d \<longleftrightarrow>
     mq_Status d = DLQStatusResolved \<or> mq_Status d = DLQStatusExhausted \<or> mq_CreatedAt d < cutoff"

definition bson_purge :: "Time \<Rightarrow> dlq_docs \<Rightarrow> int \<times> dlq_docs" where
  "bson_purge cutoff docs =
     (int (length (filter (\<lambda>p. bson_purgeable cutoff (snd p)) docs)), filter (\<lambda>p. \<not> bson_purgeable cutoff (snd p)) docs)"

section \<open>The handler\<close>

record mongoDLQHandler =
  mq_db :: "mongoDLQDoc backend"
  mq_config :: dlqBackoffConfig

definition mongo_dlq_new :: "int \<Rightarrow> Duration \<Rightarrow> Duration \<Rightarrow> mongoDLQHandler" where
  "mongo_dlq_new maxRetries retryDelay maxRetryDelay =
     \<lparr>mq_db = new_backend,
      mq_config = \<lparr>bc_maxRetries = (if maxRetries \<le> 0 then 3 else maxRetries),
                   bc_retryDelay = retryDelay, bc_maxRetryDelay = maxRetryDelay\<rparr>\<rparr>"

text \<open>
  \<open>bson\<close> is what the driver stores for an event, \<open>None\<close> when it cannot encode its payload; the update then
  fails before it is sent.
\<close>

definition mongo_PublishToDLQ ::
  "(Event \<Rightarrow> Event option) \<Rightarrow> Time \<Rightarrow> Event \<Rightarrow> string \<Rightarrow> mongoDLQHandler \<Rightarrow> error option \<times> mongoDLQHandler" where
  "mongo_PublishToDLQ bson now event failureReason h =
     (if db_closed (mq_db h) then (Some (Sentinel ErrClosed), h)
      else (let fail = (\<lambda>err. Some (backend_error (''grnoti/mongo: publish to dlq '' @ ev_EventID event) err)) in
        case bson event of
          None \<Rightarrow> (fail (Opaque ''bson''), h)
        | Some stored \<Rightarrow>
            (case db_exec (bson_upsert_dlq (millis now) (ev_EventID event) stored failureReason
                 (bc_maxRetries (mq_config h)) (millis (time_add now (bc_retryDelay (mq_config h))))) (mq_db h) of
               (Inl err, db) \<Rightarrow> (fail err, h\<lparr>mq_db := db\<rparr>)
             | (Inr u, db) \<Rightarrow> (None, h\<lparr>mq_db := db\<rparr>))))"

text \<open>The loop of the claim, over the iterations that are left.\<close>

fun mongo_claim_loop ::
  "nat \<Rightarrow> Time \<Rightarrow> mongoDLQDoc backend \<Rightarrow> DLQEvent list \<Rightarrow> (DLQEvent list \<times> error option) \<times> mongoDLQDoc backend" where
  "mongo_claim_loop 0 now db claimed = ((claimed, None), db)"
| "mongo_claim_loop (Suc n) now db claimed =
     (case db_exec (bson_claim_one (millis now)) db of
        (Inl err, db') \<Rightarrow> ((claimed, Some (backend_error ''grnoti/mongo: claim retryable events'' err)), db')
      | (Inr None, db') \<Rightarrow> ((claimed, None), db')
      | (Inr (Some doc), db') \<Rightarrow> mongo_claim_loop n now db' (claimed @ [toDLQEvent doc]))"

definition mongo_ClaimRetryableEvents ::
  "Time \<Rightarrow> int \<Rightarrow> mongoDLQHandler \<Rightarrow> (DLQEvent list \<times> error option) \<times> mongoDLQHandler" where
  "mongo_ClaimRetryableEvents now limit h =
     (if db_closed (mq_db h) then (([], Some (Sentinel ErrClosed)), h)
      else (let limit' = (if limit \<le> 0 then 10 else limit) in
        case mongo_claim_loop (nat limit') now (mq_db h) [] of (res, db) \<Rightarrow> (res, h\<lparr>mq_db := db\<rparr>)))"

definition mongo_GetEventByID :: "string \<Rightarrow> mongoDLQHandler \<Rightarrow> (error + DLQEvent) \<times> mongoDLQHandler" where
  "mongo_GetEventByID eventID h =
     (if db_closed (mq_db h) then (Inl (Sentinel ErrClosed), h)
      else case db_query (\<lambda>docs. map_of docs eventID) (mq_db h) of
        (Inl err, db) \<Rightarrow> (Inl (backend_error (''grnoti/mongo: get event '' @ eventID) err), h\<lparr>mq_db := db\<rparr>)
      | (Inr None, db) \<Rightarrow> (Inl (Sentinel ErrDLQEventNotFound), h\<lparr>mq_db := db\<rparr>)
      | (Inr (Some doc), db) \<Rightarrow> (Inr (toDLQEvent doc), h\<lparr>mq_db := db\<rparr>))"

definition mongo_setFields ::
  "(int \<Rightarrow> int) \<Rightarrow> Time \<Rightarrow> bool \<Rightarrow> mongoDLQDoc \<Rightarrow> dlqBackoffConfig \<Rightarrow> setFields go" where
  "mongo_setFields int63n now success doc cfg =
     (if success then Ret \<lparr>sf_updated_at = millis now, sf_status = DLQStatusResolved, sf_next_retry_at = None\<rparr>
      else if mq_RetryCount doc \<ge> mq_MaxRetries doc
        then Ret \<lparr>sf_updated_at = millis now, sf_status = DLQStatusExhausted, sf_next_retry_at = None\<rparr>
      else (case FullJitterBackoff int63n (bc_retryDelay cfg) (bc_maxRetryDelay cfg) (mq_RetryCount doc) of
              Panic p \<Rightarrow> Panic p
            | Ret d \<Rightarrow> Ret \<lparr>sf_updated_at = millis now, sf_status = DLQStatusPending,
                            sf_next_retry_at = Some (millis (time_add now d))\<rparr>))"

definition mongo_MarkRetried ::
  "(int \<Rightarrow> int) \<Rightarrow> Time \<Rightarrow> string \<Rightarrow> bool \<Rightarrow> error option \<Rightarrow> mongoDLQHandler \<Rightarrow> error option go \<times> mongoDLQHandler" where
  "mongo_MarkRetried int63n now eventID success attemptErr h =
     (if db_closed (mq_db h) then (Ret (Some (Sentinel ErrClosed)), h)
      else case db_exec (bson_increment (millis now) eventID) (mq_db h) of
        (Inl err, db) \<Rightarrow>
          (Ret (Some (backend_error (''grnoti/mongo: mark retried '' @ eventID) err)), h\<lparr>mq_db := db\<rparr>)
      | (Inr None, db) \<Rightarrow>
          (case mongo_GetEventByID eventID (h\<lparr>mq_db := db\<rparr>) of (got, h1) \<Rightarrow>
             if got = Inl (Sentinel ErrDLQEventNotFound) then (Ret (Some (Sentinel ErrDLQEventNotFound)), h1)
             else (Ret (Some (Sentinel ErrDLQEventNotClaimed)), h1))
      | (Inr (Some doc), db) \<Rightarrow>
          (let errMsg = (case attemptErr of None \<Rightarrow> [] | Some err \<Rightarrow> error_text err);
               attempt = \<lparr>at_AttemptNumber = mq_RetryCount doc, at_AttemptedAt = millis now,
                          at_Success = success, at_ErrorMessage = errMsg\<rparr>
           in case mongo_setFields int63n now success doc (mq_config h) of
                Panic p \<Rightarrow> (Panic p, h\<lparr>mq_db := db\<rparr>)
              | Ret fs \<Rightarrow>
                  (case db_exec (bson_finalize eventID fs attempt) db of
                     (Inl err, db') \<Rightarrow>
                       (Ret (Some (backend_error (''grnoti/mongo: mark retried '' @ eventID @ '' (finalize)'') err)),
                        h\<lparr>mq_db := db'\<rparr>)
                   | (Inr u, db') \<Rightarrow> (Ret None, h\<lparr>mq_db := db'\<rparr>))))"

definition mongo_PurgeExpiredEvents :: "Time \<Rightarrow> Duration \<Rightarrow> mongoDLQHandler \<Rightarrow> (error + int) \<times> mongoDLQHandler" where
  "mongo_PurgeExpiredEvents now maxAge h =
     (if db_closed (mq_db h) then (Inl (Sentinel ErrClosed), h)
      else case db_exec (bson_purge (millis (time_add now (wrap64 (- maxAge))))) (mq_db h) of
        (Inl err, db) \<Rightarrow> (Inl (backend_error ''grnoti/mongo: purge expired events'' err), h\<lparr>mq_db := db\<rparr>)
      | (Inr purged, db) \<Rightarrow> (Inr purged, h\<lparr>mq_db := db\<rparr>))"

definition mongo_DLQHandler :: "(Event \<Rightarrow> Event option) \<Rightarrow> (int \<Rightarrow> int) \<Rightarrow> mongoDLQHandler DLQHandler" where
  "mongo_DLQHandler bson int63n =
     \<lparr>dlq_Publish = (\<lambda>now ev why h. snd (mongo_PublishToDLQ bson now ev why h)),
      dlq_Claim = (\<lambda>now limit h. case mongo_ClaimRetryableEvents now limit h of (r, h') \<Rightarrow> (fst r, h')),
      dlq_Mark = mongo_MarkRetried int63n,
      dlq_Purge = (\<lambda>now age h. case mongo_PurgeExpiredEvents now age h of (r, h') \<Rightarrow> (value_or 0 r, h'))\<rparr>"

section \<open>The Mongo handler keeps the contract\<close>

abbreviation mq_docs :: "mongoDLQHandler \<Rightarrow> dlq_docs" where
  "mq_docs h \<equiv> db_rows (mq_db h)"

abbreviation doc_status :: "dlq_docs \<Rightarrow> string \<Rightarrow> DLQStatus option" where
  "doc_status docs i \<equiv> map_option mq_Status (map_of docs i)"

lemma bson_upsert_keyed: "keyed mq_EventID docs \<Longrightarrow> keyed mq_EventID (snd (bson_upsert_dlq now j st why m t docs))"
  by (auto simp: bson_upsert_dlq_def Let_def keyed_def split: option.split)

lemma bson_upsert_status:
  "doc_status (snd (bson_upsert_dlq now j st why m t docs)) i =
     (if i = j \<and> map_of docs i = None then Some DLQStatusPending else doc_status docs i)"
  by (simp add: bson_upsert_dlq_def Let_def split: option.split)

text \<open>What one claim statement does: nothing is due, or the earliest due document is turned to retrying.\<close>

lemma bson_claim_one_cases:
  assumes "keyed mq_EventID docs" and "bson_claim_one now docs = (r, docs')"
  obtains (none) "r = None" "docs' = docs" "\<And>i d. map_of docs i = Some d \<Longrightarrow> \<not> bson_due now d"
    | (one) d where "map_of docs (mq_EventID d) = Some d" "bson_due now d"
        "r = Some (d\<lparr>mq_Status := DLQStatusRetrying, mq_UpdatedAt := now\<rparr>)"
        "docs' = AList.update (mq_EventID d) (d\<lparr>mq_Status := DLQStatusRetrying, mq_UpdatedAt := now\<rparr>) docs"
        "\<And>i d'. map_of docs i = Some d' \<Longrightarrow> bson_due now d' \<Longrightarrow> mq_NextRetryAt d \<le> mq_NextRetryAt d'"
proof (cases "sort_key (mq_NextRetryAt \<circ> snd) (filter (\<lambda>p. bson_due now (snd p)) docs)")
  case Nil
  then have "filter (\<lambda>p. bson_due now (snd p)) docs = []" by (metis length_0_conv length_sort)
  then show ?thesis
    using assms(2) Nil by (intro none) (auto simp: bson_claim_one_def filter_empty_conv dest!: map_of_SomeD)
next
  case (Cons p ps)
  obtain k d where p: "p = (k, d)" by fastforce
  have members: "set (p # ps) = {q \<in> set docs. bson_due now (snd q)}"
    unfolding Cons [symmetric] by simp
  then have "p \<in> {q \<in> set docs. bson_due now (snd q)}" by (metis list.set_intros(1))
  then have in_docs: "(k, d) \<in> set docs" "bson_due now d" by (simp_all add: p)
  have all: "q \<in> set docs \<Longrightarrow> bson_due now (snd q) \<Longrightarrow> q \<in> set (p # ps)" for q unfolding members by simp
  have "sorted (map (mq_NextRetryAt \<circ> snd) (p # ps))" unfolding Cons [symmetric] by (rule sorted_sort_key)
  then have least: "q \<in> set (p # ps) \<Longrightarrow> mq_NextRetryAt d \<le> mq_NextRetryAt (snd q)" for q by (auto simp: p)
  have at: "map_of docs k = Some d" and k: "mq_EventID d = k"
    using assms(1) in_docs(1) by (auto simp: keyed_def map_ok_in_iff)
  show ?thesis
  proof (rule one)
    show "mq_NextRetryAt d \<le> mq_NextRetryAt d'" if "map_of docs i = Some d'" "bson_due now d'" for i d'
      using least [OF all, of "(i, d')"] that by (auto dest: map_of_SomeD)
  qed (use assms(2) Cons p at k in_docs(2) in \<open>simp_all add: bson_claim_one_def Let_def\<close>)
qed

lemma toDLQEvent_simps [simp]:
  "dq_EventID (toDLQEvent d) = mq_EventID d" "dq_Status (toDLQEvent d) = mq_Status d"
  "dq_NextRetryAt (toDLQEvent d) = mq_NextRetryAt d"
  by (simp_all add: toDLQEvent_def)

text \<open>
  The claim loop, under every pattern of failures: it hands out exactly the documents it turned to retrying, each as
  it is stored afterwards, and touches no other.
\<close>

abbreviation claimed_doc :: "Time \<Rightarrow> mongoDLQDoc \<Rightarrow> mongoDLQDoc" where
  "claimed_doc now d \<equiv> d\<lparr>mq_Status := DLQStatusRetrying, mq_UpdatedAt := millis now\<rparr>"

definition claims :: "Time \<Rightarrow> dlq_docs \<Rightarrow> mongoDLQDoc list \<Rightarrow> dlq_docs \<Rightarrow> bool" where
  "claims now docs ds docs' \<longleftrightarrow> keyed mq_EventID docs' \<and> distinct (map mq_EventID ds) \<and>
     (\<forall>d \<in> set ds. map_of docs (mq_EventID d) = Some d \<and> bson_due (millis now) d) \<and>
     sorted (map mq_NextRetryAt ds) \<and>
     (\<forall>i. map_of docs' i = (if i \<in> mq_EventID ` set ds then map_option (claimed_doc now) (map_of docs i) else map_of docs i))"

lemma claims_Nil: "keyed mq_EventID docs \<Longrightarrow> claims now docs [] docs"
  by (simp add: claims_def)

lemma claims_Cons:
  assumes "map_of docs (mq_EventID d) = Some d" "bson_due (millis now) d"
    and least: "\<And>i d'. map_of docs i = Some d' \<Longrightarrow> bson_due (millis now) d' \<Longrightarrow> mq_NextRetryAt d \<le> mq_NextRetryAt d'"
    and rest: "claims now (AList.update (mq_EventID d) (claimed_doc now d) docs) ds docs'"
  shows "claims now docs (d # ds) docs'"
proof -
  have neq: "mq_EventID d' \<noteq> mq_EventID d" and at: "map_of docs (mq_EventID d') = Some d'"
    and due: "bson_due (millis now) d'" if "d' \<in> set ds" for d'
  proof -
    have r: "map_of (AList.update (mq_EventID d) (claimed_doc now d) docs) (mq_EventID d') = Some d'"
      and due: "bson_due (millis now) d'" using rest that by (simp_all add: claims_def)
    from r due show "mq_EventID d' \<noteq> mq_EventID d" by (auto simp: bson_due_def)
    with r due show "map_of docs (mq_EventID d') = Some d'" "bson_due (millis now) d'" by simp_all
  qed
  have new: "mq_EventID d \<notin> mq_EventID ` set ds" using neq by (metis imageE)
  show ?thesis unfolding claims_def
  proof (intro conjI)
    show "keyed mq_EventID docs'" using rest by (simp add: claims_def)
    show "distinct (map mq_EventID (d # ds))" using rest new by (simp add: claims_def)
    show "\<forall>d' \<in> set (d # ds). map_of docs (mq_EventID d') = Some d' \<and> bson_due (millis now) d'"
      using assms(1,2) at due by simp
    show "sorted (map mq_NextRetryAt (d # ds))" using rest least [OF at due] by (simp add: claims_def)
    show "\<forall>i. map_of docs' i = (if i \<in> mq_EventID ` set (d # ds) then map_option (claimed_doc now) (map_of docs i)
        else map_of docs i)"
      using rest assms(1) new by (auto simp: claims_def)
  qed
qed

lemma mongo_claim_loop_claims:
  assumes "keyed mq_EventID (db_rows db)" "mongo_claim_loop n now db acc = ((es, err), db')"
  shows "\<exists>ds. es = acc @ map (toDLQEvent \<circ> claimed_doc now) ds \<and> length ds \<le> n \<and>
           claims now (db_rows db) ds (db_rows db') \<and>
           (err = None \<longrightarrow> length ds < n \<longrightarrow> (\<forall>i d. map_of (db_rows db') i = Some d \<longrightarrow> \<not> bson_due (millis now) d))"
  using assms
proof (induction n arbitrary: db acc)
  case 0
  then show ?case by (intro exI [of _ "[]"]) (simp add: claims_Nil)
next
  case (Suc n)
  obtain q db1 where q: "db_exec (bson_claim_one (millis now)) db = (q, db1)" by (rule prod.exhaust)
  then show ?case
  proof (cases rule: db_exec_cases)
    case (failed e)
    with Suc.prems q show ?thesis by (intro exI [of _ "[]"]) (auto simp: claims_Nil)
  next
    case applied
    obtain r docs1 where c: "bson_claim_one (millis now) (db_rows db) = (r, docs1)" by (rule prod.exhaust)
    from Suc.prems(1) c show ?thesis
    proof (cases rule: bson_claim_one_cases)
      case none
      with Suc.prems q applied c show ?thesis by (intro exI [of _ "[]"]) (auto simp: claims_Nil)
    next
      case (one d)
      have db1: "db_rows db1 = AList.update (mq_EventID d) (claimed_doc now d) (db_rows db)"
        using applied(2) c one(4) by simp
      have "keyed mq_EventID (db_rows db1)" unfolding db1 using Suc.prems(1) by (rule keyed_update) simp
      moreover have "mongo_claim_loop n now db1 (acc @ [toDLQEvent (claimed_doc now d)]) = ((es, err), db')"
        using Suc.prems(2) q applied(1) c one(3) by simp
      ultimately obtain ds where ds: "es = (acc @ [toDLQEvent (claimed_doc now d)]) @ map (toDLQEvent \<circ> claimed_doc now) ds"
        "length ds \<le> n" "claims now (db_rows db1) ds (db_rows db')"
        "err = None \<longrightarrow> length ds < n \<longrightarrow> (\<forall>i d. map_of (db_rows db') i = Some d \<longrightarrow> \<not> bson_due (millis now) d)"
        using Suc.IH by blast
      have "claims now (db_rows db) (d # ds) (db_rows db')"
        using claims_Cons [OF one(1,2,5)] ds(3) by (simp add: db1)
      with ds show ?thesis by (intro exI [of _ "d # ds"]) simp
    qed
  qed
qed

text \<open>The same for the operation, on the statuses.\<close>

lemma mongo_Claim_claims:
  assumes "keyed mq_EventID (mq_docs h)" "mongo_ClaimRetryableEvents now limit h = ((es, err), h')"
  shows "\<exists>ds. es = map (toDLQEvent \<circ> claimed_doc now) ds \<and> claims now (mq_docs h) ds (mq_docs h') \<and>
           int (length ds) \<le> (if limit \<le> 0 then 10 else limit) \<and>
           (err = None \<longrightarrow> int (length ds) < (if limit \<le> 0 then 10 else limit) \<longrightarrow>
              (\<forall>i d. map_of (mq_docs h') i = Some d \<longrightarrow> \<not> bson_due (millis now) d))"
proof (cases "db_closed (mq_db h)")
  case True
  with assms show ?thesis
    by (intro exI [of _ "[]"]) (auto simp: mongo_ClaimRetryableEvents_def claims_Nil)
next
  case False
  let ?n = "nat (if limit \<le> 0 then 10 else limit)"
  obtain db' where r: "mongo_claim_loop ?n now (mq_db h) [] = ((es, err), db')" "h' = h\<lparr>mq_db := db'\<rparr>"
    using assms(2) False by (auto simp: mongo_ClaimRetryableEvents_def Let_def split: prod.splits)
  from mongo_claim_loop_claims [OF assms(1) r(1)] obtain ds where
    "es = map (toDLQEvent \<circ> claimed_doc now) ds" "length ds \<le> ?n" "claims now (mq_docs h) ds (db_rows db')"
    "err = None \<longrightarrow> length ds < ?n \<longrightarrow> (\<forall>i d. map_of (db_rows db') i = Some d \<longrightarrow> \<not> bson_due (millis now) d)" by auto
  then show ?thesis by (intro exI [of _ ds]) (auto simp: r(2) split: if_splits)
qed

lemma mongo_Claim_status:
  assumes "keyed mq_EventID (mq_docs h)" "mongo_ClaimRetryableEvents now limit h = ((es, err), h')"
  shows "keyed mq_EventID (mq_docs h')" and "distinct (map dq_EventID es)"
    and "e \<in> set es \<Longrightarrow> doc_status (mq_docs h) (dq_EventID e) = Some DLQStatusPending \<and>
           doc_status (mq_docs h') (dq_EventID e) = Some DLQStatusRetrying"
    and "doc_status (mq_docs h') i = doc_status (mq_docs h) i \<or>
           doc_status (mq_docs h) i = Some DLQStatusPending \<and> doc_status (mq_docs h') i = Some DLQStatusRetrying"
proof -
  from mongo_Claim_claims [OF assms] obtain ds where es: "es = map (toDLQEvent \<circ> claimed_doc now) ds"
    and c: "claims now (mq_docs h) ds (mq_docs h')" by blast
  have turned: "doc_status (mq_docs h) (mq_EventID d) = Some DLQStatusPending \<and>
      doc_status (mq_docs h') (mq_EventID d) = Some DLQStatusRetrying" if "d \<in> set ds" for d
    using c that by (auto simp: claims_def bson_due_def)
  show "keyed mq_EventID (mq_docs h')" using c by (simp add: claims_def)
  have "map dq_EventID es = map mq_EventID ds" by (simp add: es)
  then show "distinct (map dq_EventID es)" using c by (simp add: claims_def)
  show "e \<in> set es \<Longrightarrow> doc_status (mq_docs h) (dq_EventID e) = Some DLQStatusPending \<and>
      doc_status (mq_docs h') (dq_EventID e) = Some DLQStatusRetrying"
    using turned by (auto simp: es)
  show "doc_status (mq_docs h') i = doc_status (mq_docs h) i \<or>
      doc_status (mq_docs h) i = Some DLQStatusPending \<and> doc_status (mq_docs h') i = Some DLQStatusRetrying"
    using c turned by (cases "i \<in> mq_EventID ` set ds") (auto simp: claims_def)
qed

lemma bson_increment_facts:
  "keyed mq_EventID docs \<Longrightarrow> keyed mq_EventID (snd (bson_increment now j docs))"
  "doc_status (snd (bson_increment now j docs)) i = doc_status docs i"
  "fst (bson_increment now j docs) = Some d \<Longrightarrow> doc_status docs j = Some DLQStatusRetrying"
  "fst (bson_increment now j docs) = None \<Longrightarrow> snd (bson_increment now j docs) = docs"
  by (auto simp: bson_increment_def Let_def keyed_def split: option.splits if_splits)

lemma bson_finalize_facts:
  "keyed mq_EventID docs \<Longrightarrow> keyed mq_EventID (snd (bson_finalize j fs a docs))"
  "i \<noteq> j \<Longrightarrow> map_of (snd (bson_finalize j fs a docs)) i = map_of docs i"
  by (auto simp: bson_finalize_def keyed_def split: option.splits)

lemma mongo_GetEventByID_docs: "mq_docs (snd (mongo_GetEventByID i h)) = mq_docs h"
  by (auto simp: mongo_GetEventByID_def dest: db_query_rows split: prod.split sum.split option.split)

lemma mongo_Mark_cases:
  assumes "mongo_MarkRetried int63n now j ok err h = (r, h')"
  obtains (unchanged) "mq_docs h' = mq_docs h"
    | (incremented) d where "bson_increment (millis now) j (mq_docs h) = (Some d, mq_docs h')"
    | (finalized) d docs fs a where "bson_increment (millis now) j (mq_docs h) = (Some d, docs)"
        "mongo_setFields int63n now ok d (mq_config h) = Ret fs" "mq_docs h' = snd (bson_finalize j fs a docs)"
proof -
  obtain q db where q: "db_exec (bson_increment (millis now) j) (mq_db h) = (q, db)" by (rule prod.exhaust)
  note mark = assms [symmetric, unfolded mongo_MarkRetried_def q prod.case]
  from q show ?thesis
  proof (cases rule: db_exec_cases)
    case (failed e)
    with mark unchanged show ?thesis by (simp split: if_splits)
  next
    case applied
    let ?inc = "bson_increment (millis now) j (mq_docs h)"
    show ?thesis
    proof (cases "fst ?inc")
      case None
      then show ?thesis
        using mark applied bson_increment_facts(4) [OF None] mongo_GetEventByID_docs [of j "h\<lparr>mq_db := db\<rparr>"] unchanged
        by (simp add: split_beta split: if_splits)
    next
      case (Some d)
      have inc: "?inc = (Some d, db_rows db)" using Some applied(2) by (simp add: prod_eq_iff)
      show ?thesis
        using mark applied(1) Some unchanged incremented [OF inc [THEN trans]] finalized [OF inc]
        by (auto simp: Let_def split: if_splits option.splits go.splits prod.splits sum.splits elim!: db_exec_cases)
    qed
  qed
qed

lemma mongo_Mark_status:
  assumes "keyed mq_EventID (mq_docs h)" "mongo_MarkRetried int63n now j ok err h = (r, h')"
  shows "keyed mq_EventID (mq_docs h')"
    and "i \<noteq> j \<or> doc_status (mq_docs h) i \<noteq> Some DLQStatusRetrying \<Longrightarrow>
         doc_status (mq_docs h') i = doc_status (mq_docs h) i"
proof -
  note inc = bson_increment_facts(1) [OF assms(1), of "millis now" j]
    bson_increment_facts(2) [of "millis now" j "mq_docs h" i] bson_increment_facts(3) [of "millis now" j "mq_docs h"]
  from assms(2) have "keyed mq_EventID (mq_docs h') \<and>
      (i \<noteq> j \<or> doc_status (mq_docs h) j \<noteq> Some DLQStatusRetrying \<longrightarrow> doc_status (mq_docs h') i = doc_status (mq_docs h) i)"
  proof (cases rule: mongo_Mark_cases)
    case unchanged
    then show ?thesis using assms(1) by simp
  next
    case (incremented d)
    then show ?thesis using inc by simp
  next
    case (finalized d docs fs a)
    then show ?thesis using inc bson_finalize_facts by simp
  qed
  then show "keyed mq_EventID (mq_docs h')"
    and "i \<noteq> j \<or> doc_status (mq_docs h) i \<noteq> Some DLQStatusRetrying \<Longrightarrow>
         doc_status (mq_docs h') i = doc_status (mq_docs h) i" by blast+
qed

lemma mongo_Publish_status:
  assumes "keyed mq_EventID (mq_docs h)" "mongo_PublishToDLQ bson now ev why h = (r, h')"
  shows "keyed mq_EventID (mq_docs h')"
    and "doc_status (mq_docs h') i = doc_status (mq_docs h) i \<or>
      i = ev_EventID ev \<and> doc_status (mq_docs h) i = None \<and> doc_status (mq_docs h') i = Some DLQStatusPending"
proof -
  from assms(2) consider "mq_docs h' = mq_docs h"
    | now' st' m t where "mq_docs h' = snd (bson_upsert_dlq now' (ev_EventID ev) st' why m t (mq_docs h))"
    by (auto simp: mongo_PublishToDLQ_def Let_def split: if_splits option.splits prod.splits sum.splits
        elim!: db_exec_cases)
  then have "keyed mq_EventID (mq_docs h') \<and> (doc_status (mq_docs h') i = doc_status (mq_docs h) i \<or>
      i = ev_EventID ev \<and> doc_status (mq_docs h) i = None \<and> doc_status (mq_docs h') i = Some DLQStatusPending)"
  proof cases
    case (2 now' st' m t)
    with bson_upsert_keyed [OF assms(1), of now' "ev_EventID ev" st' why m t]
      bson_upsert_status [of now' "ev_EventID ev" st' why m t "mq_docs h" i] show ?thesis by auto
  qed (simp add: assms(1))
  then show "keyed mq_EventID (mq_docs h')"
    and "doc_status (mq_docs h') i = doc_status (mq_docs h) i \<or>
      i = ev_EventID ev \<and> doc_status (mq_docs h) i = None \<and> doc_status (mq_docs h') i = Some DLQStatusPending"
    by blast+
qed

interpretation mongo_dlq: dlq_contract "mongo_DLQHandler bson int63n" "\<lambda>h. keyed mq_EventID (mq_docs h)"
  "\<lambda>h. doc_status (mq_docs h)" for bson int63n
proof unfold_locales
  fix s :: mongoDLQHandler and now ev why i limit j ok err e age
  assume inv: "keyed mq_EventID (mq_docs s)"
  let ?H = "mongo_DLQHandler bson int63n"
  obtain p s1 where p: "mongo_PublishToDLQ bson now ev why s = (p, s1)" by (rule prod.exhaust)
  obtain es x s2 where c: "mongo_ClaimRetryableEvents now limit s = ((es, x), s2)" by (metis prod.exhaust)
  obtain m s3 where m: "mongo_MarkRetried int63n now j ok err s = (m, s3)" by (rule prod.exhaust)
  obtain g s4 where g: "mongo_PurgeExpiredEvents now age s = (g, s4)" by (rule prod.exhaust)
  have H: "dlq_Publish ?H now ev why s = s1" "dlq_Claim ?H now limit s = (es, s2)"
      "snd (dlq_Mark ?H now j ok err s) = s3" "snd (dlq_Purge ?H now age s) = s4"
    by (simp_all add: mongo_DLQHandler_def p c m g)
  show "keyed mq_EventID (mq_docs (dlq_Publish ?H now ev why s))"
    unfolding H by (rule mongo_Publish_status(1) [OF inv p])
  show "doc_status (mq_docs (dlq_Publish ?H now ev why s)) i = doc_status (mq_docs s) i \<or>
      i = ev_EventID ev \<and> doc_status (mq_docs s) i = None \<and>
      doc_status (mq_docs (dlq_Publish ?H now ev why s)) i = Some DLQStatusPending"
    unfolding H by (rule mongo_Publish_status(2) [OF inv p])
  show "keyed mq_EventID (mq_docs (snd (dlq_Claim ?H now limit s)))"
    unfolding H snd_conv by (rule mongo_Claim_status(1) [OF inv c])
  show "distinct (map dq_EventID (fst (dlq_Claim ?H now limit s)))"
    unfolding H fst_conv by (rule mongo_Claim_status(2) [OF inv c])
  show "e \<in> set (fst (dlq_Claim ?H now limit s)) \<Longrightarrow>
      doc_status (mq_docs s) (dq_EventID e) = Some DLQStatusPending \<and>
      doc_status (mq_docs (snd (dlq_Claim ?H now limit s))) (dq_EventID e) = Some DLQStatusRetrying"
    unfolding H fst_conv snd_conv by (rule mongo_Claim_status(3) [OF inv c])
  show "doc_status (mq_docs (snd (dlq_Claim ?H now limit s))) i = doc_status (mq_docs s) i \<or>
      doc_status (mq_docs s) i = Some DLQStatusPending \<and>
      doc_status (mq_docs (snd (dlq_Claim ?H now limit s))) i = Some DLQStatusRetrying"
    unfolding H snd_conv by (rule mongo_Claim_status(4) [OF inv c])
  show "keyed mq_EventID (mq_docs (snd (dlq_Mark ?H now j ok err s)))"
    unfolding H by (rule mongo_Mark_status(1) [OF inv m])
  show "i \<noteq> j \<or> doc_status (mq_docs s) i \<noteq> Some DLQStatusRetrying \<Longrightarrow>
      doc_status (mq_docs (snd (dlq_Mark ?H now j ok err s))) i = doc_status (mq_docs s) i"
    unfolding H by (rule mongo_Mark_status(2) [OF inv m])
  show "keyed mq_EventID (mq_docs (snd (dlq_Purge ?H now age s)))"
    unfolding H using g inv keyed_filter [OF inv]
    by (auto simp: mongo_PurgeExpiredEvents_def bson_purge_def split: if_splits prod.splits sum.splits
        elim!: db_exec_cases)
qed

section \<open>Marking\<close>

definition doc_slot :: "mongoDLQDoc \<Rightarrow> dlq_slot" where
  "doc_slot d = (mq_Status d, mq_RetryCount d, mq_MaxRetries d)"

abbreviation mongo_slot :: "mongoDLQHandler \<Rightarrow> string \<Rightarrow> dlq_slot option" where
  "mongo_slot h i \<equiv> map_option doc_slot (map_of (mq_docs h) i)"

lemma mongo_Mark_slot:
  assumes "healthy (mq_db h)" "int63n_ok int63n" "bc_maxRetryDelay (mq_config h) < max_int64"
    and "mongo_MarkRetried int63n now i ok err h = (r, h')"
  shows "r = Ret (fst (mark_slot ok (mongo_slot h i)))" and "mongo_slot h' i = snd (mark_slot ok (mongo_slot h i))"
proof -
  have up: "\<not> db_closed (mq_db h)" "db_faults (mq_db h) = []" using assms(1) by (simp_all add: healthy_def)
  note mark = assms(4) [symmetric, unfolded mongo_MarkRetried_def]
  have "r = Ret (fst (mark_slot ok (mongo_slot h i))) \<and> mongo_slot h' i = snd (mark_slot ok (mongo_slot h i))"
  proof (cases "doc_status (mq_docs h) i = Some DLQStatusRetrying")
    case False
    then show ?thesis
      using mark up
      by (auto simp: bson_increment_def mongo_GetEventByID_def mark_slot_def doc_slot_def split: option.splits)
  next
    case True
    then obtain d where d: "map_of (mq_docs h) i = Some d" "mq_Status d = DLQStatusRetrying" by auto
    obtain w where w: "FullJitterBackoff int63n (bc_retryDelay (mq_config h)) (bc_maxRetryDelay (mq_config h))
        (mq_RetryCount d + 1) = Ret w" by (rule backoff_returns [OF assms(2,3)])
    show ?thesis
      using mark up d w
      by (cases ok; cases "mq_MaxRetries d \<le> mq_RetryCount d + 1")
        (simp_all add: bson_increment_def Let_def mongo_setFields_def bson_finalize_def mark_slot_def doc_slot_def)
  qed
  then show "r = Ret (fst (mark_slot ok (mongo_slot h i)))" "mongo_slot h' i = snd (mark_slot ok (mongo_slot h i))"
    by blast+
qed

section \<open>Concrete instances\<close>

definition demo_mongo :: mongoDLQHandler where
  "demo_mongo = snd (mongo_PublishToDLQ Some 5000000 demo_event ''boom'' (mongo_dlq_new 3 0 0))"

definition demo_mongo_claimed :: mongoDLQHandler where
  "demo_mongo_claimed = snd (mongo_ClaimRetryableEvents 9000000 1 demo_mongo)"

lemmas mongo_eval = mongo_PublishToDLQ_def mongo_ClaimRetryableEvents_def bson_upsert_dlq_def bson_claim_one_def
  bson_due_def mongo_dlq_new_def new_backend_def demo_event_def millis_def time_add_def Let_def

lemma demo_mongo_at:
  "mq_docs demo_mongo = [(''e1'', \<lparr>mq_EventID = ''e1'', mq_Event = demo_event, mq_FailureReason = ''boom'', mq_RetryCount = 0,
     mq_MaxRetries = 3, mq_FirstFailureAt = 5000000, mq_LastAttemptAt = 5000000, mq_NextRetryAt = 5000000,
     mq_Status = DLQStatusPending, mq_AttemptHistory = [\<lparr>at_AttemptNumber = 0, at_AttemptedAt = 5000000,
     at_Success = False, at_ErrorMessage = ''boom''\<rparr>], mq_CreatedAt = 5000000, mq_UpdatedAt = 5000000\<rparr>)]"
  "healthy (mq_db demo_mongo)" "mq_config demo_mongo = \<lparr>bc_maxRetries = 3, bc_retryDelay = 0, bc_maxRetryDelay = 0\<rparr>"
  by (simp_all add: demo_mongo_def mongo_eval healthy_def)

lemma demo_mongo_keyed: "keyed mq_EventID (mq_docs demo_mongo)"
  by (simp add: demo_mongo_at keyed_def map_ok_def)

lemma demo_mongo_claimed_at:
  "mongo_slot demo_mongo_claimed ''e1'' = Some (DLQStatusRetrying, 0, 3)" "healthy (mq_db demo_mongo_claimed)"
  "mq_config demo_mongo_claimed = mq_config demo_mongo"
  using demo_mongo_at(2) by (simp_all add: demo_mongo_claimed_def mongo_eval demo_mongo_at healthy_def doc_slot_def)

section \<open>Properties\<close>

text \<open>
  C9. Single claimant on the databases: over any sequence of calls in which nothing releases the event \<open>i\<close>, and
  whichever statements of the calls fail, all claims together hand \<open>i\<close> out at most once, on Postgres as on Mongo.
\<close>

theorem dlq_backends_claim_once:
  assumes "keyed gq_EventID (pq_rows p)" and "keyed mq_EventID (mq_docs m)" and "list_all (\<lambda>c. \<not> releases i c) calls"
  shows "count_list (fst (dlq_run (pg_DLQHandler J int63n) calls p)) i \<le> 1 \<and>
         count_list (fst (dlq_run (mongo_DLQHandler bson int63n) calls m)) i \<le> 1"
  using pg_dlq.run_claims_once [OF assms(1,3)] mongo_dlq.run_claims_once [OF assms(2,3)] by (rule conjI)

theorem dlq_backends_claim_once_witness:
  "count_list (fst (dlq_run (pg_DLQHandler (demo_json (Some demo_event)) (\<lambda>n. 0)) [CClaim 9000000 5, CClaim 99000000 0] demo_pg)) ''e1'' \<le> 1 \<and>
   count_list (fst (dlq_run (mongo_DLQHandler Some (\<lambda>n. 0)) [CClaim 9000000 5, CClaim 99000000 0] demo_mongo)) ''e1'' \<le> 1"
  using dlq_backends_claim_once [OF demo_pg_keyed demo_mongo_keyed, of "''e1''" "[CClaim 9000000 5, CClaim 99000000 0]"] by simp



text \<open>
  C15. The three handlers implement one \<^verbatim>\<open>MarkRetried\<close>: from records with the same status, number of attempts and
  bound, memory, Postgres and Mongo give the same answer (not found, not claimed, or none) and leave the same status,
  number of attempts and bound, those of the specification \<^const>\<open>mark_slot\<close>.
\<close>

theorem dlq_backends_mark_alike:
  assumes "healthy (pq_db p)" and "healthy (mq_db m)" and "codec_total (dj_attempt J)" and "int63n_ok int63n"
    and "bc_maxRetryDelay (mdh_config h) < max_int64" and "bc_maxRetryDelay (pq_config p) < max_int64"
    and "bc_maxRetryDelay (mq_config m) < max_int64"
    and "map_option dlq_slot (dlq_at h i) = slot" and "pg_slot p i = slot" and "mongo_slot m i = slot"
    and "mem_MarkRetried int63n now i success attemptErr h = (r1, h')"
    and "pg_MarkRetried J int63n now i success attemptErr p = (r2, p')"
    and "mongo_MarkRetried int63n now i success attemptErr m = (r3, m')"
  shows "r1 = Ret (fst (mark_slot success slot)) \<and> r2 = r1 \<and> r3 = r1 \<and>
         map_option dlq_slot (dlq_at h' i) = snd (mark_slot success slot) \<and>
         pg_slot p' i = map_option dlq_slot (dlq_at h' i) \<and> mongo_slot m' i = map_option dlq_slot (dlq_at h' i)"
  using mem_Mark_slot [OF assms(4,5,11), unfolded assms(8)] pg_Mark_slot [OF assms(1,3,4,6,12), unfolded assms(9)]
    mongo_Mark_slot [OF assms(2,4,7,13), unfolded assms(10)] by (intro conjI; simp only:)

theorem dlq_backends_mark_alike_witness:
  "pg_slot (snd (pg_MarkRetried (demo_json None) (\<lambda>n. 0) 9000000 ''e1'' False None demo_pg_claimed)) ''e1'' =
     Some (DLQStatusPending, 1, 3)"
proof -
  let ?h = "snd (mem_ClaimRetryableEvents 200 0 demo_dlq)"
  let ?slot = "Some (DLQStatusRetrying, 0, 3) :: dlq_slot option"
  have "map_option dlq_slot (dlq_at ?h ''e1'') = ?slot" by (simp add: dlq_eval dlq_slot_def)
  moreover have "int63n_ok (\<lambda>n. 0)" by (simp add: int63n_ok_def)
  moreover have "bc_maxRetryDelay (mdh_config ?h) < max_int64"
    by (simp add: mem_Claim_spec(2) [OF demo_dlq_inv surjective_pairing] demo_dlq_at max_int64_def)
  ultimately show ?thesis
    using dlq_backends_mark_alike [OF demo_pg_claimed_at(2) demo_mongo_claimed_at(2) demo_json_total,
        where h = ?h and i = "''e1''" and slot = ?slot and now = 9000000 and success = False and attemptErr = None
          and int63n = "\<lambda>n. 0", OF _ _ _ _ _ _ _ surjective_pairing surjective_pairing surjective_pairing]
      demo_pg_claimed_at(1,3) demo_mongo_claimed_at(1,3) demo_pg_at(3) demo_mongo_at(3)
    by (simp add: mark_slot_def max_int64_def)
qed

end
