(* ===== verification/Grnoti_DLQ_Workers.thy ===== *)
theory Grnoti_DLQ_Workers
  imports Grnoti_DLQ_Mongo
begin

text \<open>
  Concurrent retry workers on the database queues.  \<^verbatim>\<open>MarkRetried\<close> of \<^verbatim>\<open>dlq.postgres.go\<close> and \<^verbatim>\<open>dlq.mongo.go\<close> is
  two statements, so the calls of other workers can fall between them.  The halves are defined here and shown to
  make up the operation; then workers that claim, count and finish in any interleaving are a step relation, and as long as
  each worker marks what it claimed, they implement a queue whose marks are atomic.
\<close>

section \<open>The two halves of a mark\<close>

definition pg_count ::
  "dlq_json \<Rightarrow> Time \<Rightarrow> string \<Rightarrow> postgresDLQHandler \<Rightarrow> (error + GrnotiDlq) \<times> postgresDLQHandler" where
  "pg_count J now eventID h =
     (if db_closed (pq_db h) then (Inl (Sentinel ErrClosed), h)
      else case db_exec (sql_IncrementRetryCount eventID (pgTimestamptz now)) (pq_db h) of
        (Inl err, db) \<Rightarrow> (Inl (backend_error (''grnoti/postgres: mark retried '' @ eventID) err), h\<lparr>pq_db := db\<rparr>)
      | (Inr None, db) \<Rightarrow>
          (case pg_GetEventByID J eventID (h\<lparr>pq_db := db\<rparr>) of (got, h1) \<Rightarrow>
             if got = Inl (Sentinel ErrDLQEventNotFound) then (Inl (Sentinel ErrDLQEventNotFound), h1)
             else (Inl (Sentinel ErrDLQEventNotClaimed), h1))
      | (Inr (Some row), db) \<Rightarrow> (Inr row, h\<lparr>pq_db := db\<rparr>))"

definition pg_finish ::
  "dlq_json \<Rightarrow> (int \<Rightarrow> int) \<Rightarrow> Time \<Rightarrow> string \<Rightarrow> bool \<Rightarrow> error option \<Rightarrow> GrnotiDlq \<Rightarrow> postgresDLQHandler \<Rightarrow>
     error option go \<times> postgresDLQHandler" where
  "pg_finish J int63n now eventID success attemptErr row h =
     (let errMsg = (case attemptErr of None \<Rightarrow> [] | Some err \<Rightarrow> error_text err) in
      case Marshal (dj_attempt J) \<lparr>at_AttemptNumber = gq_RetryCount row, at_AttemptedAt = now, at_Success = success,
                                   at_ErrorMessage = errMsg\<rparr> of
        None \<Rightarrow> (Ret (Some (json_error (''grnoti/postgres: encode attempt for '' @ eventID))), h)
      | Some attemptJSON \<Rightarrow>
          (case pg_finalize int63n now eventID success row attemptJSON (pq_config h) of
             Panic p \<Rightarrow> (Panic p, h)
           | Ret stmt \<Rightarrow>
               (case db_exec stmt (pq_db h) of
                  (Inl err, db) \<Rightarrow>
                    (Ret (Some (backend_error (''grnoti/postgres: mark retried '' @ eventID @ '' (finalize)'') err)), h\<lparr>pq_db := db\<rparr>)
                | (Inr u, db) \<Rightarrow> (Ret None, h\<lparr>pq_db := db\<rparr>))))"

lemma pg_MarkRetried_halves:
  "pg_MarkRetried J int63n now eventID success attemptErr h =
     (case pg_count J now eventID h of
        (Inl err, h1) \<Rightarrow> (Ret (Some err), h1)
      | (Inr row, h1) \<Rightarrow> pg_finish J int63n now eventID success attemptErr row h1)"
  by (auto simp: pg_MarkRetried_def pg_count_def pg_finish_def Let_def
      split: prod.split sum.split option.split go.split)

definition mongo_count :: "Time \<Rightarrow> string \<Rightarrow> mongoDLQHandler \<Rightarrow> (error + mongoDLQDoc) \<times> mongoDLQHandler" where
  "mongo_count now eventID h =
     (if db_closed (mq_db h) then (Inl (Sentinel ErrClosed), h)
      else case db_exec (bson_increment (millis now) eventID) (mq_db h) of
        (Inl err, db) \<Rightarrow> (Inl (backend_error (''grnoti/mongo: mark retried '' @ eventID) err), h\<lparr>mq_db := db\<rparr>)
      | (Inr None, db) \<Rightarrow>
          (case mongo_GetEventByID eventID (h\<lparr>mq_db := db\<rparr>) of (got, h1) \<Rightarrow>
             if got = Inl (Sentinel ErrDLQEventNotFound) then (Inl (Sentinel ErrDLQEventNotFound), h1)
             else (Inl (Sentinel ErrDLQEventNotClaimed), h1))
      | (Inr (Some doc), db) \<Rightarrow> (Inr doc, h\<lparr>mq_db := db\<rparr>))"

definition mongo_finish ::
  "(int \<Rightarrow> int) \<Rightarrow> Time \<Rightarrow> string \<Rightarrow> bool \<Rightarrow> error option \<Rightarrow> mongoDLQDoc \<Rightarrow> mongoDLQHandler \<Rightarrow>
     error option go \<times> mongoDLQHandler" where
  "mongo_finish int63n now eventID success attemptErr doc h =
     (let errMsg = (case attemptErr of None \<Rightarrow> [] | Some err \<Rightarrow> error_text err);
          attempt = \<lparr>at_AttemptNumber = mq_RetryCount doc, at_AttemptedAt = millis now, at_Success = success,
                     at_ErrorMessage = errMsg\<rparr>
      in case mongo_setFields int63n now success doc (mq_config h) of
           Panic p \<Rightarrow> (Panic p, h)
         | Ret fs \<Rightarrow>
             (case db_exec (bson_finalize eventID fs attempt) (mq_db h) of
                (Inl err, db) \<Rightarrow>
                  (Ret (Some (backend_error (''grnoti/mongo: mark retried '' @ eventID @ '' (finalize)'') err)), h\<lparr>mq_db := db\<rparr>)
              | (Inr u, db) \<Rightarrow> (Ret None, h\<lparr>mq_db := db\<rparr>)))"

lemma mongo_MarkRetried_halves:
  "mongo_MarkRetried int63n now eventID success attemptErr h =
     (case mongo_count now eventID h of
        (Inl err, h1) \<Rightarrow> (Ret (Some err), h1)
      | (Inr doc, h1) \<Rightarrow> mongo_finish int63n now eventID success attemptErr doc h1)"
  by (auto simp: mongo_MarkRetried_def mongo_count_def mongo_finish_def Let_def
      split: prod.split sum.split option.split go.split)

section \<open>Workers\<close>

text \<open>
  A queue with its statements: \<open>sh_single\<close> says for which limits a claim is one statement.  It always is on Postgres;
  on Mongo a claim of more than one document is a sequence of claims of one.
\<close>

record ('s, 'r) split_handler =
  sh_slot :: "'s \<Rightarrow> string \<Rightarrow> dlq_slot option"
  sh_single :: "int \<Rightarrow> bool"
  sh_Publish :: "Time \<Rightarrow> Event \<Rightarrow> string \<Rightarrow> 's \<Rightarrow> 's"
  sh_Claim :: "Time \<Rightarrow> int \<Rightarrow> 's \<Rightarrow> DLQEvent list \<times> 's"
  sh_Count :: "Time \<Rightarrow> string \<Rightarrow> 's \<Rightarrow> (error + 'r) \<times> 's"
  sh_Finish :: "Time \<Rightarrow> string \<Rightarrow> bool \<Rightarrow> error option \<Rightarrow> 'r \<Rightarrow> 's \<Rightarrow> error option go \<times> 's"
  sh_Purge :: "Time \<Rightarrow> Duration \<Rightarrow> 's \<Rightarrow> int \<times> 's"

definition pg_split :: "dlq_json \<Rightarrow> (int \<Rightarrow> int) \<Rightarrow> (postgresDLQHandler, GrnotiDlq) split_handler" where
  "pg_split J int63n =
     \<lparr>sh_slot = pg_slot, sh_single = (\<lambda>limit. True),
      sh_Publish = dlq_Publish (pg_DLQHandler J int63n), sh_Claim = dlq_Claim (pg_DLQHandler J int63n),
      sh_Count = pg_count J, sh_Finish = pg_finish J int63n, sh_Purge = dlq_Purge (pg_DLQHandler J int63n)\<rparr>"

definition mongo_split :: "(Event \<Rightarrow> Event option) \<Rightarrow> (int \<Rightarrow> int) \<Rightarrow> (mongoDLQHandler, mongoDLQDoc) split_handler" where
  "mongo_split bson int63n =
     \<lparr>sh_slot = mongo_slot, sh_single = (\<lambda>limit. limit = 1),
      sh_Publish = dlq_Publish (mongo_DLQHandler bson int63n), sh_Claim = dlq_Claim (mongo_DLQHandler bson int63n),
      sh_Count = mongo_count, sh_Finish = mongo_finish int63n, sh_Purge = dlq_Purge (mongo_DLQHandler bson int63n)\<rparr>"

text \<open>
  A worker that holds a claim has a ticket: the event, and once the first half of the mark is done also the time of the call and
  the record that the statement returned.
\<close>

record ('s, 'r) dlq_workers =
  wk_store :: 's
  wk_tickets :: "(string \<times> (Time \<times> 'r) option) list"

text \<open>
  The steps: a publish, a claim, the first half of a mark (which may be refused), the second half, a worker that gives up its
  ticket (it died, or the call failed), and a purge, which does not touch events that a worker holds.
\<close>

inductive worker_step :: "('s, 'r) split_handler \<Rightarrow> ('s, 'r) dlq_workers \<Rightarrow> ('s, 'r) dlq_workers \<Rightarrow> bool" for S where
  publish: "worker_step S w (w\<lparr>wk_store := sh_Publish S now ev why (wk_store w)\<rparr>)"
| claim: "sh_single S limit \<Longrightarrow> sh_Claim S now limit (wk_store w) = (es, s') \<Longrightarrow>
    worker_step S w \<lparr>wk_store = s', wk_tickets = map (\<lambda>e. (dq_EventID e, None)) es @ wk_tickets w\<rparr>"
| counted: "wk_tickets w = xs @ (i, None) # ys \<Longrightarrow> sh_Count S now i (wk_store w) = (Inr row, s') \<Longrightarrow>
    worker_step S w \<lparr>wk_store = s', wk_tickets = xs @ (i, Some (now, row)) # ys\<rparr>"
| refused: "wk_tickets w = xs @ (i, None) # ys \<Longrightarrow> sh_Count S now i (wk_store w) = (Inl err, s') \<Longrightarrow>
    worker_step S w \<lparr>wk_store = s', wk_tickets = xs @ ys\<rparr>"
| finished: "wk_tickets w = xs @ (i, Some (now, row)) # ys \<Longrightarrow> sh_Finish S now i ok err row (wk_store w) = (res, s') \<Longrightarrow>
    worker_step S w \<lparr>wk_store = s', wk_tickets = xs @ ys\<rparr>"
| gone: "wk_tickets w = xs @ t # ys \<Longrightarrow> worker_step S w (w\<lparr>wk_tickets := xs @ ys\<rparr>)"
| purge: "sh_Purge S now age (wk_store w) = (k, s') \<Longrightarrow>
    \<forall>i \<in> fst ` set (wk_tickets w). sh_slot S s' i = sh_slot S (wk_store w) i \<Longrightarrow>
    worker_step S w (w\<lparr>wk_store := s'\<rparr>)"

inductive worker_reach :: "('s, 'r) split_handler \<Rightarrow> 's \<Rightarrow> ('s, 'r) dlq_workers \<Rightarrow> bool" for S s0 where
  start: "worker_reach S s0 \<lparr>wk_store = s0, wk_tickets = []\<rparr>"
| step: "worker_reach S s0 w \<Longrightarrow> worker_step S w w' \<Longrightarrow> worker_reach S s0 w'"

section \<open>The queue with atomic marks\<close>

inductive slot_step :: "(string \<Rightarrow> dlq_slot option) \<Rightarrow> (string \<Rightarrow> dlq_slot option) \<Rightarrow> bool" where
  idle: "slot_step m m"
| publish: "m i = None \<Longrightarrow> 0 < b \<Longrightarrow> slot_step m (m(i \<mapsto> (DLQStatusPending, 0, b)))"
| claim: "\<forall>i \<in> C. \<exists>n b. m i = Some (DLQStatusPending, n, b) \<Longrightarrow>
    slot_step m (\<lambda>i. if i \<in> C then map_option (\<lambda>(st, n, b). (DLQStatusRetrying, n, b)) (m i) else m i)"
| mark: "m i = Some (DLQStatusRetrying, n, b) \<Longrightarrow> slot_step m (m(i := snd (mark_slot ok (m i))))"
| lost: "m i = Some (DLQStatusRetrying, n, b) \<Longrightarrow> slot_step m (m(i \<mapsto> (DLQStatusRetrying, n + 1, b)))"
| purge: "slot_step m (\<lambda>i. if i \<in> P then None else m i)"

text \<open>The atomic view of the workers: an attempt that is counted but not finished has not happened yet.\<close>

fun before_mark :: "(Time \<times> 'r) option option \<Rightarrow> dlq_slot option \<Rightarrow> dlq_slot option" where
  "before_mark (Some (Some p)) slot = map_option (\<lambda>(st, n, b). (st, n - 1, b)) slot"
| "before_mark (Some None) slot = slot"
| "before_mark None slot = slot"

definition slots_of :: "('s, 'r) split_handler \<Rightarrow> ('s, 'r) dlq_workers \<Rightarrow> string \<Rightarrow> dlq_slot option" where
  "slots_of S w i = before_mark (map_of (wk_tickets w) i) (sh_slot S (wk_store w) i)"

section \<open>The invariant\<close>

fun slot_ok :: "dlq_slot option \<Rightarrow> bool" where
  "slot_ok None = True"
| "slot_ok (Some (st, n, b)) = (0 \<le> n \<and> n \<le> b \<and> (st = DLQStatusPending \<longrightarrow> n < b) \<and> (st = DLQStatusExhausted \<longrightarrow> n = b))"

fun ticket_ok :: "('r \<Rightarrow> int \<times> int) \<Rightarrow> dlq_slot option \<Rightarrow> (Time \<times> 'r) option \<Rightarrow> bool" where
  "ticket_ok counts (Some (DLQStatusRetrying, n, b)) None = (n < b)"
| "ticket_ok counts (Some (DLQStatusRetrying, n, b)) (Some (t, row)) = (counts row = (n, b))"
| "ticket_ok counts _ _ = False"

definition workers_ok :: "('s, 'r) split_handler \<Rightarrow> ('r \<Rightarrow> int \<times> int) \<Rightarrow> ('s, 'r) dlq_workers \<Rightarrow> bool" where
  "workers_ok S counts w \<longleftrightarrow> distinct (map fst (wk_tickets w)) \<and>
     (\<forall>(i, p) \<in> set (wk_tickets w). ticket_ok counts (sh_slot S (wk_store w) i) p) \<and>
     (\<forall>i. slot_ok (sh_slot S (wk_store w) i))"

lemma ticket_okE:
  assumes "ticket_ok counts slot p"
  obtains n b where "slot = Some (DLQStatusRetrying, n, b)"
    "p = None \<and> n < b \<or> (\<exists>t row. p = Some (t, row) \<and> counts row = (n, b))"
  using assms by (cases "(counts, slot, p)" rule: ticket_ok.cases) auto

lemma ticket_in: "(i, p) \<in> set ts \<Longrightarrow> distinct (map fst ts) \<Longrightarrow> map_of ts i = Some p"
  by simp

lemma map_of_split:
  assumes "distinct (map fst (xs @ (i, p) # ys))"
  shows "map_of (xs @ (i, q) # ys) j = (if j = i then Some q else map_of (xs @ ys) j)" "map_of (xs @ ys) i = None"
proof -
  show "map_of (xs @ (i, q) # ys) j = (if j = i then Some q else map_of (xs @ ys) j)"
    using assms by (induction xs) auto
  show "map_of (xs @ ys) i = None" unfolding map_of_eq_None_iff using assms by auto
qed

text \<open>
  What the workers rely on in a queue: the effect of each statement on the status, the attempts and the bound of each event.
  The first half of a mark acts on a claimed event only and returns what it stored; the second decides from what it is given.
\<close>

locale split_mark =
  fixes S :: "('s, 'r) split_handler" and inv :: "'s \<Rightarrow> bool" and counts :: "'r \<Rightarrow> int \<times> int"
  assumes publish_inv: "inv s \<Longrightarrow> inv (sh_Publish S now ev why s)"
    and publish_slot: "inv s \<Longrightarrow> sh_slot S (sh_Publish S now ev why s) = sh_slot S s \<or>
      (\<exists>i b. sh_slot S s i = None \<and> 0 < b \<and>
         sh_slot S (sh_Publish S now ev why s) = (sh_slot S s)(i \<mapsto> (DLQStatusPending, 0, b)))"
    and claim_inv: "inv s \<Longrightarrow> sh_Claim S now limit s = (es, s') \<Longrightarrow> inv s'"
    and claim_slot: "inv s \<Longrightarrow> sh_single S limit \<Longrightarrow> sh_Claim S now limit s = (es, s') \<Longrightarrow>
      sh_slot S s' i = sh_slot S s i \<or>
      (\<exists>n b. sh_slot S s i = Some (DLQStatusPending, n, b) \<and> sh_slot S s' i = Some (DLQStatusRetrying, n, b))"
    and claim_handed: "inv s \<Longrightarrow> sh_single S limit \<Longrightarrow> sh_Claim S now limit s = (es, s') \<Longrightarrow>
      distinct (map dq_EventID es) \<and> (\<forall>e \<in> set es. \<exists>n b. sh_slot S s (dq_EventID e) = Some (DLQStatusPending, n, b) \<and>
         sh_slot S s' (dq_EventID e) = Some (DLQStatusRetrying, n, b))"
    and count_inv: "inv s \<Longrightarrow> sh_Count S now i s = (r, s') \<Longrightarrow> inv s'"
    and count_refused: "inv s \<Longrightarrow> sh_Count S now i s = (Inl refusal, s') \<Longrightarrow> sh_slot S s' = sh_slot S s"
    and count_counted: "inv s \<Longrightarrow> sh_Count S now i s = (Inr row, s') \<Longrightarrow>
      \<exists>n b. sh_slot S s i = Some (DLQStatusRetrying, n, b) \<and> counts row = (n + 1, b) \<and>
        sh_slot S s' = (sh_slot S s)(i \<mapsto> (DLQStatusRetrying, n + 1, b))"
    and finish_inv: "inv s \<Longrightarrow> sh_Finish S now i ok err row s = (res, s') \<Longrightarrow> inv s'"
    and finish_slot: "inv s \<Longrightarrow> sh_Finish S now i ok err row s = (res, s') \<Longrightarrow> sh_slot S s i = Some (st, n, b) \<Longrightarrow>
      sh_slot S s' = (if res = Ret None
        then (sh_slot S s)(i \<mapsto> (if ok then DLQStatusResolved
               else if snd (counts row) \<le> fst (counts row) then DLQStatusExhausted else DLQStatusPending, n, b))
        else sh_slot S s)"
    and purge_inv: "inv s \<Longrightarrow> sh_Purge S now age s = (k, s') \<Longrightarrow> inv s'"
    and purge_slot: "inv s \<Longrightarrow> sh_Purge S now age s = (k, s') \<Longrightarrow> sh_slot S s' i = sh_slot S s i \<or> sh_slot S s' i = None"
begin

abbreviation wok :: "('s, 'r) dlq_workers \<Rightarrow> bool" where
  "wok w \<equiv> inv (wk_store w) \<and> workers_ok S counts w"

lemma held:
  assumes "wok w" "(i, p) \<in> set (wk_tickets w)"
  shows "ticket_ok counts (sh_slot S (wk_store w) i) p"
  using assms by (auto simp: workers_ok_def)

lemma step_publish:
  fixes now ev why
  assumes "wok w"
  defines "w' \<equiv> w\<lparr>wk_store := sh_Publish S now ev why (wk_store w)\<rparr>"
  shows "wok w' \<and> slot_step (slots_of S w) (slots_of S w')"
proof -
  have inv: "inv (wk_store w)" using assms(1) by blast
  from publish_slot [OF inv, of now ev why] show ?thesis
  proof
    assume same: "sh_slot S (sh_Publish S now ev why (wk_store w)) = sh_slot S (wk_store w)"
    then have "slots_of S w' = slots_of S w" by (simp add: w'_def slots_of_def fun_eq_iff)
    with same assms(1) publish_inv [OF inv] show ?thesis by (simp add: w'_def workers_ok_def slot_step.idle)
  next
    assume "\<exists>i b. sh_slot S (wk_store w) i = None \<and> 0 < b \<and> sh_slot S (sh_Publish S now ev why (wk_store w)) =
      (sh_slot S (wk_store w))(i \<mapsto> (DLQStatusPending, 0, b))"
    then obtain i b where i: "sh_slot S (wk_store w) i = None" "0 < b" "sh_slot S (sh_Publish S now ev why (wk_store w)) =
      (sh_slot S (wk_store w))(i \<mapsto> (DLQStatusPending, 0, b))" by blast
    have free: "i \<notin> fst ` set (wk_tickets w)"
      using held [OF assms(1)] i(1) by (force elim: ticket_okE)
    then have none: "map_of (wk_tickets w) i = None" by (simp add: map_of_eq_None_iff)
    have "slots_of S w' = (slots_of S w)(i \<mapsto> (DLQStatusPending, 0, b))" "slots_of S w i = None"
      using i none by (auto simp: w'_def slots_of_def fun_eq_iff)
    moreover have "workers_ok S counts w'"
      using assms(1) i free by (force simp: w'_def workers_ok_def)
    ultimately show ?thesis using publish_inv [OF inv] slot_step.publish i(2) by (simp add: w'_def)
  qed
qed

lemma step_claim:
  assumes "wok w" "sh_single S limit" "sh_Claim S now limit (wk_store w) = (es, s')"
  defines "w' \<equiv> \<lparr>wk_store = s', wk_tickets = map (\<lambda>e. (dq_EventID e, None)) es @ wk_tickets w\<rparr>"
  shows "wok w' \<and> slot_step (slots_of S w) (slots_of S w')"
proof -
  have inv: "inv (wk_store w)" using assms(1) by blast
  note slot = claim_slot [OF inv assms(2,3)] and handed = claim_handed [OF inv assms(2,3)]
  note turned = handed [THEN conjunct2, rule_format]
  have keep: "sh_slot S s' i = sh_slot S (wk_store w) i" and old: "sh_slot S (wk_store w) i \<noteq> Some (DLQStatusPending, n, b)"
    if "(i, p) \<in> set (wk_tickets w)" for i p n b
    using held [OF assms(1) that] slot [of i] by (auto elim!: ticket_okE)
  have fresh: "dq_EventID e \<notin> fst ` set (wk_tickets w)" if "e \<in> set es" for e
    using turned [OF that] old by fastforce
  have tickets: "map_of (wk_tickets w') i = (if i \<in> dq_EventID ` set es then Some None else map_of (wk_tickets w) i)" for i
  proof -
    have "map_of (map (\<lambda>e. (dq_EventID e, None :: (Time \<times> 'r) option)) es) i = (if i \<in> dq_EventID ` set es then Some None else None)"
      by (induction es) auto
    then show ?thesis by (simp add: w'_def map_add_def)
  qed
  have store: "wk_store w' = s'" by (simp add: w'_def)
  let ?C = "{i. sh_slot S s' i \<noteq> sh_slot S (wk_store w) i}"
  have pend: "\<exists>n b. sh_slot S (wk_store w) i = Some (DLQStatusPending, n, b) \<and> sh_slot S s' i = Some (DLQStatusRetrying, n, b) \<and>
      map_of (wk_tickets w) i = None" if "i \<in> ?C" for i
    using slot [of i] that keep [of i] by (fastforce simp: map_of_eq_None_iff)
  have "slots_of S w' = (\<lambda>i. if i \<in> ?C then map_option (\<lambda>(st, n, b). (DLQStatusRetrying, n, b)) (slots_of S w i) else slots_of S w i)"
  proof
    fix i
    show "slots_of S w' i = (if i \<in> ?C then map_option (\<lambda>(st, n, b). (DLQStatusRetrying, n, b)) (slots_of S w i) else slots_of S w i)"
    proof (cases "i \<in> ?C")
      case True
      with pend [OF True] show ?thesis by (auto simp: slots_of_def tickets store)
    next
      case False
      then have same: "sh_slot S s' i = sh_slot S (wk_store w) i" by simp
      have "i \<notin> dq_EventID ` set es" using handed same by fastforce
      with same show ?thesis by (simp add: slots_of_def tickets store)
    qed
  qed
  moreover have "\<forall>i \<in> ?C. \<exists>n b. slots_of S w i = Some (DLQStatusPending, n, b)"
    using pend by (fastforce simp: slots_of_def)
  ultimately have step: "slot_step (slots_of S w) (slots_of S w')" using slot_step.claim [of ?C "slots_of S w"] by simp
  have "workers_ok S counts w'" unfolding workers_ok_def
  proof (intro conjI)
    have "distinct (map fst (wk_tickets w))" using assms(1) by (simp add: workers_ok_def)
    then show "distinct (map fst (wk_tickets w'))" using handed fresh by (auto simp: w'_def comp_def)
    show "\<forall>i. slot_ok (sh_slot S (wk_store w') i)"
    proof
      fix i
      have "slot_ok (sh_slot S (wk_store w) i)" using assms(1) by (simp add: workers_ok_def)
      with slot [of i] show "slot_ok (sh_slot S (wk_store w') i)" by (auto simp: w'_def)
    qed
    have "ticket_ok counts (sh_slot S s' (dq_EventID e)) None" if e_in: "e \<in> set es" for e
    proof -
      obtain n b where e: "sh_slot S (wk_store w) (dq_EventID e) = Some (DLQStatusPending, n, b)"
        "sh_slot S s' (dq_EventID e) = Some (DLQStatusRetrying, n, b)" using turned [OF e_in] by blast
      have "slot_ok (sh_slot S (wk_store w) (dq_EventID e))" using assms(1) by (simp add: workers_ok_def)
      with e show ?thesis by simp
    qed
    then show "\<forall>(i, p) \<in> set (wk_tickets w'). ticket_ok counts (sh_slot S (wk_store w') i) p"
      using held [OF assms(1)] keep by (auto simp: w'_def)
  qed
  with step claim_inv [OF inv assms(3)] show ?thesis by (simp add: w'_def)
qed

text \<open>A ticket is given back; only the record of its event may have changed.\<close>

lemma drop_ticket:
  assumes "wok w" "wk_tickets w = xs @ (i, p) # ys" "inv s'"
    and other: "\<forall>j. j \<noteq> i \<longrightarrow> sh_slot S s' j = sh_slot S (wk_store w) j" and "slot_ok (sh_slot S s' i)"
  defines "w' \<equiv> \<lparr>wk_store = s', wk_tickets = xs @ ys\<rparr>"
  shows "wok w'" and "slots_of S w' = (slots_of S w)(i := sh_slot S s' i)"
    and "slots_of S w i = before_mark (Some p) (sh_slot S (wk_store w) i)"
proof -
  have d: "distinct (map fst (xs @ (i, p) # ys))" using assms(1,2) by (simp add: workers_ok_def)
  note at = map_of_split [OF d]
  have new: "wk_store w' = s'" "wk_tickets w' = xs @ ys" by (simp_all add: w'_def)
  show "slots_of S w' = (slots_of S w)(i := sh_slot S s' i)"
  proof
    show "slots_of S w' j = ((slots_of S w)(i := sh_slot S s' i)) j" for j
      using other by (cases "j = i") (simp_all add: slots_of_def new assms(2) at del: map_of_append)
  qed
  show "slots_of S w i = before_mark (Some p) (sh_slot S (wk_store w) i)"
    by (simp add: slots_of_def assms(2) at(1) del: map_of_append)
  have "ticket_ok counts (sh_slot S s' j) q" if "(j, q) \<in> set (xs @ ys)" for j q
  proof -
    have "j \<in> fst ` set xs \<union> fst ` set ys" using that by (auto intro: rev_image_eqI)
    then have "j \<noteq> i" using d by auto
    moreover have "(j, q) \<in> set (wk_tickets w)" using that assms(2) by auto
    ultimately show ?thesis using held [OF assms(1)] other by simp
  qed
  moreover have "slot_ok (sh_slot S s' j)" for j
    using assms(1,5) other by (cases "j = i") (simp_all add: workers_ok_def)
  ultimately show "wok w'" using d assms(3) by (auto simp: workers_ok_def new)
qed

lemma step_refused:
  assumes "wok w" "wk_tickets w = xs @ (i, None) # ys" "sh_Count S now i (wk_store w) = (Inl e, s')"
  defines "w' \<equiv> \<lparr>wk_store = s', wk_tickets = xs @ ys\<rparr>"
  shows "wok w' \<and> slot_step (slots_of S w) (slots_of S w')"
proof -
  have inv: "inv (wk_store w)" using assms(1) by blast
  have same: "sh_slot S s' = sh_slot S (wk_store w)" by (rule count_refused [OF inv assms(3)])
  have ok: "slot_ok (sh_slot S s' i)" using assms(1) by (simp add: same workers_ok_def)
  note drop = drop_ticket [OF assms(1,2) count_inv [OF inv assms(3)], unfolded same, folded w'_def, simplified, OF ok [unfolded same]]
  have "slots_of S w' = slots_of S w" using drop(2,3) by (simp add: fun_eq_iff)
  with drop(1) show ?thesis by (simp add: slot_step.idle)
qed

lemma step_counted:
  assumes "wok w" "wk_tickets w = xs @ (i, None) # ys" "sh_Count S now i (wk_store w) = (Inr row, s')"
  defines "w' \<equiv> \<lparr>wk_store = s', wk_tickets = xs @ (i, Some (now, row)) # ys\<rparr>"
  shows "wok w' \<and> slot_step (slots_of S w) (slots_of S w')"
proof -
  have inv: "inv (wk_store w)" using assms(1) by blast
  obtain n b where nb: "sh_slot S (wk_store w) i = Some (DLQStatusRetrying, n, b)" "counts row = (n + 1, b)"
    "sh_slot S s' = (sh_slot S (wk_store w))(i \<mapsto> (DLQStatusRetrying, n + 1, b))"
    using count_counted [OF inv assms(3)] by blast
  have d: "distinct (map fst (xs @ (i, None :: (Time \<times> 'r) option) # ys))" using assms(1,2) by (simp add: workers_ok_def)
  note at = map_of_split [OF d]
  have new: "wk_store w' = s'" "wk_tickets w' = xs @ (i, Some (now, row)) # ys" by (simp_all add: w'_def)
  have "ticket_ok counts (sh_slot S (wk_store w) i) None" by (rule held [OF assms(1)]) (simp add: assms(2))
  then have lt: "n < b" by (simp add: nb)
  have "slots_of S w' = slots_of S w"
    unfolding slots_of_def [abs_def] new assms(2) at(1) by (auto simp: nb fun_eq_iff)
  moreover have "ticket_ok counts (sh_slot S s' j) q" if "(j, q) \<in> set (xs @ (i, Some (now, row)) # ys)" for j q
  proof (cases "j = i")
    case True
    then have "q = Some (now, row)" using that d by (auto simp: rev_image_eqI)
    with True nb show ?thesis by simp
  next
    case False
    then have "(j, q) \<in> set (wk_tickets w)" using that assms(2) by auto
    with False held [OF assms(1)] show ?thesis by (simp add: nb)
  qed
  moreover have "slot_ok (sh_slot S s' j)" for j
  proof -
    have "slot_ok (sh_slot S (wk_store w) j)" using assms(1) by (simp add: workers_ok_def)
    with lt nb show ?thesis by auto
  qed
  ultimately show ?thesis
    using d count_inv [OF inv assms(3)] by (auto simp: workers_ok_def new slot_step.idle)
qed

lemma step_finished:
  assumes "wok w" "wk_tickets w = xs @ (i, Some (now, row)) # ys"
    and "sh_Finish S now i ok err row (wk_store w) = (res, s')"
  defines "w' \<equiv> \<lparr>wk_store = s', wk_tickets = xs @ ys\<rparr>"
  shows "wok w' \<and> slot_step (slots_of S w) (slots_of S w')"
proof -
  have inv: "inv (wk_store w)" using assms(1) by blast
  have "ticket_ok counts (sh_slot S (wk_store w) i) (Some (now, row))" by (rule held [OF assms(1)]) (simp add: assms(2))
  then obtain n b where nb: "sh_slot S (wk_store w) i = Some (DLQStatusRetrying, n, b)" "counts row = (n, b)"
    by (auto elim: ticket_okE)
  have "slot_ok (sh_slot S (wk_store w) i)" using assms(1) by (simp add: workers_ok_def)
  then have le: "0 \<le> n" "n \<le> b" by (simp_all add: nb)
  note fin = finish_slot [OF inv assms(3) nb(1)]
  have other: "\<forall>j. j \<noteq> i \<longrightarrow> sh_slot S s' j = sh_slot S (wk_store w) j" by (simp add: fin)
  have ok: "slot_ok (sh_slot S s' i)" using le by (simp add: fin nb)
  note drop = drop_ticket [OF assms(1,2) finish_inv [OF inv assms(3)] other ok, folded w'_def]
  have before: "slots_of S w i = Some (DLQStatusRetrying, n - 1, b)" using drop(3) by (simp add: nb)
  have "slot_step (slots_of S w) (slots_of S w')"
  proof (cases "res = Ret None")
    case True
    then have "slots_of S w' = (slots_of S w)(i := snd (mark_slot ok (slots_of S w i)))"
      unfolding drop(2) before by (simp add: fin nb mark_slot_def)
    with slot_step.mark [of "slots_of S w" i, OF before] show ?thesis by simp
  next
    case False
    then have "slots_of S w' = (slots_of S w)(i \<mapsto> (DLQStatusRetrying, n - 1 + 1, b))"
      unfolding drop(2) by (simp add: fin nb)
    with slot_step.lost [of "slots_of S w" i, OF before] show ?thesis by simp
  qed
  with drop(1) show ?thesis by simp
qed

lemma step_gone:
  assumes "wok w" "wk_tickets w = xs @ t # ys"
  defines "w' \<equiv> w\<lparr>wk_tickets := xs @ ys\<rparr>"
  shows "wok w' \<and> slot_step (slots_of S w) (slots_of S w')"
proof -
  obtain i p where t: "t = (i, p)" by (rule prod.exhaust)
  have inv: "inv (wk_store w)" and ok: "slot_ok (sh_slot S (wk_store w) i)" using assms(1) by (simp_all add: workers_ok_def)
  have w': "w' = \<lparr>wk_store = wk_store w, wk_tickets = xs @ ys\<rparr>" by (simp add: w'_def)
  note drop = drop_ticket [OF assms(1) assms(2) [unfolded t] inv _ ok, folded w', simplified]
  have "ticket_ok counts (sh_slot S (wk_store w) i) p" by (rule held [OF assms(1)]) (simp add: assms(2) t)
  then obtain n b where nb: "sh_slot S (wk_store w) i = Some (DLQStatusRetrying, n, b)" by (rule ticket_okE)
  have "slot_step (slots_of S w) (slots_of S w')"
  proof (cases p)
    case None
    then have "slots_of S w' = slots_of S w" using drop(2,3) by (simp add: fun_eq_iff)
    then show ?thesis by (simp add: slot_step.idle)
  next
    case (Some q)
    then have before: "slots_of S w i = Some (DLQStatusRetrying, n - 1, b)" using drop(3) by (simp add: nb)
    have "slots_of S w' = (slots_of S w)(i \<mapsto> (DLQStatusRetrying, n - 1 + 1, b))" unfolding drop(2) by (simp add: nb)
    with slot_step.lost [of "slots_of S w" i, OF before] show ?thesis by simp
  qed
  with drop(1) show ?thesis by simp
qed

lemma step_purge:
  assumes "wok w" "sh_Purge S now age (wk_store w) = (k, s')"
    and "\<forall>i \<in> fst ` set (wk_tickets w). sh_slot S s' i = sh_slot S (wk_store w) i"
  defines "w' \<equiv> w\<lparr>wk_store := s'\<rparr>"
  shows "wok w' \<and> slot_step (slots_of S w) (slots_of S w')"
proof -
  have inv: "inv (wk_store w)" using assms(1) by blast
  note slot = purge_slot [OF inv assms(2)]
  have new: "wk_store w' = s'" "wk_tickets w' = wk_tickets w" by (simp_all add: w'_def)
  let ?P = "{i. sh_slot S s' i \<noteq> sh_slot S (wk_store w) i}"
  have free: "map_of (wk_tickets w) i = None" if "i \<in> ?P" for i
    using that assms(3) by (auto simp: map_of_eq_None_iff)
  have "slots_of S w' = (\<lambda>i. if i \<in> ?P then None else slots_of S w i)"
  proof
    fix i
    show "slots_of S w' i = (if i \<in> ?P then None else slots_of S w i)"
      using slot [of i] free [of i] by (cases "i \<in> ?P") (auto simp: slots_of_def new)
  qed
  then have "slot_step (slots_of S w) (slots_of S w')" using slot_step.purge [of "slots_of S w" ?P] by simp
  moreover have "slot_ok (sh_slot S s' i)" for i
  proof -
    have "slot_ok (sh_slot S (wk_store w) i)" using assms(1) by (simp add: workers_ok_def)
    with slot [of i] show ?thesis by auto
  qed
  moreover have "ticket_ok counts (sh_slot S s' i) p" if "(i, p) \<in> set (wk_tickets w)" for i p
    using held [OF assms(1) that] assms(3) that by force
  ultimately show ?thesis using assms(1) purge_inv [OF inv assms(2)] by (auto simp: workers_ok_def new)
qed

lemma worker_step_refines:
  assumes "worker_step S w w'" "wok w"
  shows "wok w' \<and> slot_step (slots_of S w) (slots_of S w')"
  using assms(1)
proof cases
  case publish
  then show ?thesis using step_publish [OF assms(2)] by simp
next
  case claim
  then show ?thesis using step_claim [OF assms(2)] by simp
next
  case counted
  then show ?thesis using step_counted [OF assms(2)] by simp
next
  case refused
  then show ?thesis using step_refused [OF assms(2)] by simp
next
  case finished
  then show ?thesis using step_finished [OF assms(2)] by simp
next
  case gone
  then show ?thesis using step_gone [OF assms(2)] by simp
next
  case purge
  then show ?thesis using step_purge [OF assms(2)] by simp
qed

lemma worker_reach_ok:
  assumes "worker_reach S s0 w" "inv s0" "\<And>i. sh_slot S s0 i = None"
  shows "wok w"
  using assms(1)
proof induction
  case start
  then show ?case using assms(2,3) by (simp add: workers_ok_def)
next
  case (step w w')
  then show ?case using worker_step_refines by blast
qed

end

section \<open>Postgres\<close>

definition row_counts :: "GrnotiDlq \<Rightarrow> int \<times> int" where
  "row_counts row = (gq_RetryCount row, gq_MaxRetries row)"

abbreviation pg_queue_ok :: "postgresDLQHandler \<Rightarrow> bool" where
  "pg_queue_ok h \<equiv> keyed gq_EventID (pq_rows h) \<and> 0 < bc_maxRetries (pq_config h)"

lemma pg_Publish_slot:
  assumes "pg_queue_ok h" "pg_PublishToDLQ J now ev why h = (r, h')"
  shows "pg_queue_ok h'" and "pg_slot h' = pg_slot h \<or> (\<exists>i b. pg_slot h i = None \<and> 0 < b \<and>
           pg_slot h' = (pg_slot h)(i \<mapsto> (DLQStatusPending, 0, b)))"
proof -
  have pos: "0 < pgInt32 (bc_maxRetries (pq_config h))"
    using assms(1) by (simp add: pgInt32_def max_int32_def min_int32_def)
  from assms(2) consider "pq_config h' = pq_config h" "pq_rows h' = pq_rows h"
    | new where "pq_config h' = pq_config h" "gq_Status new = DLQStatusPending" "gq_RetryCount new = 0"
        "gq_MaxRetries new = pgInt32 (bc_maxRetries (pq_config h))" "pq_rows h' = snd (sql_UpsertDLQEvent new (pq_rows h))"
    by (auto simp: pg_PublishToDLQ_def split: if_splits option.splits prod.splits sum.splits elim!: db_exec_cases)
      (metis GrnotiDlq.select_convs(4,5,9))
  then have "pg_queue_ok h' \<and> (pg_slot h' = pg_slot h \<or> (\<exists>i b. pg_slot h i = None \<and> 0 < b \<and>
      pg_slot h' = (pg_slot h)(i \<mapsto> (DLQStatusPending, 0, b))))"
  proof cases
    case 1
    then show ?thesis using assms(1) by simp
  next
    case (2 new)
    have key: "keyed gq_EventID (pq_rows h')" using assms(1) sql_Upsert_keyed by (simp add: 2(5))
    show ?thesis
    proof (cases "map_of (pq_rows h) (gq_EventID new)")
      case None
      then have "pg_slot h' = (pg_slot h)(gq_EventID new \<mapsto> (DLQStatusPending, 0, pgInt32 (bc_maxRetries (pq_config h))))"
        by (simp add: 2(2-5) sql_UpsertDLQEvent_def fun_eq_iff row_slot_def)
      with None pos key 2(1) assms(1) show ?thesis by auto
    next
      case (Some old)
      then have "pg_slot h' = pg_slot h" by (simp add: 2(5) sql_UpsertDLQEvent_def fun_eq_iff row_slot_def)
      with key 2(1) assms(1) show ?thesis by simp
    qed
  qed
  then show "pg_queue_ok h'" and "pg_slot h' = pg_slot h \<or> (\<exists>i b. pg_slot h i = None \<and> 0 < b \<and>
           pg_slot h' = (pg_slot h)(i \<mapsto> (DLQStatusPending, 0, b)))" by blast+
qed

lemma pg_Claim_config: "pg_ClaimRetryableEvents J now limit h = (r, h') \<Longrightarrow> pq_config h' = pq_config h"
  by (auto simp: pg_ClaimRetryableEvents_def Let_def split: if_splits prod.splits sum.splits)

lemma pg_Claim_slot:
  assumes "pg_queue_ok h" "pg_ClaimRetryableEvents J now limit h = (r, h')"
  shows "pg_slot h' i = pg_slot h i \<or>
    (\<exists>n b. pg_slot h i = Some (DLQStatusPending, n, b) \<and> pg_slot h' i = Some (DLQStatusRetrying, n, b))"
  using assms(2)
proof (cases rule: pg_Claim_cases)
  case (claimed c)
  let ?ids = "sql_due_ids (pgTimestamptz now) (pgInt32 (if limit \<le> 0 then 10 else limit)) (pq_rows h)"
  have ok: "map_ok (pq_rows h)" using assms(1) by (simp add: keyed_def)
  show ?thesis
  proof (cases "i \<in> set ?ids")
    case True
    from sql_due_ids_due [OF ok True] obtain r where "map_of (pq_rows h) i = Some r" "gq_Status r = DLQStatusPending" by blast
    with True show ?thesis by (simp add: claimed(1,2) sql_Claim_at row_slot_def)
  next
    case False
    then have "map_of (pq_rows h') i = map_of (pq_rows h) i"
      by (simp add: claimed(1,2) sql_Claim_at) (simp add: option.map_ident)
    then show ?thesis by simp
  qed
qed simp

lemma pg_count_cases:
  assumes "pg_count J now i h = (r, h')"
  obtains (refused) err where "r = Inl err" "pq_rows h' = pq_rows h" "pq_config h' = pq_config h"
    | (counted) row where "r = Inr row" "fst (sql_IncrementRetryCount i (pgTimestamptz now) (pq_rows h)) = Some row"
        "pq_rows h' = snd (sql_IncrementRetryCount i (pgTimestamptz now) (pq_rows h))" "pq_config h' = pq_config h"
proof -
  obtain q db where q: "db_exec (sql_IncrementRetryCount i (pgTimestamptz now)) (pq_db h) = (q, db)" by (rule prod.exhaust)
  note count = assms [symmetric, unfolded pg_count_def q prod.case]
  have cfg: "pq_config (snd (pg_GetEventByID J i h)) = pq_config h" for h
    by (simp add: pg_GetEventByID_def split: prod.split sum.split option.split)
  from q show ?thesis
  proof (cases rule: db_exec_cases)
    case (failed e)
    with count refused show ?thesis by (simp split: if_splits)
  next
    case applied
    let ?inc = "sql_IncrementRetryCount i (pgTimestamptz now) (pq_rows h)"
    show ?thesis
    proof (cases "fst ?inc")
      case None
      then show ?thesis
        using count applied sql_Increment_None [OF None] pg_GetEventByID_rows [of J i "h\<lparr>pq_db := db\<rparr>"]
          cfg [of "h\<lparr>pq_db := db\<rparr>"] refused
        by (simp add: split_beta split: if_splits)
    next
      case (Some row)
      show ?thesis using count applied Some refused counted [of row] by (auto split: if_splits)
    qed
  qed
qed

lemma pg_finish_cases:
  assumes "pg_finish J int63n now i ok err row h = (res, h')"
  obtains (kept) "res \<noteq> Ret None" "pq_rows h' = pq_rows h" "pq_config h' = pq_config h"
    | (finalized) raw stmt where "res = Ret None" "pg_finalize int63n now i ok row raw (pq_config h) = Ret stmt"
        "pq_rows h' = snd (stmt (pq_rows h))" "pq_config h' = pq_config h"
proof -
  let ?a = "\<lparr>at_AttemptNumber = gq_RetryCount row, at_AttemptedAt = now, at_Success = ok,
    at_ErrorMessage = (case err of None \<Rightarrow> [] | Some e \<Rightarrow> error_text e)\<rparr>"
  have fin: "res = fst (pg_finish J int63n now i ok err row h)" "h' = snd (pg_finish J int63n now i ok err row h)"
    using assms by simp_all
  show ?thesis
  proof (cases "Marshal (dj_attempt J) ?a")
    case None
    with fin kept show ?thesis by (simp add: pg_finish_def)
  next
    case (Some raw)
    show ?thesis
    proof (cases "pg_finalize int63n now i ok row raw (pq_config h)")
      case (Panic p)
      with Some fin kept show ?thesis by (simp add: pg_finish_def)
    next
      case (Ret stmt)
      obtain q db where q: "db_exec stmt (pq_db h) = (q, db)" by (rule prod.exhaust)
      then show ?thesis
      proof (cases rule: db_exec_cases)
        case (failed e)
        with Some Ret q fin kept show ?thesis by (simp add: pg_finish_def)
      next
        case applied
        with Some Ret q fin finalized [OF _ Ret] show ?thesis by (simp add: pg_finish_def)
      qed
    qed
  qed
qed

lemma pg_finalize_slot:
  assumes "pg_finalize int63n now i ok row raw cfg = Ret stmt" "map_of rows i = Some r"
  shows "map_option row_slot (map_of (snd (stmt rows)) j) =
    (if j = i then Some (if ok then DLQStatusResolved else if snd (row_counts row) \<le> fst (row_counts row)
         then DLQStatusExhausted else DLQStatusPending, gq_RetryCount r, gq_MaxRetries r)
     else map_option row_slot (map_of rows j))"
proof -
  obtain d where "stmt = sql_FinalizeRetryTerminal i (if ok then DLQStatusResolved else DLQStatusExhausted) (pgTimestamptz now) [raw] \<and>
        (ok \<or> snd (row_counts row) \<le> fst (row_counts row)) \<or>
      stmt = sql_FinalizeRetryPending i d (pgTimestamptz now) [raw] \<and> \<not> ok \<and> \<not> snd (row_counts row) \<le> fst (row_counts row)"
    using assms(1) by (auto simp: pg_finalize_def row_counts_def split: if_splits go.splits)
  then show ?thesis using assms(2)
    by (auto simp: sql_FinalizeRetryTerminal_def sql_FinalizeRetryPending_def row_slot_def)
qed

lemma pg_finish_slot:
  assumes "pg_finish J int63n now i ok err row h = (res, h')" "pg_slot h i = Some (st, n, b)"
  shows "pg_slot h' = (if res = Ret None
    then (pg_slot h)(i \<mapsto> (if ok then DLQStatusResolved
           else if snd (row_counts row) \<le> fst (row_counts row) then DLQStatusExhausted else DLQStatusPending, n, b))
    else pg_slot h)"
  using assms(1)
proof (cases rule: pg_finish_cases)
  case kept
  then show ?thesis by simp
next
  case (finalized raw stmt)
  from assms(2) obtain r where r: "map_of (pq_rows h) i = Some r" "row_slot r = (st, n, b)" by auto
  note fin = pg_finalize_slot [OF finalized(2) r(1)]
  have "pg_slot h' j = ((pg_slot h)(i \<mapsto> (if ok then DLQStatusResolved
      else if snd (row_counts row) \<le> fst (row_counts row) then DLQStatusExhausted else DLQStatusPending, n, b))) j" for j
    using r(2) by (simp add: finalized(3) fin row_slot_def)
  then show ?thesis using finalized(1) by (simp add: fun_eq_iff)
qed

lemma pg_Purge_rows:
  assumes "pg_PurgeExpiredEvents now age h = (r, h')"
  shows "pq_config h' = pq_config h" and "pq_rows h' = pq_rows h \<or>
    (\<exists>cutoff. pq_rows h' = filter (\<lambda>p. \<not> sql_purgeable cutoff (snd p)) (pq_rows h))"
  using assms
  by (auto simp: pg_PurgeExpiredEvents_def sql_PurgeExpiredEvents_def split: if_splits prod.splits sum.splits
      elim!: db_exec_cases)

lemma pg_Purge_slot:
  assumes "pg_queue_ok h" "pg_PurgeExpiredEvents now age h = (r, h')"
  shows "pg_queue_ok h'" and "pg_slot h' i = pg_slot h i \<or> pg_slot h' i = None"
proof -
  from pg_Purge_rows(2) [OF assms(2)] have "keyed gq_EventID (pq_rows h') \<and> (pg_slot h' i = pg_slot h i \<or> pg_slot h' i = None)"
  proof (elim disjE exE)
    fix cutoff
    assume purged: "pq_rows h' = filter (\<lambda>p. \<not> sql_purgeable cutoff (snd p)) (pq_rows h)"
    have "map_ok (pq_rows h)" using assms(1) by (simp add: keyed_def)
    note at = map_of_filter_snd [OF this, of "\<lambda>r. \<not> sql_purgeable cutoff r" i]
    have "keyed gq_EventID (pq_rows h')" unfolding purged using assms(1) by (intro keyed_filter) simp
    then show ?thesis by (simp add: purged at split: option.split)
  qed (use assms(1) in simp)
  then show "pg_queue_ok h'" and "pg_slot h' i = pg_slot h i \<or> pg_slot h' i = None"
    using assms(1) pg_Purge_rows(1) [OF assms(2)] by simp_all
qed

interpretation pg_workers: split_mark "pg_split J int63n" pg_queue_ok row_counts for J int63n
proof unfold_locales
  let ?S = "pg_split J int63n"
  fix s s' :: postgresDLQHandler and now ev why limit es i e age k ok err row res st n b r
  assume ok: "pg_queue_ok s"
  show "pg_queue_ok (sh_Publish ?S now ev why s)"
    and "sh_slot ?S (sh_Publish ?S now ev why s) = sh_slot ?S s \<or> (\<exists>i b. sh_slot ?S s i = None \<and> 0 < b \<and>
      sh_slot ?S (sh_Publish ?S now ev why s) = (sh_slot ?S s)(i \<mapsto> (DLQStatusPending, 0, b)))"
    using pg_Publish_slot [OF ok surjective_pairing, of J now ev why] by (simp_all add: pg_split_def pg_DLQHandler_def)
  show "sh_Claim ?S now limit s = (es, s') \<Longrightarrow> pg_queue_ok s'"
    using pg_Claim_rows(1) [OF conjunct1 [OF ok]] pg_Claim_config ok
    by (simp add: pg_split_def pg_DLQHandler_def split: prod.splits)
  show "sh_Claim ?S now limit s = (es, s') \<Longrightarrow> sh_slot ?S s' i = sh_slot ?S s i \<or>
      (\<exists>n b. sh_slot ?S s i = Some (DLQStatusPending, n, b) \<and> sh_slot ?S s' i = Some (DLQStatusRetrying, n, b))"
    using pg_Claim_slot [OF ok] by (simp add: pg_split_def pg_DLQHandler_def split: prod.splits)
  show "distinct (map dq_EventID es) \<and> (\<forall>e \<in> set es. \<exists>n b. sh_slot ?S s (dq_EventID e) = Some (DLQStatusPending, n, b) \<and>
      sh_slot ?S s' (dq_EventID e) = Some (DLQStatusRetrying, n, b))" if claim: "sh_Claim ?S now limit s = (es, s')"
  proof -
    obtain c where c: "pg_ClaimRetryableEvents J now limit s = (c, s')" and es: "es = value_or [] c"
      using claim by (auto simp: pg_split_def pg_DLQHandler_def split: prod.splits)
    note rows = pg_Claim_rows [OF conjunct1 [OF ok] c, folded es]
    have "\<exists>n b. pg_slot s (dq_EventID e) = Some (DLQStatusPending, n, b) \<and> pg_slot s' (dq_EventID e) = Some (DLQStatusRetrying, n, b)"
      if "e \<in> set es" for e
      using rows(3) [OF that] pg_Claim_slot [OF ok c, of "dq_EventID e"] by (auto simp: row_slot_def)
    with rows(2) show ?thesis by (simp add: pg_split_def)
  qed
  show "sh_Count ?S now i s = (r, s') \<Longrightarrow> pg_queue_ok s'"
    using ok sql_Increment_keyed [of "pq_rows s" i "pgTimestamptz now"]
    by (auto simp: pg_split_def elim!: pg_count_cases)
  show "sh_Count ?S now i s = (Inl err, s') \<Longrightarrow> sh_slot ?S s' = sh_slot ?S s" for err
    by (auto simp: pg_split_def elim!: pg_count_cases)
  show "sh_Count ?S now i s = (Inr row, s') \<Longrightarrow> \<exists>n b. sh_slot ?S s i = Some (DLQStatusRetrying, n, b) \<and>
      row_counts row = (n + 1, b) \<and> sh_slot ?S s' = (sh_slot ?S s)(i \<mapsto> (DLQStatusRetrying, n + 1, b))"
    by (auto simp: pg_split_def sql_IncrementRetryCount_def Let_def row_counts_def row_slot_def fun_eq_iff
        split: option.splits if_splits elim!: pg_count_cases)
  show "sh_Finish ?S now i ok err row s = (res, s') \<Longrightarrow> pg_queue_ok s'" for ok err
    using \<open>pg_queue_ok s\<close> pg_finalize_stmt(1) by (auto simp: pg_split_def elim!: pg_finish_cases)
  show "sh_Finish ?S now i ok err row s = (res, s') \<Longrightarrow> sh_slot ?S s i = Some (st, n, b) \<Longrightarrow>
      sh_slot ?S s' = (if res = Ret None
        then (sh_slot ?S s)(i \<mapsto> (if ok then DLQStatusResolved
               else if snd (row_counts row) \<le> fst (row_counts row) then DLQStatusExhausted else DLQStatusPending, n, b))
        else sh_slot ?S s)" for ok err
    unfolding pg_split_def split_handler.select_convs by (rule pg_finish_slot)
  have purge: "\<exists>r. pg_PurgeExpiredEvents now age s = (r, s')" if "sh_Purge ?S now age s = (k, s')"
    using that by (auto simp: pg_split_def pg_DLQHandler_def split: prod.splits)
  show "sh_Purge ?S now age s = (k, s') \<Longrightarrow> pg_queue_ok s'"
    using purge pg_Purge_slot(1) [OF ok] by blast
  show "sh_Purge ?S now age s = (k, s') \<Longrightarrow> sh_slot ?S s' i = sh_slot ?S s i \<or> sh_slot ?S s' i = None"
    using purge pg_Purge_slot(2) [OF ok, of now age _ s' i] by (fastforce simp: pg_split_def)
qed

section \<open>Mongo\<close>

definition doc_counts :: "mongoDLQDoc \<Rightarrow> int \<times> int" where
  "doc_counts d = (mq_RetryCount d, mq_MaxRetries d)"

abbreviation mongo_queue_ok :: "mongoDLQHandler \<Rightarrow> bool" where
  "mongo_queue_ok h \<equiv> keyed mq_EventID (mq_docs h) \<and> 0 < bc_maxRetries (mq_config h)"

lemma mongo_Publish_slot:
  assumes "mongo_queue_ok h" "mongo_PublishToDLQ bson now ev why h = (r, h')"
  shows "mongo_queue_ok h'" and "mongo_slot h' = mongo_slot h \<or> (\<exists>i b. mongo_slot h i = None \<and> 0 < b \<and>
           mongo_slot h' = (mongo_slot h)(i \<mapsto> (DLQStatusPending, 0, b)))"
proof -
  from assms(2) consider "mq_config h' = mq_config h" "mq_docs h' = mq_docs h"
    | t j st t' where "mq_config h' = mq_config h"
        "mq_docs h' = snd (bson_upsert_dlq t j st why (bc_maxRetries (mq_config h)) t' (mq_docs h))"
    by (auto simp: mongo_PublishToDLQ_def Let_def split: if_splits option.splits prod.splits sum.splits
        elim!: db_exec_cases)
  then have "mongo_queue_ok h' \<and> (mongo_slot h' = mongo_slot h \<or> (\<exists>i b. mongo_slot h i = None \<and> 0 < b \<and>
           mongo_slot h' = (mongo_slot h)(i \<mapsto> (DLQStatusPending, 0, b))))"
  proof cases
    case 1
    then show ?thesis using assms(1) by simp
  next
    case (2 t j st t')
    have key: "keyed mq_EventID (mq_docs h')" using assms(1) bson_upsert_keyed by (simp add: 2(2))
    show ?thesis
    proof (cases "map_of (mq_docs h) j")
      case None
      then have "mongo_slot h' = (mongo_slot h)(j \<mapsto> (DLQStatusPending, 0, bc_maxRetries (mq_config h)))"
        by (simp add: 2(2) bson_upsert_dlq_def Let_def fun_eq_iff doc_slot_def)
      with None key 2(1) assms(1) show ?thesis by auto
    next
      case (Some old)
      then have "mongo_slot h' = mongo_slot h" by (simp add: 2(2) bson_upsert_dlq_def Let_def fun_eq_iff doc_slot_def)
      with key 2(1) assms(1) show ?thesis by simp
    qed
  qed
  then show "mongo_queue_ok h'" and "mongo_slot h' = mongo_slot h \<or> (\<exists>i b. mongo_slot h i = None \<and> 0 < b \<and>
           mongo_slot h' = (mongo_slot h)(i \<mapsto> (DLQStatusPending, 0, b)))" by blast+
qed

text \<open>A claim of many documents is a claim of one, and then, if it found one, a claim of the rest.\<close>

lemma mongo_claim_loop_one:
  "mongo_claim_loop (Suc n) now db claimed =
     (case mongo_claim_loop 1 now db claimed of ((es, err), db') \<Rightarrow>
        if err = None \<and> length claimed < length es then mongo_claim_loop n now db' es else ((es, err), db'))"
  by (auto split: prod.split sum.split option.split)

lemma mongo_Claim_config: "mongo_ClaimRetryableEvents now limit h = (r, h') \<Longrightarrow> mq_config h' = mq_config h"
  by (auto simp: mongo_ClaimRetryableEvents_def Let_def split: if_splits prod.splits)

lemma mongo_Claim_slot:
  assumes "keyed mq_EventID (mq_docs h)" "mongo_ClaimRetryableEvents now limit h = ((es, err), h')"
  shows "mongo_slot h' i = mongo_slot h i \<or>
    (\<exists>n b. mongo_slot h i = Some (DLQStatusPending, n, b) \<and> mongo_slot h' i = Some (DLQStatusRetrying, n, b))"
proof -
  from mongo_Claim_claims [OF assms] obtain ds where c: "claims now (mq_docs h) ds (mq_docs h')" by blast
  show ?thesis using c by (cases "i \<in> mq_EventID ` set ds") (auto simp: claims_def bson_due_def doc_slot_def)
qed

lemma mongo_count_cases:
  assumes "mongo_count now i h = (r, h')"
  obtains (refused) err where "r = Inl err" "mq_docs h' = mq_docs h" "mq_config h' = mq_config h"
    | (counted) d where "r = Inr d" "fst (bson_increment (millis now) i (mq_docs h)) = Some d"
        "mq_docs h' = snd (bson_increment (millis now) i (mq_docs h))" "mq_config h' = mq_config h"
proof -
  obtain q db where q: "db_exec (bson_increment (millis now) i) (mq_db h) = (q, db)" by (rule prod.exhaust)
  note count = assms [symmetric, unfolded mongo_count_def q prod.case]
  have cfg: "mq_config (snd (mongo_GetEventByID i h)) = mq_config h" for h
    by (simp add: mongo_GetEventByID_def split: prod.split sum.split option.split)
  from q show ?thesis
  proof (cases rule: db_exec_cases)
    case (failed e)
    with count refused show ?thesis by (simp split: if_splits)
  next
    case applied
    let ?inc = "bson_increment (millis now) i (mq_docs h)"
    show ?thesis
    proof (cases "fst ?inc")
      case None
      then show ?thesis
        using count applied bson_increment_facts(4) [OF None] mongo_GetEventByID_docs [of i "h\<lparr>mq_db := db\<rparr>"]
          cfg [of "h\<lparr>mq_db := db\<rparr>"] refused
        by (simp add: split_beta split: if_splits)
    next
      case (Some d)
      show ?thesis using count applied Some refused counted [of d] by (auto split: if_splits)
    qed
  qed
qed

lemma mongo_finish_cases:
  assumes "mongo_finish int63n now i ok err d h = (res, h')"
  obtains (kept) "res \<noteq> Ret None" "mq_docs h' = mq_docs h" "mq_config h' = mq_config h"
    | (finalized) fs a where "res = Ret None" "mongo_setFields int63n now ok d (mq_config h) = Ret fs"
        "mq_docs h' = snd (bson_finalize i fs a (mq_docs h))" "mq_config h' = mq_config h"
proof -
  have fin: "res = fst (mongo_finish int63n now i ok err d h)" "h' = snd (mongo_finish int63n now i ok err d h)"
    using assms by simp_all
  let ?a = "\<lparr>at_AttemptNumber = mq_RetryCount d, at_AttemptedAt = millis now, at_Success = ok,
    at_ErrorMessage = (case err of None \<Rightarrow> [] | Some e \<Rightarrow> error_text e)\<rparr>"
  show ?thesis
  proof (cases "mongo_setFields int63n now ok d (mq_config h)")
    case (Panic p)
    with fin kept show ?thesis by (simp add: mongo_finish_def)
  next
    case (Ret fs)
    obtain q db where q: "db_exec (bson_finalize i fs ?a) (mq_db h) = (q, db)" by (rule prod.exhaust)
    then show ?thesis
    proof (cases rule: db_exec_cases)
      case (failed e)
      with Ret q fin kept show ?thesis by (simp add: mongo_finish_def)
    next
      case applied
      with Ret q fin finalized [OF _ Ret] show ?thesis by (simp add: mongo_finish_def)
    qed
  qed
qed

lemma mongo_finalize_slot:
  assumes "mongo_setFields int63n now ok d cfg = Ret fs" "map_of docs i = Some d'"
  shows "map_option doc_slot (map_of (snd (bson_finalize i fs a docs)) j) =
    (if j = i then Some (if ok then DLQStatusResolved else if snd (doc_counts d) \<le> fst (doc_counts d)
         then DLQStatusExhausted else DLQStatusPending, mq_RetryCount d', mq_MaxRetries d')
     else map_option doc_slot (map_of docs j))"
  using assms
  by (auto simp: bson_finalize_def doc_slot_def mongo_setFields_def doc_counts_def split: if_splits go.splits)

lemma mongo_finish_slot:
  assumes "mongo_finish int63n now i ok err row h = (res, h')" "mongo_slot h i = Some (st, n, b)"
  shows "mongo_slot h' = (if res = Ret None
    then (mongo_slot h)(i \<mapsto> (if ok then DLQStatusResolved
           else if snd (doc_counts row) \<le> fst (doc_counts row) then DLQStatusExhausted else DLQStatusPending, n, b))
    else mongo_slot h)"
  using assms(1)
proof (cases rule: mongo_finish_cases)
  case kept
  then show ?thesis by simp
next
  case (finalized fs a)
  from assms(2) obtain r where r: "map_of (mq_docs h) i = Some r" "doc_slot r = (st, n, b)" by auto
  note fin = mongo_finalize_slot [OF finalized(2) r(1)]
  have "mongo_slot h' j = ((mongo_slot h)(i \<mapsto> (if ok then DLQStatusResolved
      else if snd (doc_counts row) \<le> fst (doc_counts row) then DLQStatusExhausted else DLQStatusPending, n, b))) j" for j
    using r(2) by (simp add: finalized(3) fin doc_slot_def)
  then show ?thesis using finalized(1) by (simp add: fun_eq_iff)
qed

lemma mongo_Purge_docs:
  assumes "mongo_PurgeExpiredEvents now age h = (r, h')"
  shows "mq_config h' = mq_config h" and "mq_docs h' = mq_docs h \<or>
    (\<exists>cutoff. mq_docs h' = filter (\<lambda>p. \<not> bson_purgeable cutoff (snd p)) (mq_docs h))"
  using assms
  by (auto simp: mongo_PurgeExpiredEvents_def bson_purge_def split: if_splits prod.splits sum.splits
      elim!: db_exec_cases)

lemma mongo_Purge_slot:
  assumes "mongo_queue_ok h" "mongo_PurgeExpiredEvents now age h = (r, h')"
  shows "mongo_queue_ok h'" and "mongo_slot h' i = mongo_slot h i \<or> mongo_slot h' i = None"
proof -
  from mongo_Purge_docs(2) [OF assms(2)] have "keyed mq_EventID (mq_docs h') \<and> (mongo_slot h' i = mongo_slot h i \<or> mongo_slot h' i = None)"
  proof (elim disjE exE)
    fix cutoff
    assume purged: "mq_docs h' = filter (\<lambda>p. \<not> bson_purgeable cutoff (snd p)) (mq_docs h)"
    have "map_ok (mq_docs h)" using assms(1) by (simp add: keyed_def)
    note at = map_of_filter_snd [OF this, of "\<lambda>r. \<not> bson_purgeable cutoff r" i]
    have "keyed mq_EventID (mq_docs h')" unfolding purged using assms(1) by (intro keyed_filter) simp
    then show ?thesis by (simp add: purged at split: option.split)
  qed (use assms(1) in simp)
  then show "mongo_queue_ok h'" and "mongo_slot h' i = mongo_slot h i \<or> mongo_slot h' i = None"
    using assms(1) mongo_Purge_docs(1) [OF assms(2)] by simp_all
qed

interpretation mongo_workers: split_mark "mongo_split bson int63n" mongo_queue_ok doc_counts for bson int63n
proof unfold_locales
  let ?S = "mongo_split bson int63n"
  fix s s' :: mongoDLQHandler and now ev why limit es i e age k row res st n b r
  assume ok: "mongo_queue_ok s"
  show "mongo_queue_ok (sh_Publish ?S now ev why s)"
    and "sh_slot ?S (sh_Publish ?S now ev why s) = sh_slot ?S s \<or> (\<exists>i b. sh_slot ?S s i = None \<and> 0 < b \<and>
      sh_slot ?S (sh_Publish ?S now ev why s) = (sh_slot ?S s)(i \<mapsto> (DLQStatusPending, 0, b)))"
    using mongo_Publish_slot [OF ok surjective_pairing, of bson now ev why]
    by (simp_all add: mongo_split_def mongo_DLQHandler_def)
  have claim: "\<exists>err. mongo_ClaimRetryableEvents now limit s = ((es, err), s')" if "sh_Claim ?S now limit s = (es, s')"
    using that by (auto simp: mongo_split_def mongo_DLQHandler_def split: prod.splits)
  show "sh_Claim ?S now limit s = (es, s') \<Longrightarrow> mongo_queue_ok s'"
    using claim mongo_Claim_status(1) [OF conjunct1 [OF ok]] mongo_Claim_config ok by fastforce
  show "sh_Claim ?S now limit s = (es, s') \<Longrightarrow> sh_slot ?S s' i = sh_slot ?S s i \<or>
      (\<exists>n b. sh_slot ?S s i = Some (DLQStatusPending, n, b) \<and> sh_slot ?S s' i = Some (DLQStatusRetrying, n, b))"
    using claim mongo_Claim_slot [OF conjunct1 [OF ok]] by (fastforce simp: mongo_split_def)
  show "distinct (map dq_EventID es) \<and> (\<forall>e \<in> set es. \<exists>n b. sh_slot ?S s (dq_EventID e) = Some (DLQStatusPending, n, b) \<and>
      sh_slot ?S s' (dq_EventID e) = Some (DLQStatusRetrying, n, b))" if cl: "sh_Claim ?S now limit s = (es, s')"
  proof -
    obtain err where c: "mongo_ClaimRetryableEvents now limit s = ((es, err), s')" using claim [OF cl] by blast
    note docs = mongo_Claim_status [OF conjunct1 [OF ok] c]
    have "\<exists>n b. mongo_slot s (dq_EventID e) = Some (DLQStatusPending, n, b) \<and>
        mongo_slot s' (dq_EventID e) = Some (DLQStatusRetrying, n, b)" if "e \<in> set es" for e
      using docs(3) [OF that] mongo_Claim_slot [OF conjunct1 [OF ok] c, of "dq_EventID e"] by (auto simp: doc_slot_def)
    with docs(2) show ?thesis by (simp add: mongo_split_def)
  qed
  show "sh_Count ?S now i s = (r, s') \<Longrightarrow> mongo_queue_ok s'"
    using ok bson_increment_facts(1) [of "mq_docs s" "millis now" i]
    by (auto simp: mongo_split_def elim!: mongo_count_cases)
  show "sh_Count ?S now i s = (Inl err, s') \<Longrightarrow> sh_slot ?S s' = sh_slot ?S s" for err
    by (auto simp: mongo_split_def elim!: mongo_count_cases)
  show "sh_Count ?S now i s = (Inr row, s') \<Longrightarrow> \<exists>n b. sh_slot ?S s i = Some (DLQStatusRetrying, n, b) \<and>
      doc_counts row = (n + 1, b) \<and> sh_slot ?S s' = (sh_slot ?S s)(i \<mapsto> (DLQStatusRetrying, n + 1, b))"
    by (auto simp: mongo_split_def bson_increment_def Let_def doc_counts_def doc_slot_def fun_eq_iff
        split: option.splits if_splits elim!: mongo_count_cases)
  show "sh_Finish ?S now i ok err row s = (res, s') \<Longrightarrow> mongo_queue_ok s'" for ok err
    using \<open>mongo_queue_ok s\<close> bson_finalize_facts(1) by (auto simp: mongo_split_def elim!: mongo_finish_cases)
  show "sh_Finish ?S now i ok err row s = (res, s') \<Longrightarrow> sh_slot ?S s i = Some (st, n, b) \<Longrightarrow>
      sh_slot ?S s' = (if res = Ret None
        then (sh_slot ?S s)(i \<mapsto> (if ok then DLQStatusResolved
               else if snd (doc_counts row) \<le> fst (doc_counts row) then DLQStatusExhausted else DLQStatusPending, n, b))
        else sh_slot ?S s)" for ok err
    unfolding mongo_split_def split_handler.select_convs by (rule mongo_finish_slot)
  have purge: "\<exists>r. mongo_PurgeExpiredEvents now age s = (r, s')" if "sh_Purge ?S now age s = (k, s')"
    using that by (auto simp: mongo_split_def mongo_DLQHandler_def split: prod.splits)
  show "sh_Purge ?S now age s = (k, s') \<Longrightarrow> mongo_queue_ok s'"
    using purge mongo_Purge_slot(1) [OF ok] by blast
  show "sh_Purge ?S now age s = (k, s') \<Longrightarrow> sh_slot ?S s' i = sh_slot ?S s i \<or> sh_slot ?S s' i = None"
    using purge mongo_Purge_slot(2) [OF ok, of now age _ s' i] by (fastforce simp: mongo_split_def)
qed

section \<open>Two marks of one claim\<close>

lemma pg_count_healthy:
  assumes "healthy (pq_db h)" "pg_slot h i = Some (DLQStatusRetrying, n, b)"
  obtains row h' where "pg_count J now i h = (Inr row, h')" "healthy (pq_db h')" "pq_config h' = pq_config h"
    "row_counts row = (n + 1, b)" "pg_slot h' i = Some (DLQStatusRetrying, n + 1, b)"
proof -
  obtain r where r: "map_of (pq_rows h) i = Some r" "gq_Status r = DLQStatusRetrying" "gq_RetryCount r = n" "gq_MaxRetries r = b"
    using assms(2) by (auto simp: row_slot_def)
  have up: "\<not> db_closed (pq_db h)" "db_faults (pq_db h) = []" using assms(1) by (simp_all add: healthy_def)
  let ?r = "r\<lparr>gq_RetryCount := n + 1, gq_LastAttemptAt := pgTimestamptz now, gq_UpdatedAt := pgTimestamptz now\<rparr>"
  show ?thesis
    by (rule that [of ?r "h\<lparr>pq_db := (pq_db h)\<lparr>db_rows := AList.update i ?r (pq_rows h)\<rparr>\<rparr>"])
      (simp_all add: pg_count_def sql_IncrementRetryCount_def Let_def up r healthy_def row_counts_def row_slot_def)
qed

lemma pg_finish_healthy:
  assumes "healthy (pq_db h)" "codec_total (dj_attempt J)" "int63n_ok int63n" "bc_maxRetryDelay (pq_config h) < max_int64"
  obtains h' where "pg_finish J int63n now i ok err row h = (Ret None, h')" "healthy (pq_db h')" "pq_config h' = pq_config h"
proof -
  obtain raw where raw: "Marshal (dj_attempt J) \<lparr>at_AttemptNumber = gq_RetryCount row, at_AttemptedAt = now, at_Success = ok,
      at_ErrorMessage = (case err of None \<Rightarrow> [] | Some e \<Rightarrow> error_text e)\<rparr> = Some raw"
    using assms(2) by (auto simp: codec_total_def)
  obtain d where d: "FullJitterBackoff int63n (bc_retryDelay (pq_config h)) (bc_maxRetryDelay (pq_config h)) (gq_RetryCount row) = Ret d"
    by (rule backoff_returns [OF assms(3,4)])
  obtain stmt where stmt: "pg_finalize int63n now i ok row raw (pq_config h) = Ret stmt"
    by (cases ok; cases "gq_MaxRetries row \<le> gq_RetryCount row") (simp_all add: pg_finalize_def d)
  have up: "\<not> db_closed (pq_db h)" "db_faults (pq_db h) = []" using assms(1) by (simp_all add: healthy_def)
  show ?thesis
    by (rule that [of "h\<lparr>pq_db := (pq_db h)\<lparr>db_rows := snd (stmt (pq_rows h))\<rparr>\<rparr>"]) (simp_all add: pg_finish_def Let_def raw stmt up healthy_def)
qed

section \<open>A worker on each database\<close>

lemma pg_reach_ok: "worker_reach (pg_split J int63n) (pg_dlq_new m d D) w \<Longrightarrow>
    pg_queue_ok (wk_store w) \<and> workers_ok (pg_split J int63n) row_counts w"
  using pg_workers.worker_reach_ok [of J int63n "pg_dlq_new m d D" w] by (simp add: pg_split_def pg_dlq_new_def new_backend_def)

lemma mongo_reach_ok: "worker_reach (mongo_split bson int63n) (mongo_dlq_new m d D) w \<Longrightarrow>
    mongo_queue_ok (wk_store w) \<and> workers_ok (mongo_split bson int63n) doc_counts w"
  using mongo_workers.worker_reach_ok [of bson int63n "mongo_dlq_new m d D" w] by (simp add: mongo_split_def mongo_dlq_new_def new_backend_def)

lemma workers_ok_owners:
  assumes "workers_ok S counts w"
  shows "distinct (map fst (wk_tickets w))"
    and "i \<in> fst ` set (wk_tickets w) \<Longrightarrow> \<exists>n b. sh_slot S (wk_store w) i = Some (DLQStatusRetrying, n, b)"
    and "sh_slot S (wk_store w) i = Some (st, n, b) \<Longrightarrow> 0 \<le> n \<and> n \<le> b"
proof -
  show "distinct (map fst (wk_tickets w))" using assms by (simp add: workers_ok_def)
  show "\<exists>n b. sh_slot S (wk_store w) i = Some (DLQStatusRetrying, n, b)" if "i \<in> fst ` set (wk_tickets w)"
    using that assms by (force simp: workers_ok_def elim: ticket_okE)
  show "0 \<le> n \<and> n \<le> b" if "sh_slot S (wk_store w) i = Some (st, n, b)"
  proof -
    have "slot_ok (sh_slot S (wk_store w) i)" using assms by (simp add: workers_ok_def)
    with that show ?thesis by simp
  qed
qed

abbreviation demo_pg_workers :: "(postgresDLQHandler, GrnotiDlq) split_handler" where
  "demo_pg_workers \<equiv> pg_split (demo_json (Some demo_event)) (\<lambda>n. 0)"

abbreviation demo_mongo_workers :: "(mongoDLQHandler, mongoDLQDoc) split_handler" where
  "demo_mongo_workers \<equiv> mongo_split Some (\<lambda>n. 0)"

lemma demo_pg_claim:
  "worker_reach demo_pg_workers (pg_dlq_new 3 0 0) \<lparr>wk_store = demo_pg, wk_tickets = []\<rparr>"
  "worker_step demo_pg_workers \<lparr>wk_store = demo_pg, wk_tickets = []\<rparr>
     \<lparr>wk_store = demo_pg_claimed, wk_tickets = [(''e1'', None)]\<rparr>"
proof -
  let ?s0 = "\<lparr>wk_store = pg_dlq_new 3 0 0, wk_tickets = []\<rparr> :: (postgresDLQHandler, GrnotiDlq) dlq_workers"
  have "sh_Publish demo_pg_workers 5000 demo_event ''boom'' (wk_store ?s0) = demo_pg"
    by (simp add: pg_split_def pg_DLQHandler_def demo_pg_def pg_PublishToDLQ_def demo_json_def)
  then show "worker_reach demo_pg_workers (pg_dlq_new 3 0 0) \<lparr>wk_store = demo_pg, wk_tickets = []\<rparr>"
    using worker_reach.step [OF worker_reach.start worker_step.publish, of demo_pg_workers "pg_dlq_new 3 0 0" 5000 demo_event "''boom''"]
    by simp
  have up: "\<not> db_closed (pq_db demo_pg)" "db_faults (pq_db demo_pg) = []" using demo_pg_at(2) by (simp_all add: healthy_def)
  obtain e where "sh_Claim demo_pg_workers 9000 1 demo_pg = ([e], demo_pg_claimed)" "dq_EventID e = ''e1''"
    using up by (simp add: pg_split_def pg_eval demo_pg_at demo_pg_claimed_def)
  then show "worker_step demo_pg_workers \<lparr>wk_store = demo_pg, wk_tickets = []\<rparr>
     \<lparr>wk_store = demo_pg_claimed, wk_tickets = [(''e1'', None)]\<rparr>"
    using worker_step.claim [of demo_pg_workers 1 9000 "\<lparr>wk_store = demo_pg, wk_tickets = []\<rparr>"]
    by (simp add: pg_split_def)
qed

lemma demo_mongo_claim:
  "worker_reach demo_mongo_workers (mongo_dlq_new 3 0 0) \<lparr>wk_store = demo_mongo, wk_tickets = []\<rparr>"
  "worker_step demo_mongo_workers \<lparr>wk_store = demo_mongo, wk_tickets = []\<rparr>
     \<lparr>wk_store = demo_mongo_claimed, wk_tickets = [(''e1'', None)]\<rparr>"
proof -
  let ?s0 = "\<lparr>wk_store = mongo_dlq_new 3 0 0, wk_tickets = []\<rparr> :: (mongoDLQHandler, mongoDLQDoc) dlq_workers"
  have "sh_Publish demo_mongo_workers 5000000 demo_event ''boom'' (wk_store ?s0) = demo_mongo"
    by (simp add: mongo_split_def mongo_DLQHandler_def demo_mongo_def)
  then show "worker_reach demo_mongo_workers (mongo_dlq_new 3 0 0) \<lparr>wk_store = demo_mongo, wk_tickets = []\<rparr>"
    using worker_reach.step [OF worker_reach.start worker_step.publish, of demo_mongo_workers "mongo_dlq_new 3 0 0" 5000000 demo_event "''boom''"]
    by simp
  have up: "\<not> db_closed (mq_db demo_mongo)" "db_faults (mq_db demo_mongo) = []" using demo_mongo_at(2) by (simp_all add: healthy_def)
  obtain e where "sh_Claim demo_mongo_workers 9000000 1 demo_mongo = ([e], demo_mongo_claimed)" "dq_EventID e = ''e1''"
    using up by (simp add: mongo_split_def mongo_DLQHandler_def mongo_eval demo_mongo_at demo_mongo_claimed_def toDLQEvent_def)
  then show "worker_step demo_mongo_workers \<lparr>wk_store = demo_mongo, wk_tickets = []\<rparr>
     \<lparr>wk_store = demo_mongo_claimed, wk_tickets = [(''e1'', None)]\<rparr>"
    using worker_step.claim [of demo_mongo_workers 1 9000000 "\<lparr>wk_store = demo_mongo, wk_tickets = []\<rparr>"]
    by (simp add: mongo_split_def)
qed

section \<open>Properties\<close>

text \<open>
  C8. However the statements of the workers interleave, on both databases: no event is held by two workers, an event that a worker
  holds is in the state retrying (so no claim hands it out), and the attempts of an event never exceed its bound.
\<close>

theorem claimed_events_have_one_owner:
  assumes "worker_reach (pg_split J int63n) (pg_dlq_new m d D) w"
    and "worker_reach (mongo_split bson int63n) (mongo_dlq_new m d D) v"
  shows "distinct (map fst (wk_tickets w)) \<and> distinct (map fst (wk_tickets v)) \<and>
         (\<forall>i \<in> fst ` set (wk_tickets w). \<exists>n b. pg_slot (wk_store w) i = Some (DLQStatusRetrying, n, b)) \<and>
         (\<forall>i \<in> fst ` set (wk_tickets v). \<exists>n b. mongo_slot (wk_store v) i = Some (DLQStatusRetrying, n, b)) \<and>
         (\<forall>i st n b. pg_slot (wk_store w) i = Some (st, n, b) \<or> mongo_slot (wk_store v) i = Some (st, n, b) \<longrightarrow> 0 \<le> n \<and> n \<le> b)"
proof -
  have slot: "sh_slot (pg_split J int63n) = pg_slot" "sh_slot (mongo_split bson int63n) = mongo_slot"
    by (simp_all add: pg_split_def mongo_split_def)
  note pg = workers_ok_owners [OF conjunct2 [OF pg_reach_ok [OF assms(1)]], unfolded slot]
    and mongo = workers_ok_owners [OF conjunct2 [OF mongo_reach_ok [OF assms(2)]], unfolded slot]
  have "0 \<le> n \<and> n \<le> b" if "pg_slot (wk_store w) i = Some (st, n, b) \<or> mongo_slot (wk_store v) i = Some (st, n, b)" for i st n b
    using that by (elim disjE) (rule pg(3) mongo(3), assumption)+
  with pg(1,2) mongo(1,2) show ?thesis by (intro conjI) simp_all
qed

theorem claimed_events_have_one_owner_witness:
  "\<exists>n b. pg_slot demo_pg_claimed ''e1'' = Some (DLQStatusRetrying, n, b) \<and> n \<le> b"
proof -
  note reach = worker_reach.step [OF demo_pg_claim] worker_reach.step [OF demo_mongo_claim]
  from claimed_events_have_one_owner [OF reach] show ?thesis by (simp add: row_slot_def) blast
qed

text \<open>
  C5. The mark in two statements implements a queue whose marks are atomic: every step of the workers, in every reachable state, is a
  step of that queue, in which a claim takes pending events only, and a mark counts an attempt and decides the next status at
  once from the number of attempts.  In particular no attempt is lost between two workers.
\<close>

theorem workers_refine_atomic_queue:
  assumes "worker_reach (pg_split J int63n) (pg_dlq_new m d D) w" and "worker_step (pg_split J int63n) w w'"
    and "worker_reach (mongo_split bson int63n) (mongo_dlq_new m d D) v" and "worker_step (mongo_split bson int63n) v v'"
  shows "slot_step (slots_of (pg_split J int63n) w) (slots_of (pg_split J int63n) w') \<and>
         slot_step (slots_of (mongo_split bson int63n) v) (slots_of (mongo_split bson int63n) v')"
  using pg_workers.worker_step_refines [OF assms(2) pg_reach_ok [OF assms(1)]]
    mongo_workers.worker_step_refines [OF assms(4) mongo_reach_ok [OF assms(3)]] by blast

theorem workers_refine_atomic_queue_witness:
  "slot_step (slots_of demo_pg_workers \<lparr>wk_store = demo_pg, wk_tickets = []\<rparr>)
     (slots_of demo_pg_workers \<lparr>wk_store = demo_pg_claimed, wk_tickets = [(''e1'', None)]\<rparr>) \<and>
   slots_of demo_pg_workers \<lparr>wk_store = demo_pg_claimed, wk_tickets = [(''e1'', None)]\<rparr> ''e1'' =
     Some (DLQStatusRetrying, 0, 3)"
  using workers_refine_atomic_queue [OF demo_pg_claim demo_mongo_claim] demo_pg_claimed_at(1)
  by (simp add: slots_of_def) (simp add: pg_split_def)

text \<open>
  C40. The second statement of a mark is not restricted to claimed events, so the refinement rests on each claim being marked
  once.  Two marks of one claim can both pass the first statement; when the one that reports success finishes before the other, both
  return without an error and the resolved event is pending again, to be claimed and sent a second time.
\<close>

theorem late_mark_reopens_resolved:
  assumes "healthy (pq_db h)" "codec_total (dj_attempt J)" "int63n_ok int63n" "bc_maxRetryDelay (pq_config h) < max_int64"
    and "pg_slot h i = Some (DLQStatusRetrying, n, b)" "n + 2 < b"
  shows "\<exists>row1 row2 h1 h2 h3 h4.
    pg_count J t1 i h = (Inr row1, h1) \<and> pg_count J t2 i h1 = (Inr row2, h2) \<and>
    pg_finish J int63n t1 i True None row1 h2 = (Ret None, h3) \<and> pg_slot h3 i = Some (DLQStatusResolved, n + 2, b) \<and>
    pg_finish J int63n t2 i False err row2 h3 = (Ret None, h4) \<and> pg_slot h4 i = Some (DLQStatusPending, n + 2, b)"
proof -
  obtain row1 h1 where c1: "pg_count J t1 i h = (Inr row1, h1)" "healthy (pq_db h1)" "pq_config h1 = pq_config h"
    "row_counts row1 = (n + 1, b)" "pg_slot h1 i = Some (DLQStatusRetrying, n + 1, b)" by (rule pg_count_healthy [OF assms(1,5)])
  obtain row2 h2 where c2: "pg_count J t2 i h1 = (Inr row2, h2)" "healthy (pq_db h2)" "pq_config h2 = pq_config h1"
    "row_counts row2 = (n + 1 + 1, b)" "pg_slot h2 i = Some (DLQStatusRetrying, n + 1 + 1, b)"
    by (rule pg_count_healthy [OF c1(2,5)])
  have "bc_maxRetryDelay (pq_config h2) < max_int64" using assms(4) c1(3) c2(3) by simp
  from pg_finish_healthy [OF c2(2) assms(2,3) this] obtain h3 where
    f1: "pg_finish J int63n t1 i True None row1 h2 = (Ret None, h3)" "healthy (pq_db h3)" "pq_config h3 = pq_config h2" by blast
  have "bc_maxRetryDelay (pq_config h3) < max_int64" using assms(4) c1(3) c2(3) f1(3) by simp
  from pg_finish_healthy [OF f1(2) assms(2,3) this] obtain h4 where
    f2: "pg_finish J int63n t2 i False err row2 h3 = (Ret None, h4)" by blast
  have s3: "pg_slot h3 i = Some (DLQStatusResolved, n + 1 + 1, b)"
    using fun_cong [OF pg_finish_slot [OF f1(1) c2(5)], of i] by simp
  have "pg_slot h4 i = Some (DLQStatusPending, n + 1 + 1, b)"
    using fun_cong [OF pg_finish_slot [OF f2 s3], of i] c2(4) assms(6) by simp
  with c1(1) c2(1) f1(1) f2 s3 show ?thesis by auto
qed

theorem late_mark_reopens_resolved_witness:
  "\<exists>row1 row2 h1 h2 h3 h4. pg_count (demo_json None) 10000 ''e1'' demo_pg_claimed = (Inr row1, h1) \<and>
     pg_count (demo_json None) 11000 ''e1'' h1 = (Inr row2, h2) \<and>
     pg_finish (demo_json None) (\<lambda>n. 0) 10000 ''e1'' True None row1 h2 = (Ret None, h3) \<and>
     pg_slot h3 ''e1'' = Some (DLQStatusResolved, 2, 3) \<and>
     pg_finish (demo_json None) (\<lambda>n. 0) 11000 ''e1'' False (Some (Opaque ''x'')) row2 h3 = (Ret None, h4) \<and>
     pg_slot h4 ''e1'' = Some (DLQStatusPending, 2, 3)"
proof -
  have "int63n_ok (\<lambda>n. 0)" by (simp add: int63n_ok_def)
  from late_mark_reopens_resolved [OF demo_pg_claimed_at(2) demo_json_total this _ demo_pg_claimed_at(1), of _ 10000 11000
      "Some (Opaque ''x'')"]
  show ?thesis by (simp add: demo_pg_claimed_at(3) demo_pg_at(3) max_int64_def)
qed

end
