(* ===== verification/Grnoti_Payload.thy ===== *)
theory Grnoti_Payload
  imports Grnoti_Types
begin

text \<open>
  What leaves the dispatcher (\<^verbatim>\<open>dispatcher.fcm.go\<close>, \<^verbatim>\<open>payloadvalidator.go\<close>): the JSON text whose
  length the payload validator measures, the messages built for FCM and each platform's part
  of them, the classification of the errors that come back, and the masking of FIDs in logs.
  Strings are byte strings, so JSON's treatment of UTF-8 is written out on bytes.
\<close>

section \<open>JSON text\<close>

text \<open>
  The length of the UTF-8 sequence at the head of a byte list, \<open>0\<close> if there is none:
  \<^verbatim>\<open>utf8.DecodeRune\<close>.
\<close>

definition cont_byte :: "nat \<Rightarrow> bool" where
  "cont_byte b \<longleftrightarrow> 128 \<le> b \<and> b \<le> 191"

fun utf8_size :: "nat list \<Rightarrow> nat" where
  "utf8_size [] = 0"
| "utf8_size (b0 # bs) =
     (if b0 < 128 then 1
      else if 194 \<le> b0 \<and> b0 \<le> 223 then
        (case bs of b1 # _ \<Rightarrow> if cont_byte b1 then 2 else 0 | [] \<Rightarrow> 0)
      else if 224 \<le> b0 \<and> b0 \<le> 239 then
        (case bs of
           b1 # b2 # _ \<Rightarrow>
             (if (if b0 = 224 then 160 else 128) \<le> b1 \<and> b1 \<le> (if b0 = 237 then 159 else 191) \<and> cont_byte b2
              then 3 else 0)
         | _ \<Rightarrow> 0)
      else if 240 \<le> b0 \<and> b0 \<le> 244 then
        (case bs of
           b1 # b2 # b3 # _ \<Rightarrow>
             (if (if b0 = 240 then 144 else 128) \<le> b1 \<and> b1 \<le> (if b0 = 244 then 143 else 191) \<and>
                 cont_byte b2 \<and> cont_byte b3
              then 4 else 0)
         | _ \<Rightarrow> 0)
      else 0)"

definition backslash :: char where
  "backslash = char_of (92 :: nat)"

definition quote :: char where
  "quote = char_of (34 :: nat)"

definition hex_digit :: "nat \<Rightarrow> char" where
  "hex_digit n = char_of (if n < 10 then 48 + n else 87 + n)"

text \<open>
  \<^verbatim>\<open>encoding/json\<close>'s string escaping with HTML escaping on, for one ASCII byte: quotes and
  backslashes, the five short escapes, and \<^verbatim>\<open>u00xx\<close> for other controls, \<^verbatim>\<open><\<close>, \<^verbatim>\<open>>\<close> and \<^verbatim>\<open>&\<close>.
\<close>

definition escape_ascii :: "nat \<Rightarrow> string" where
  "escape_ascii n =
     (if n = 34 then [backslash, quote]
      else if n = 92 then [backslash, backslash]
      else if n = 8 then backslash # ''b''
      else if n = 12 then backslash # ''f''
      else if n = 10 then backslash # ''n''
      else if n = 13 then backslash # ''r''
      else if n = 9 then backslash # ''t''
      else if n < 32 \<or> n = 60 \<or> n = 62 \<or> n = 38 then
        backslash # ''u00'' @ [hex_digit (n div 16), hex_digit (n mod 16)]
      else [char_of n])"

function json_escape :: "string \<Rightarrow> string" where
  "json_escape [] = []"
| "json_escape (c # cs) =
     (let n = (of_char c :: nat); bs = map of_char (c # cs); k = utf8_size bs in
      if n < 128 then escape_ascii n @ json_escape cs
      else if k = 0 then backslash # ''ufffd'' @ json_escape cs
      else if take 3 bs = [226, 128, 168] then backslash # ''u2028'' @ json_escape (drop (k - 1) cs)
      else if take 3 bs = [226, 128, 169] then backslash # ''u2029'' @ json_escape (drop (k - 1) cs)
      else take k (c # cs) @ json_escape (drop (k - 1) cs))"
  by pat_completeness auto
termination
  by (relation "measure length") auto

declare json_escape.simps(2) [simp del]

definition json_string :: "string \<Rightarrow> string" where
  "json_string s = quote # json_escape s @ [quote]"

text \<open>Values already rendered, joined with commas.\<close>

fun json_join :: "string list \<Rightarrow> string" where
  "json_join [] = []"
| "json_join [x] = x"
| "json_join (x # y # xs) = x @ '','' @ json_join (y # xs)"

definition json_object :: "(string \<times> string) list \<Rightarrow> string" where
  "json_object kvs = ''{'' @ json_join (map (\<lambda>(k, v). json_string k @ '':'' @ v) kvs) @ ''}''"

text \<open>A \<^verbatim>\<open>map[string]string\<close>: nil is \<^verbatim>\<open>null\<close>, keys are written in byte order.\<close>

definition json_strmap :: "strmap option \<Rightarrow> string" where
  "json_strmap m = (case m of None \<Rightarrow> ''null''
     | Some kvs \<Rightarrow> json_object (map (\<lambda>(k, v). (k, json_string v)) (sort_key fst kvs)))"

definition json_action :: "NotificationAction \<Rightarrow> string" where
  "json_action a = json_object
     ([(''id'', json_string (act_ID a)), (''title'', json_string (act_Title a))]
      @ (if act_Icon a = [] then [] else [(''icon'', json_string (act_Icon a))])
      @ (if act_URL a = [] then [] else [(''url'', json_string (act_URL a))]))"

definition json_actions :: "NotificationAction list \<Rightarrow> string" where
  "json_actions as = ''['' @ json_join (map json_action as) @ '']''"

section \<open>Payload validator\<close>

definition FCMMaxPayloadSize :: int where
  "FCMMaxPayloadSize = 4096"

text \<open>
  The marshalled shape, with the keys in the byte order in which \<^verbatim>\<open>json.Marshal\<close> writes a map;
  marshalling strings cannot fail.
\<close>

definition EstimateSize :: "Message \<Rightarrow> int" where
  "EstimateSize msg = int (length (json_object
     [(''data'', json_strmap (msg_Data msg)),
      (''notification'', json_object
         ([(''body'', json_string (msg_Body msg))]
          @ (if msg_ImageURL msg \<noteq> [] then [(''image'', json_string (msg_ImageURL msg))] else [])
          @ [(''title'', json_string (msg_Title msg))]))]))"

definition ValidateSize :: "Message \<Rightarrow> error option" where
  "ValidateSize msg =
     (let size = EstimateSize msg in
      if size > FCMMaxPayloadSize
      then Some (Wrap [] (Sentinel ErrFCMPayloadTooLarge)
             ('': estimated '' @ show_int size @ '' bytes, max '' @ show_int FCMMaxPayloadSize @ '' bytes''))
      else None)"

section \<open>Messages\<close>

definition DefaultTTL :: Duration where
  "DefaultTTL = 24 * Hour"

record FCMNotification =
  fn_Title :: string
  fn_Body :: string
  fn_ImageURL :: string

record AndroidConfig =
  ac_Priority :: string
  ac_TTL :: Duration
  ac_CollapseKey :: string
  ac_ChannelID :: string
  ac_Sound :: string
  ac_Data :: "strmap option"

datatype custom_value = CustomString string | CustomActions "NotificationAction list"

record APNSConfig =
  ap_Headers :: strmap
  ap_Title :: string
  ap_Body :: string
  ap_MutableContent :: bool
  ap_Sound :: string
  ap_Badge :: "int option"
  ap_Category :: string
  ap_CustomData :: "(string, custom_value) gomap option"

record WebpushAction =
  wa_Action :: string
  wa_Title :: string
  wa_Icon :: string

record WebpushConfig =
  wp_Headers :: strmap
  wp_Title :: string
  wp_Body :: string
  wp_Image :: string
  wp_Actions :: "WebpushAction list"
  wp_Data :: "strmap option"

record FCMMessage =
  fm_Fid :: string
  fm_Topic :: string
  fm_Notification :: FCMNotification
  fm_Data :: "strmap option"
  fm_Android :: "AndroidConfig option"
  fm_APNS :: "APNSConfig option"
  fm_Webpush :: "WebpushConfig option"

record MulticastMessage =
  mm_Fids :: "string list"
  mm_Notification :: FCMNotification
  mm_Data :: "strmap option"
  mm_Android :: "AndroidConfig option"
  mm_APNS :: "APNSConfig option"
  mm_Webpush :: "WebpushConfig option"

definition buildNotification :: "Message \<Rightarrow> FCMNotification" where
  "buildNotification msg = \<lparr>fn_Title = msg_Title msg, fn_Body = msg_Body msg, fn_ImageURL = msg_ImageURL msg\<rparr>"

definition buildAndroidConfig :: "Message \<Rightarrow> AndroidConfig" where
  "buildAndroidConfig msg =
     (let d0 = (if msg_DeepLink msg \<noteq> [] \<or> length (msg_Actions msg) > 0 \<or> msg_Category msg \<noteq> []
                then Some [] else None);
          d1 = (if msg_DeepLink msg \<noteq> []
                then map_option (\<lambda>m. AList.update ''deep_link'' (msg_DeepLink msg)
                                       (AList.update ''click_action'' (msg_DeepLink msg) m)) d0 else d0);
          d2 = (if length (msg_Actions msg) > 0
                then map_option (AList.update ''actions'' (json_actions (msg_Actions msg))) d1 else d1);
          d3 = (if msg_Category msg \<noteq> []
                then map_option (AList.update ''category'' (msg_Category msg)) d2 else d2)
      in \<lparr>ac_Priority = (if msg_Priority msg = PriorityHigh then ''high'' else ''normal''),
          ac_TTL = (if msg_TTL msg = 0 then DefaultTTL else msg_TTL msg),
          ac_CollapseKey = msg_CollapseKey msg, ac_ChannelID = msg_ChannelID msg,
          ac_Sound = msg_Sound msg, ac_Data = d3\<rparr>)"

text \<open>\<^verbatim>\<open>Time.Unix\<close>: whole seconds since 1970, counted from year 1 here.\<close>

definition time_unix :: "Time \<Rightarrow> int" where
  "time_unix t = t div Second - 62135596800"

definition buildAPNSConfig :: "Time \<Rightarrow> Message \<Rightarrow> APNSConfig" where
  "buildAPNSConfig now msg =
     (let h1 = AList.update ''apns-priority'' (if msg_Priority msg = PriorityHigh then ''10'' else ''5'') [];
          h2 = (if msg_TTL msg > 0
                then AList.update ''apns-expiration'' (show_int (time_unix (time_add now (msg_TTL msg)))) h1 else h1);
          h3 = (if msg_CollapseKey msg \<noteq> []
                then AList.update ''apns-collapse-id'' (msg_CollapseKey msg) h2 else h2);
          c1 = (if msg_DeepLink msg \<noteq> []
                then AList.update ''click_action'' (CustomString (msg_DeepLink msg))
                       (AList.update ''deep_link'' (CustomString (msg_DeepLink msg)) []) else []);
          c2 = (if length (msg_Actions msg) > 0
                then AList.update ''actions'' (CustomActions (msg_Actions msg)) c1 else c1)
      in \<lparr>ap_Headers = h3, ap_Title = msg_Title msg, ap_Body = msg_Body msg, ap_MutableContent = True,
          ap_Sound = (if msg_Sound msg \<noteq> [] then msg_Sound msg else ''default''),
          ap_Badge = msg_Badge msg, ap_Category = msg_Category msg,
          ap_CustomData = (if length c2 > 0 then Some c2 else None)\<rparr>)"

text \<open>
  \<^verbatim>\<open>int(d.Seconds())\<close> for a positive duration.  \<^verbatim>\<open>Seconds\<close> adds the whole seconds and the
  fraction in \<^verbatim>\<open>float64\<close>; from about 97 days on, a fraction close enough to one second is rounded
  up to the next integer before the truncation.  With \<open>p\<close> the largest power of two not above
  the seconds, the spacing of floats there is \<open>p / 2 ^ 52\<close>, and half of it is the distance
  from which the sum rounds up (a tie goes to the integer, whose mantissa is even).
\<close>

function pow2_floor :: "nat \<Rightarrow> nat" where
  "pow2_floor n = (if n < 2 then 1 else 2 * pow2_floor (n div 2))"
  by pat_completeness auto
termination
  by (relation "measure (\<lambda>n. n)") auto

declare pow2_floor.simps [simp del]

definition whole_seconds :: "Duration \<Rightarrow> int" where
  "whole_seconds d =
     (let sec = d div Second; nsec = d mod Second in
      if sec \<ge> 1 \<and> (Second - nsec) * 2 ^ 53 \<le> Second * int (pow2_floor (nat sec))
      then sec + 1 else sec)"

definition buildWebpushConfig :: "Message \<Rightarrow> WebpushConfig" where
  "buildWebpushConfig msg =
     (let h1 = (if msg_TTL msg > 0 then AList.update ''TTL'' (show_int (whole_seconds (msg_TTL msg))) [] else []);
          h2 = AList.update ''Urgency''
                 (if msg_Priority msg = PriorityHigh then ''high''
                  else if msg_Priority msg = PriorityLow then ''low'' else ''normal'') h1;
          d1 = (if msg_DeepLink msg \<noteq> []
                then AList.update ''click_action'' (msg_DeepLink msg)
                       (AList.update ''deep_link'' (msg_DeepLink msg) []) else []);
          d2 = (if msg_Category msg \<noteq> [] then AList.update ''category'' (msg_Category msg) d1 else d1)
      in \<lparr>wp_Headers = h2, wp_Title = msg_Title msg, wp_Body = msg_Body msg, wp_Image = msg_ImageURL msg,
          wp_Actions = map (\<lambda>a. \<lparr>wa_Action = act_ID a, wa_Title = act_Title a, wa_Icon = act_Icon a\<rparr>) (msg_Actions msg),
          wp_Data = (if msg_DeepLink msg \<noteq> [] \<or> msg_Category msg \<noteq> [] then Some d2 else None)\<rparr>)"

definition buildTopicMessage :: "Time \<Rightarrow> string \<Rightarrow> Message \<Rightarrow> FCMMessage" where
  "buildTopicMessage now topic msg =
     \<lparr>fm_Fid = [], fm_Topic = topic, fm_Notification = buildNotification msg, fm_Data = msg_Data msg,
      fm_Android = Some (buildAndroidConfig msg), fm_APNS = Some (buildAPNSConfig now msg),
      fm_Webpush = Some (buildWebpushConfig msg)\<rparr>"

definition buildMulticastMessage :: "Time \<Rightarrow> string list \<Rightarrow> Message \<Rightarrow> Platform \<Rightarrow> MulticastMessage" where
  "buildMulticastMessage now fids msg platform =
     \<lparr>mm_Fids = fids, mm_Notification = buildNotification msg, mm_Data = msg_Data msg,
      mm_Android = (if platform = PlatformAndroid then Some (buildAndroidConfig msg) else None),
      mm_APNS = (if platform = PlatformIOS then Some (buildAPNSConfig now msg) else None),
      mm_Webpush = (if platform = PlatformWeb then Some (buildWebpushConfig msg) else None)\<rparr>"

definition buildFCMMessage :: "Time \<Rightarrow> string \<Rightarrow> Message \<Rightarrow> Platform \<Rightarrow> FCMMessage" where
  "buildFCMMessage now fid msg platform =
     \<lparr>fm_Fid = fid, fm_Topic = [], fm_Notification = buildNotification msg, fm_Data = msg_Data msg,
      fm_Android = (if platform = PlatformAndroid then Some (buildAndroidConfig msg) else None),
      fm_APNS = (if platform = PlatformIOS then Some (buildAPNSConfig now msg) else None),
      fm_Webpush = (if platform = PlatformWeb then Some (buildWebpushConfig msg) else None)\<rparr>"

section \<open>Classification of FCM errors\<close>

text \<open>
  The SDK's \<^verbatim>\<open>messaging.IsX\<close> predicates are the parameter \<open>is_code\<close>, one per code; the table
  keeps their order.
\<close>

definition fcmStructuredChecks :: "(FCMErrorCode \<times> string) list" where
  "fcmStructuredChecks =
     [(FCMErrorCodeUnregistered, ''FID is no longer registered''),
      (FCMErrorCodeInvalidArgument, ''invalid FID or payload''),
      (FCMErrorCodeSenderIDMismatch, ''sender ID mismatch''),
      (FCMErrorCodeQuotaExceeded, ''quota exceeded''),
      (FCMErrorCodeUnavailable, ''FCM service temporarily unavailable''),
      (FCMErrorCodeInternal, ''FCM internal error''),
      (FCMErrorCodeThirdPartyAuthErr, ''third party auth error'')]"

definition classifyFCMErrorStructured ::
  "(FCMErrorCode \<Rightarrow> error \<Rightarrow> bool) \<Rightarrow> error \<Rightarrow> (FCMErrorCode \<times> string) option" where
  "classifyFCMErrorStructured is_code err = find (\<lambda>(code, message). is_code code err) fcmStructuredChecks"

text \<open>
  \<^verbatim>\<open>strings.ToLower\<close> as far as a search for an ASCII word can tell: ASCII letters, and the two
  non-ASCII letters whose lower case is ASCII (U+0130, whose lower case in Go is \<^verbatim>\<open>i\<close>, and the
  Kelvin sign U+212A); every other non-ASCII letter stays non-ASCII.
\<close>

fun to_lower :: "string \<Rightarrow> string" where
  "to_lower [] = []"
| "to_lower (c # cs) =
     (let n = (of_char c :: nat) in
      if 65 \<le> n \<and> n \<le> 90 then char_of (n + 32) # to_lower cs
      else (case cs of
              d # ds \<Rightarrow>
                (if n = 196 \<and> (of_char d :: nat) = 176 then CHR ''i'' # to_lower ds
                 else (case ds of
                         e # es \<Rightarrow>
                           (if n = 226 \<and> (of_char d :: nat) = 132 \<and> (of_char e :: nat) = 170
                            then CHR ''k'' # to_lower es else c # to_lower cs)
                       | [] \<Rightarrow> c # to_lower cs))
            | [] \<Rightarrow> c # to_lower cs))"

fun str_contains :: "string \<Rightarrow> string \<Rightarrow> bool" where
  "str_contains [] sub = (sub = [])"
| "str_contains (c # cs) sub = (take (length sub) (c # cs) = sub \<or> str_contains cs sub)"

definition containsAnyFold :: "string \<Rightarrow> string list \<Rightarrow> bool" where
  "containsAnyFold s substrings = list_ex (\<lambda>sub. str_contains (to_lower s) (to_lower sub)) substrings"

text \<open>\<^verbatim>\<open>classifyFCMError\<close> of a non-nil error; of nil it is nil.\<close>

definition classifyFCMError :: "(FCMErrorCode \<Rightarrow> error \<Rightarrow> bool) \<Rightarrow> error \<Rightarrow> string \<Rightarrow> error" where
  "classifyFCMError is_code err fid =
     (case classifyFCMErrorStructured is_code err of
        Some (code, message) \<Rightarrow> NewFCMError code fid message (Some err)
      | None \<Rightarrow>
          (let errMsg = error_text err in
           if containsAnyFold errMsg [''unregistered'', ''not-registered'', ''NotRegistered'']
             then NewFCMError FCMErrorCodeUnregistered fid ''FID is no longer registered'' (Some err)
           else if containsAnyFold errMsg [''invalid-argument'', ''InvalidRegistration'', ''invalid registration'']
             then NewFCMError FCMErrorCodeInvalidArgument fid ''invalid FID or payload'' (Some err)
           else if containsAnyFold errMsg [''sender-id-mismatch'', ''MismatchSenderId'']
             then NewFCMError FCMErrorCodeSenderIDMismatch fid ''sender ID mismatch'' (Some err)
           else if containsAnyFold errMsg [''quota-exceeded'', ''QuotaExceeded'', ''rate limit'']
             then NewFCMError FCMErrorCodeQuotaExceeded fid ''quota exceeded'' (Some err)
           else if containsAnyFold errMsg [''unavailable'', ''temporarily unavailable'']
             then NewFCMError FCMErrorCodeUnavailable fid ''FCM service temporarily unavailable'' (Some err)
           else if containsAnyFold errMsg [''internal'', ''InternalError'']
             then NewFCMError FCMErrorCodeInternal fid ''FCM internal error'' (Some err)
           else if containsAnyFold errMsg [''third-party-auth-error'']
             then NewFCMError FCMErrorCodeThirdPartyAuthErr fid ''third party auth error'' (Some err)
           else NewFCMError FCMErrorCodeUnspecified fid ''unspecified FCM error'' (Some err)))"

definition maskFID :: "string \<Rightarrow> string" where
  "maskFID fid =
     (if length fid \<le> 6 then ''***'' else take 4 fid @ ''...'' @ drop (length fid - 2) fid)"

section \<open>Lemmas\<close>

lemma escape_ascii_length: "1 \<le> length (escape_ascii n)"
  by (simp add: escape_ascii_def)

lemma utf8_size_le: "utf8_size bs \<le> length bs"
  by (cases bs rule: utf8_size.cases) (auto split: list.splits)

lemma utf8_size_3: "take 3 bs = [226, 128, 168] \<or> take 3 bs = [226, 128, 169] \<Longrightarrow> utf8_size bs = 3"
proof -
  assume t: "take 3 bs = [226, 128, 168] \<or> take 3 bs = [226, 128, 169]"
  obtain r where "bs = 226 # 128 # 168 # r \<or> bs = 226 # 128 # 169 # r"
    using t append_take_drop_id [of 3 bs] by (metis append_Cons append_Nil)
  then show ?thesis by (auto simp: cont_byte_def)
qed

text \<open>Escaping never shortens a string.\<close>

lemma json_escape_length: "length s \<le> length (json_escape s)"
proof (induction s rule: measure_induct_rule [where f = length])
  case (less s)
  show ?case
  proof (cases s)
    case (Cons c cs)
    let ?bs = "map of_char (c # cs) :: nat list"
    let ?n = "of_char c :: nat"
    let ?k = "utf8_size ?bs"
    have k: "?k \<le> Suc (length cs)" using utf8_size_le [of ?bs] by simp
    have IH: "length (drop m cs) \<le> length (json_escape (drop m cs))" for m
      using less.IH [of "drop m cs"] Cons by simp
    consider (a) "?n < 128" | (b) "?n \<ge> 128" "?k = 0"
      | (c) "?n \<ge> 128" "?k > 0" "take 3 ?bs = [226, 128, 168] \<or> take 3 ?bs = [226, 128, 169]"
      | (d) "?n \<ge> 128" "?k > 0" "take 3 ?bs \<noteq> [226, 128, 168]" "take 3 ?bs \<noteq> [226, 128, 169]"
      by linarith
    then show ?thesis
    proof cases
      case a
      with IH [of 0] escape_ascii_length [of ?n] Cons show ?thesis
        by (simp add: json_escape.simps(2) Let_def del: utf8_size.simps)
    next
      case b
      with IH [of 0] Cons show ?thesis by (simp add: json_escape.simps(2) Let_def del: utf8_size.simps)
    next
      case c
      then have "?k = 3" using utf8_size_3 by blast
      with c IH [of 2] Cons show ?thesis by (auto simp: json_escape.simps(2) Let_def simp del: utf8_size.simps)
    next
      case d
      have "json_escape s = take ?k (c # cs) @ json_escape (drop (?k - 1) cs)"
        unfolding Cons json_escape.simps(2) Let_def 
        using d by (simp only: if_False not_less [symmetric] not_gr_zero [symmetric] not_not not_True_eq_False if_True)
      with IH [of "?k - 1"] k d(2) Cons show ?thesis by (auto simp: min_def simp del: utf8_size.simps)
    qed
  qed simp
qed

lemma json_string_length: "length s + 2 \<le> length (json_string s)"
  using json_escape_length [of s] by (simp add: json_string_def)

lemma json_join_length: "sum_list (map length xs) \<le> length (json_join xs)"
  by (induction xs rule: json_join.induct) auto

lemma json_object_length:
  "sum_list (map (\<lambda>(k, v). length k + length v + 3) kvs) + 2 \<le> length (json_object kvs)"
proof -
  have "sum_list (map (\<lambda>(k, v). length k + length v + 3) kvs) \<le>
        sum_list (map length (map (\<lambda>(k, v). json_string k @ '':'' @ v) kvs))"
    unfolding map_map by (rule sum_list_mono) (use json_string_length in \<open>auto simp: algebra_simps\<close>)
  also have "\<dots> \<le> length (json_join (map (\<lambda>(k, v). json_string k @ '':'' @ v) kvs))"
    by (rule json_join_length)
  finally show ?thesis by (simp add: json_object_def)
qed

text \<open>The bytes of a message that the receiver sees as notification and data.\<close>

definition data_bytes :: "strmap option \<Rightarrow> nat" where
  "data_bytes m = (case m of None \<Rightarrow> 0 | Some kvs \<Rightarrow> sum_list (map (\<lambda>(k, v). length k + length v) kvs))"

lemma sum_list_sort_key: "sum_list (map f (sort_key g xs)) = (sum_list (map f xs) :: nat)"
  by (metis mset_map mset_sort sum_mset_sum_list)

lemma json_strmap_length: "data_bytes m \<le> length (json_strmap m)"
proof (cases m)
  case (Some kvs)
  let ?r = "map (\<lambda>(k, v). (k, json_string v)) (sort_key fst kvs)"
  have "sum_list (map (\<lambda>(k, v). length k + length v) kvs)
      = sum_list (map (\<lambda>(k, v). length k + length v) (sort_key fst kvs))"
    by (simp add: sum_list_sort_key)
  also have "\<dots> \<le> sum_list (map (\<lambda>(k, v). length k + length v + 3) ?r)"
    unfolding map_map
  proof (rule sum_list_mono)
    fix p :: "string \<times> string"
    show "(case p of (k, v) \<Rightarrow> length k + length v) \<le>
        ((\<lambda>(k, v). length k + length v + 3) \<circ> (\<lambda>(k, v). (k, json_string v))) p"
      using json_string_length [of "snd p"] by (cases p) simp
  qed
  also have "\<dots> \<le> length (json_object ?r)"
    using json_object_length [of ?r] by simp
  finally show ?thesis using Some by (simp add: data_bytes_def json_strmap_def)
qed (simp add: data_bytes_def json_strmap_def)

lemma EstimateSize_lower:
  "int (length (msg_Title msg) + length (msg_Body msg) + length (msg_ImageURL msg) + data_bytes (msg_Data msg)) + 40
     \<le> EstimateSize msg"
proof -
  let ?n = "[(''body'', json_string (msg_Body msg))]
          @ (if msg_ImageURL msg \<noteq> [] then [(''image'', json_string (msg_ImageURL msg))] else [])
          @ [(''title'', json_string (msg_Title msg))]"
  have "length (msg_Title msg) + length (msg_Body msg) + length (msg_ImageURL msg) + 18 \<le> length (json_object ?n)"
    using json_object_length [of ?n] json_string_length [of "msg_Body msg"]
      json_string_length [of "msg_Title msg"] json_string_length [of "msg_ImageURL msg"]
    by (simp split: if_splits)
  moreover have "length (json_strmap (msg_Data msg)) + length (json_object ?n) + 24 \<le>
      length (json_object [(''data'', json_strmap (msg_Data msg)), (''notification'', json_object ?n)])"
    using json_object_length [of "[(''data'', json_strmap (msg_Data msg)), (''notification'', json_object ?n)]"]
    by (simp split: if_splits)
  ultimately show ?thesis using json_strmap_length [of "msg_Data msg"] unfolding EstimateSize_def by linarith
qed

text \<open>Classification keeps the cause reachable for \<^verbatim>\<open>errors.Is\<close> and records the FID.\<close>

lemma classifyFCMError_FCM:
  "\<exists>code message. classifyFCMError is_code err fid = FCM code fid message (Some err)"
  by (simp add: classifyFCMError_def NewFCMError_def Let_def split: option.split prod.split)

lemma classifyFCMError_is [simp]: "errors_is (classifyFCMError is_code err fid) t = errors_is err t"
  using classifyFCMError_FCM [of is_code err fid] by auto

section \<open>Properties\<close>

text \<open>
  A message that passes the size check has at most 4056 bytes of title, body, image URL and
  data keys and values together, whatever bytes they contain: JSON escaping only adds to them.
\<close>

theorem ValidateSize_bounds_content:
  assumes "ValidateSize msg = None"
  shows "int (length (msg_Title msg) + length (msg_Body msg) + length (msg_ImageURL msg) +
           data_bytes (msg_Data msg)) \<le> 4056"
  using assms EstimateSize_lower [of msg]
  by (simp add: ValidateSize_def Let_def FCMMaxPayloadSize_def split: if_splits)

definition demo_msg :: Message where
  "demo_msg = \<lparr>msg_Title = ''Hi'', msg_Body = ''There'', msg_Data = None, msg_ImageURL = [],
     msg_Priority = PriorityHigh, msg_TTL = 0, msg_CollapseKey = [], msg_ChannelID = [],
     msg_Badge = None, msg_Sound = [], msg_Actions = [], msg_DeepLink = [], msg_Category = []\<rparr>"

lemma demo_msg_valid: "ValidateSize demo_msg = None"
  by (simp add: ValidateSize_def EstimateSize_def demo_msg_def FCMMaxPayloadSize_def json_object_def
      json_string_def json_escape.simps(2) escape_ascii_def json_strmap_def Let_def)

theorem ValidateSize_bounds_content_witness:
  "ValidateSize demo_msg = None \<and>
   int (length (msg_Title demo_msg) + length (msg_Body demo_msg) + length (msg_ImageURL demo_msg) +
     data_bytes (msg_Data demo_msg)) \<le> 4056"
  using ValidateSize_bounds_content [OF demo_msg_valid] demo_msg_valid by simp

text \<open>
  The logged form of a valid FID tells its first four and last two characters and nothing
  else: two valid FIDs have the same masked form exactly if they agree there.
\<close>

theorem maskFID_reveals_six:
  assumes "validFID f" and "validFID g"
  shows "maskFID f = maskFID g \<longleftrightarrow> take 4 f = take 4 g \<and> drop 20 f = drop 20 g"
  using validFID_length [OF assms(1)] validFID_length [OF assms(2)]
  by (simp add: maskFID_def)

theorem maskFID_reveals_six_witness:
  "maskFID ''cabcdefghijklmnopqrstu'' = maskFID ''cabcXXXXXXXXXXXXXXXXtu'' \<longleftrightarrow>
   take 4 ''cabcdefghijklmnopqrstu'' = take 4 ''cabcXXXXXXXXXXXXXXXXtu'' \<and>
   drop 20 ''cabcdefghijklmnopqrstu'' = drop 20 ''cabcXXXXXXXXXXXXXXXXtu''"
  by (rule maskFID_reveals_six) (simp_all add: fid_char_def)

end
