(* ===== verification/Grnoti_Batch.thy ===== *)
theory Grnoti_Batch
  imports Grnoti_Types
begin

text \<open>
  The batch splitter (\<^verbatim>\<open>batchsplitter.go\<close>): \<open>Deduplicate\<close> and \<open>Split\<close>, with the index
  loops of the source and, for \<open>Split\<close>, the capacity expression of \<^verbatim>\<open>make\<close>, whose 64-bit
  overflow can make the call panic.  Both are shown equal to reference functions on lists.
\<close>

section \<open>Deduplicate\<close>

text \<open>The loop of \<^verbatim>\<open>Deduplicate\<close> with its two variables: the set \<open>seen\<close> and the slice \<open>out\<close>.\<close>

fun dedup_loop :: "string set \<Rightarrow> Device list \<Rightarrow> Device list \<Rightarrow> Device list" where
  "dedup_loop seen out [] = out"
| "dedup_loop seen out (dev # devices) =
     (if dev_FID dev \<in> seen then dedup_loop seen out devices
      else dedup_loop (insert (dev_FID dev) seen) (out @ [dev]) devices)"

definition Deduplicate :: "Device list \<Rightarrow> Device list" where
  "Deduplicate devices = dedup_loop {} [] devices"

section \<open>Split\<close>

text \<open>The loop of \<^verbatim>\<open>Split\<close>: \<open>devices[i:end]\<close> is \<open>take (end - i) (drop i devices)\<close>.\<close>

function split_loop :: "'a list \<Rightarrow> nat \<Rightarrow> nat \<Rightarrow> 'a list list \<Rightarrow> 'a list list" where
  "split_loop devices n i batches =
     (if i < length devices \<and> 0 < n then
        (let stop = (if i + n > length devices then length devices else i + n)
         in split_loop devices n (i + n) (batches @ [take (stop - i) (drop i devices)]))
      else batches)"
  by pat_completeness auto
termination
  by (relation "measure (\<lambda>(devices, n, i, batches). length devices - i)") auto

declare split_loop.simps [simp del]

text \<open>The capacity \<^verbatim>\<open>(len(devices)+maxBatchSize-1)/maxBatchSize\<close> in 64-bit arithmetic.\<close>

definition split_capacity :: "nat \<Rightarrow> int \<Rightarrow> int" where
  "split_capacity n maxBatchSize = go_div (wrap64 (int n + maxBatchSize - 1)) maxBatchSize"

definition Split :: "'a list \<Rightarrow> int \<Rightarrow> 'a list list go" where
  "Split devices maxBatchSize =
     (if maxBatchSize \<le> 0 \<or> length devices = 0 then Ret [devices]
      else if split_capacity (length devices) maxBatchSize < 0
        then Panic ''makeslice: cap out of range''
      else Ret (split_loop devices (nat maxBatchSize) 0 []))"

section \<open>Reference functions\<close>

text \<open>The first device of every FID, in order.\<close>

fun first_per_fid :: "Device list \<Rightarrow> Device list" where
  "first_per_fid [] = []"
| "first_per_fid (d # ds) = d # filter (\<lambda>e. dev_FID e \<noteq> dev_FID d) (first_per_fid ds)"

text \<open>The list cut into pieces of length \<open>n\<close>, the last one possibly shorter.\<close>

function chunks :: "nat \<Rightarrow> 'a list \<Rightarrow> 'a list list" where
  "chunks n xs = (if xs = [] \<or> n = 0 then [] else take n xs # chunks n (drop n xs))"
  by pat_completeness auto
termination
  by (relation "measure (\<lambda>(n, xs). length xs)") auto

declare chunks.simps [simp del]

section \<open>Deduplicate: lemmas\<close>

lemma dedup_loop_filter:
  "dedup_loop seen out ds = out @ filter (\<lambda>d. dev_FID d \<notin> seen) (first_per_fid ds)"
proof (induction seen out ds rule: dedup_loop.induct)
  case (1 seen out)
  show ?case by simp
next
  case (2 seen out dev ds)
  have "filter (\<lambda>d. dev_FID d \<notin> insert (dev_FID dev) seen) (first_per_fid ds) =
        filter (\<lambda>d. dev_FID d \<notin> seen) (filter (\<lambda>e. dev_FID e \<noteq> dev_FID dev) (first_per_fid ds))"
    by (simp add: conj_commute)
  moreover have "dev_FID dev \<in> seen \<Longrightarrow>
      filter (\<lambda>d. dev_FID d \<notin> seen) (filter (\<lambda>e. dev_FID e \<noteq> dev_FID dev) (first_per_fid ds)) =
      filter (\<lambda>d. dev_FID d \<notin> seen) (first_per_fid ds)"
    by (auto intro: filter_cong)
  ultimately show ?case using 2 by simp
qed

lemma Deduplicate_eq: "Deduplicate ds = first_per_fid ds"
  by (simp add: Deduplicate_def dedup_loop_filter)

lemma first_per_fid_fids: "dev_FID ` set (first_per_fid ds) = dev_FID ` set ds"
proof (induction ds)
  case (Cons d ds)
  have "dev_FID ` {x \<in> set (first_per_fid ds). dev_FID x \<noteq> dev_FID d} =
        dev_FID ` set (first_per_fid ds) - {dev_FID d}"
    by auto
  with Cons.IH show ?case by simp
qed simp

lemma first_per_fid_subset: "set (first_per_fid ds) \<subseteq> set ds"
  by (induction ds) auto

lemma first_per_fid_distinct: "distinct (map dev_FID (first_per_fid ds))"
  by (induction ds) (auto simp: distinct_map inj_on_def)

lemma first_per_fid_id: "distinct (map dev_FID ds) \<Longrightarrow> first_per_fid ds = ds"
proof (induction ds)
  case (Cons d ds)
  then have "\<forall>e \<in> set ds. dev_FID e \<noteq> dev_FID d"
    by (metis distinct.simps(2) image_eqI list.simps(9) set_map)
  then have "filter (\<lambda>e. dev_FID e \<noteq> dev_FID d) ds = ds"
    by (simp add: filter_id_conv)
  with Cons show ?case by simp
qed simp

text \<open>The device kept for a FID is the first one that carries it.\<close>

lemma first_per_fid_find:
  "find (\<lambda>d. dev_FID d = f) (first_per_fid ds) = find (\<lambda>d. dev_FID d = f) ds"
proof (induction ds)
  case (Cons d ds)
  have skip: "dev_FID d \<noteq> f \<Longrightarrow>
      find (\<lambda>e. dev_FID e = f) (filter (\<lambda>e. dev_FID e \<noteq> dev_FID d) xs) = find (\<lambda>e. dev_FID e = f) xs"
    for xs by (induction xs) auto
  show ?case by (simp add: skip Cons.IH)
qed simp

lemma Deduplicate_fids [simp]: "dev_FID ` set (Deduplicate ds) = dev_FID ` set ds"
  by (simp add: Deduplicate_eq first_per_fid_fids)

lemma Deduplicate_distinct [simp]: "distinct (map dev_FID (Deduplicate ds))"
  by (simp add: Deduplicate_eq first_per_fid_distinct)

lemma Deduplicate_subset: "set (Deduplicate ds) \<subseteq> set ds"
  by (simp add: Deduplicate_eq first_per_fid_subset)

lemma Deduplicate_length: "length (Deduplicate ds) = card (dev_FID ` set ds)"
proof -
  have "length (Deduplicate ds) = card (set (map dev_FID (Deduplicate ds)))"
    by (metis Deduplicate_distinct distinct_card length_map)
  then show ?thesis by simp
qed

lemma Deduplicate_eq_Nil [simp]: "Deduplicate ds = [] \<longleftrightarrow> ds = []"
  by (cases ds) (simp_all add: Deduplicate_eq)

section \<open>Split: lemmas\<close>

lemma chunks_Nil [simp]: "chunks n [] = []"
  by (simp add: chunks.simps [of n "[]"])

lemma concat_chunks: "0 < n \<Longrightarrow> concat (chunks n xs) = xs"
proof (induction n xs rule: chunks.induct)
  case (1 n xs)
  then show ?case by (cases "xs = []") (simp_all add: chunks.simps [of n xs])
qed

lemma chunks_length_le: "b \<in> set (chunks n xs) \<Longrightarrow> 0 < length b \<and> length b \<le> n"
proof (induction n xs rule: chunks.induct)
  case (1 n xs)
  show ?case
  proof (cases "xs = [] \<or> n = 0")
    case True
    with "1.prems" show ?thesis by (simp add: chunks.simps [of n xs])
  next
    case False
    with "1.prems" have "b = take n xs \<or> b \<in> set (chunks n (drop n xs))"
      by (simp add: chunks.simps [of n xs])
    with False "1.IH" show ?thesis by auto
  qed
qed

lemma length_chunks: "0 < n \<Longrightarrow> length (chunks n xs) = (length xs + n - 1) div n"
proof (induction n xs rule: chunks.induct)
  case (1 n xs)
  show ?case
  proof (cases "xs = []")
    case True
    with "1.prems" show ?thesis by (simp add: chunks.simps [of n xs])
  next
    case False
    with 1 have "length (chunks n xs) = Suc ((length (drop n xs) + n - 1) div n)"
      by (simp add: chunks.simps [of n xs])
    also have "\<dots> = (length xs + n - 1) div n"
    proof (cases "n \<le> length xs")
      case True
      with "1.prems" have eq: "length xs + n - 1 = (length xs - 1) + n" by simp
      from True have "length (drop n xs) + n - 1 = length xs - 1" by simp
      then show ?thesis using "1.prems" by (simp only: eq div_add_self2)
    next
      case below: False
      with False "1.prems" have eq: "length xs + n - 1 = (length xs - 1) + n" by (cases xs) auto
      from below have "length xs - 1 < n" by simp
      then have "(length xs - 1 + n) div n = 1" using "1.prems" by (simp add: div_add_self2)
      moreover from below "1.prems" have "(length (drop n xs) + n - 1) div n = 0" by simp
      ultimately show ?thesis by (simp only: eq)
    qed
    finally show ?thesis .
  qed
qed

lemma split_loop_chunks:
  "0 < n \<Longrightarrow> split_loop ds n i acc = acc @ chunks n (drop i ds)"
proof (induction ds n i acc rule: split_loop.induct)
  case (1 ds n i acc)
  show ?case
  proof (cases "i < length ds")
    case True
    have "take ((if i + n > length ds then length ds else i + n) - i) (drop i ds) = take n (drop i ds)"
      by auto
    moreover have "chunks n (drop i ds) = take n (drop i ds) # chunks n (drop (i + n) ds)"
      using True "1.prems" by (simp add: chunks.simps [of n "drop i ds"] add.commute)
    ultimately show ?thesis
      using True 1 by (simp add: split_loop.simps [of ds n i acc] Let_def)
  next
    case False
    then show ?thesis
      by (simp add: split_loop.simps [of ds n i acc] chunks.simps [of n "drop i ds"])
  qed
qed

lemma split_capacity_ok:
  assumes "0 < m" and "int n + m \<le> max_int64"
  shows "0 \<le> split_capacity n m"
proof -
  from assms have "wrap64 (int n + m - 1) = int n + m - 1"
    by (intro wrap64_id) (auto simp: min_int64_def)
  with assms(1) show ?thesis
    by (simp add: split_capacity_def go_div_def sgn_if pos_imp_zdiv_nonneg_iff)
qed

text \<open>Where the capacity does not overflow, \<open>Split\<close> returns the chunks.\<close>

lemma Split_Ret:
  assumes "0 < m" and "ds \<noteq> []" and "int (length ds) + m \<le> max_int64"
  shows "Split ds m = Ret (chunks (nat m) ds)"
  using assms split_capacity_ok [OF assms(1,3)]
  by (simp add: Split_def split_loop_chunks)

lemma Split_nonpos [simp]: "m \<le> 0 \<Longrightarrow> Split ds m = Ret [ds]"
  by (simp add: Split_def)

lemma Split_Nil [simp]: "Split [] m = Ret [[]]"
  by (simp add: Split_def)

text \<open>Whatever \<open>Split\<close> returns, its concatenation is the input.\<close>

lemma Split_concat: "Split ds m = Ret bs \<Longrightarrow> concat bs = ds"
  by (auto simp: Split_def split_loop_chunks concat_chunks split: if_splits)

lemma Split_batch_length:
  "Split ds m = Ret bs \<Longrightarrow> 0 < m \<Longrightarrow> b \<in> set bs \<Longrightarrow> int (length b) \<le> m"
  using chunks_length_le [of b "nat m" ds]
  by (auto simp: Split_def split_loop_chunks split: if_splits)

lemma Split_nonempty: "Split ds m = Ret bs \<Longrightarrow> ds \<noteq> [] \<Longrightarrow> b \<in> set bs \<Longrightarrow> b \<noteq> []"
  using chunks_length_le [of b "nat m" ds]
  by (auto simp: Split_def split_loop_chunks split: if_splits)

lemma chunks_full: "b \<in> set (butlast (chunks n xs)) \<Longrightarrow> length b = n"
proof (induction n xs rule: chunks.induct)
  case (1 n xs)
  show ?case
  proof (cases "xs = [] \<or> n = 0 \<or> chunks n (drop n xs) = []")
    case True
    with "1.prems" show ?thesis by (auto simp: chunks.simps [of n xs] split: if_splits)
  next
    case False
    then have "drop n xs \<noteq> []" by auto
    then have "length (take n xs) = n" by simp
    with False "1.prems" "1.IH" show ?thesis by (auto simp: chunks.simps [of n xs])
  qed
qed

section \<open>Properties\<close>

text \<open>
   \<^verbatim>\<open>Deduplicate\<close> keeps, in order, exactly the first device of every FID: its result is
  the reference function, no FID occurs twice in it, every FID of the input occurs in it,
  and the device kept for a FID is the first one of the input that carries it.
\<close>

theorem Deduplicate_spec:
  "Deduplicate ds = first_per_fid ds \<and> distinct (map dev_FID (Deduplicate ds)) \<and>
   dev_FID ` set (Deduplicate ds) = dev_FID ` set ds \<and>
   (\<forall>f. find (\<lambda>d. dev_FID d = f) (Deduplicate ds) = find (\<lambda>d. dev_FID d = f) ds)"
  by (simp add: Deduplicate_eq first_per_fid_distinct first_per_fid_fids first_per_fid_find)

text \<open>
   \<^verbatim>\<open>Split\<close> cuts a non-empty device list into consecutive batches: nothing is lost or
  reordered, no batch is empty or larger than the limit, every batch but the last is full,
  and there are \<open>\<lceil>len / limit\<rceil>\<close> of them.
\<close>

theorem Split_spec:
  assumes "0 < m" and "ds \<noteq> []" and "int (length ds) + m \<le> max_int64"
  shows "\<exists>bs. Split ds m = Ret bs \<and> concat bs = ds \<and>
           (\<forall>b \<in> set bs. 0 < length b \<and> int (length b) \<le> m) \<and>
           (\<forall>b \<in> set (butlast bs). int (length b) = m) \<and>
           length bs = (length ds + nat m - 1) div nat m"
  using assms Split_Ret [OF assms] chunks_length_le [of _ "nat m" ds] chunks_full [of _ "nat m" ds]
  by (fastforce simp: concat_chunks length_chunks nat_le_iff)

theorem Split_spec_witness:
  "\<exists>bs. Split [1 :: nat, 2, 3, 4, 5] 2 = Ret bs \<and> concat bs = [1, 2, 3, 4, 5] \<and>
     (\<forall>b \<in> set bs. 0 < length b \<and> int (length b) \<le> 2) \<and>
     (\<forall>b \<in> set (butlast bs). int (length b) = 2) \<and>
     length bs = (length [1 :: nat, 2, 3, 4, 5] + nat 2 - 1) div nat 2"
  by (rule Split_spec) (simp_all add: max_int64_def)

text \<open>
   A limit of \<^verbatim>\<open>math.MaxInt\<close> (``no limit'') makes \<^verbatim>\<open>Split\<close> panic on a list of two or
  three devices: the capacity expression overflows and its quotient is \<open>-1\<close>.
\<close>

theorem Split_MaxInt_panics:
  assumes "length ds = 2 \<or> length ds = 3"
  shows "Split ds max_int64 = Panic ''makeslice: cap out of range''"
proof -
  have "wrap64 (int n + max_int64 - 1) = int n - 2 - 2 ^ 63" if "n = 2 \<or> n = 3" for n
    using that by (auto simp: wrap64_def max_int64_def)
  with assms have "split_capacity (length ds) max_int64 = -1"
    by (auto simp: split_capacity_def go_div_def max_int64_def)
  with assms show ?thesis by (auto simp: Split_def max_int64_def)
qed

theorem Split_MaxInt_panics_witness:
  "Split [1 :: nat, 2] max_int64 = Panic ''makeslice: cap out of range''"
  by (rule Split_MaxInt_panics) simp

end
