(* ===== verification/Grnoti_Circuit.thy ===== *)
theory Grnoti_Circuit
  imports Grnoti_Types
begin

text \<open>
  The circuit breaker (\<^verbatim>\<open>circuitbreaker.go\<close>).  \<open>beforeRequest\<close> and \<open>afterRequest\<close> run
  under the breaker's mutex, so each is one atomic step; the guarded function runs between
  them without the lock.  \<open>Execute\<close> is the sequential composition.  The step relation
  \<open>cb_step\<close> interleaves any number of concurrent \<open>Execute\<close> calls, and the reachable
  states of that system carry the invariants.
\<close>

section \<open>State\<close>

datatype CircuitState = CircuitStateClosed | CircuitStateOpen | CircuitStateHalfOpen

record CircuitBreakerConfig =
  cfg_MaxFailures :: int
  cfg_Timeout :: Duration
  cfg_ResetTimeout :: Duration
  cfg_MaxHalfOpenRequests :: int

record standardCircuitBreaker =
  cb_config :: CircuitBreakerConfig
  cb_state :: CircuitState
  cb_consecutiveFailures :: int
  cb_halfOpenRequests :: int
  cb_lastFailureTime :: Time
  cb_lastStateChange :: Time
  cb_openedAt :: Time
  cb_totalSuccesses :: int
  cb_totalFailures :: int
  cb_totalRejections :: int

record CircuitBreakerStats =
  cbs_State :: CircuitState
  cbs_ConsecutiveFailures :: int
  cbs_TotalSuccesses :: int
  cbs_TotalFailures :: int
  cbs_TotalRejections :: int
  cbs_LastFailureTime :: Time
  cbs_LastStateChange :: Time
  cbs_OpenedAt :: Time
  cbs_TimeUntilNextAttempt :: Duration

section \<open>Operations\<close>

definition NewCircuitBreakerWithConfig :: "CircuitBreakerConfig \<Rightarrow> Time \<Rightarrow> error + standardCircuitBreaker" where
  "NewCircuitBreakerWithConfig config now =
     (if cfg_MaxFailures config \<le> 0
        then Inl (Opaque ''grnoti: CircuitBreakerConfig.MaxFailures must be > 0'')
      else if cfg_Timeout config \<le> 0
        then Inl (Opaque ''grnoti: CircuitBreakerConfig.Timeout must be > 0'')
      else if cfg_ResetTimeout config \<le> 0
        then Inl (Opaque ''grnoti: CircuitBreakerConfig.ResetTimeout must be > 0'')
      else
        (let config' = (if cfg_MaxHalfOpenRequests config \<le> 0
                        then config\<lparr>cfg_MaxHalfOpenRequests := 1\<rparr> else config)
         in Inr \<lparr>cb_config = config', cb_state = CircuitStateClosed,
              cb_consecutiveFailures = 0, cb_halfOpenRequests = 0,
              cb_lastFailureTime = zero_time, cb_lastStateChange = now, cb_openedAt = zero_time,
              cb_totalSuccesses = 0, cb_totalFailures = 0, cb_totalRejections = 0\<rparr>))"

definition NewCircuitBreaker :: "int \<Rightarrow> Duration \<Rightarrow> Duration \<Rightarrow> Time \<Rightarrow> error + standardCircuitBreaker" where
  "NewCircuitBreaker maxFailures timeout resetTimeout now =
     NewCircuitBreakerWithConfig
       \<lparr>cfg_MaxFailures = maxFailures, cfg_Timeout = timeout, cfg_ResetTimeout = resetTimeout,
        cfg_MaxHalfOpenRequests = 1\<rparr> now"

text \<open>The \<^verbatim>\<open>CircuitStateHalfOpen\<close> case, which the open case falls through to.\<close>

definition admitHalfOpen :: "standardCircuitBreaker \<Rightarrow> error option \<times> standardCircuitBreaker" where
  "admitHalfOpen cb =
     (if cb_halfOpenRequests cb \<ge> cfg_MaxHalfOpenRequests (cb_config cb)
        then (Some (Sentinel ErrTooManyRequests), cb\<lparr>cb_totalRejections := cb_totalRejections cb + 1\<rparr>)
      else (None, cb\<lparr>cb_halfOpenRequests := cb_halfOpenRequests cb + 1\<rparr>))"

definition beforeRequest :: "Time \<Rightarrow> standardCircuitBreaker \<Rightarrow> error option \<times> standardCircuitBreaker" where
  "beforeRequest now cb =
     (case cb_state cb of
        CircuitStateClosed \<Rightarrow>
          (None, if time_sub now (cb_lastFailureTime cb) > cfg_ResetTimeout (cb_config cb)
                 then cb\<lparr>cb_consecutiveFailures := 0\<rparr> else cb)
      | CircuitStateOpen \<Rightarrow>
          (if time_sub now (cb_openedAt cb) \<ge> cfg_Timeout (cb_config cb)
           then admitHalfOpen (cb\<lparr>cb_state := CircuitStateHalfOpen, cb_halfOpenRequests := 0,
                                  cb_lastStateChange := now\<rparr>)
           else (Some (Sentinel ErrCircuitOpen), cb\<lparr>cb_totalRejections := cb_totalRejections cb + 1\<rparr>))
      | CircuitStateHalfOpen \<Rightarrow> admitHalfOpen cb)"

definition openCircuit :: "Time \<Rightarrow> standardCircuitBreaker \<Rightarrow> standardCircuitBreaker" where
  "openCircuit now cb = cb\<lparr>cb_state := CircuitStateOpen, cb_openedAt := now,
     cb_lastStateChange := now, cb_halfOpenRequests := 0\<rparr>"

definition closeCircuit :: "Time \<Rightarrow> standardCircuitBreaker \<Rightarrow> standardCircuitBreaker" where
  "closeCircuit now cb = cb\<lparr>cb_state := CircuitStateClosed, cb_consecutiveFailures := 0,
     cb_halfOpenRequests := 0, cb_lastStateChange := now\<rparr>"

definition afterRequest :: "Time \<Rightarrow> error option \<Rightarrow> standardCircuitBreaker \<Rightarrow> standardCircuitBreaker" where
  "afterRequest now err cb =
     (case err of
        Some e \<Rightarrow>
          (let cb1 = cb\<lparr>cb_totalFailures := cb_totalFailures cb + 1,
                        cb_consecutiveFailures := cb_consecutiveFailures cb + 1,
                        cb_lastFailureTime := now\<rparr>
           in (case cb_state cb1 of
                 CircuitStateHalfOpen \<Rightarrow> openCircuit now cb1
               | CircuitStateClosed \<Rightarrow>
                   (if cb_consecutiveFailures cb1 \<ge> cfg_MaxFailures (cb_config cb1)
                    then openCircuit now cb1 else cb1)
               | CircuitStateOpen \<Rightarrow> cb1))
      | None \<Rightarrow>
          (let cb1 = cb\<lparr>cb_totalSuccesses := cb_totalSuccesses cb + 1\<rparr>
           in (case cb_state cb1 of
                 CircuitStateHalfOpen \<Rightarrow> closeCircuit now cb1
               | CircuitStateClosed \<Rightarrow> cb1\<lparr>cb_consecutiveFailures := 0\<rparr>
               | CircuitStateOpen \<Rightarrow> cb1)))"

text \<open>
  \<^verbatim>\<open>Execute\<close> over a world \<open>'w\<close>: \<open>clock\<close> is \<^verbatim>\<open>time.Now\<close>, \<open>ctx_err\<close> is \<^verbatim>\<open>ctx.Err\<close> and
  \<open>fn\<close> is the guarded function.
\<close>

definition Execute ::
  "('w \<Rightarrow> Time \<times> 'w) \<Rightarrow> ('w \<Rightarrow> error option) \<Rightarrow> ('w \<Rightarrow> error option \<times> 'w) \<Rightarrow>
   standardCircuitBreaker \<Rightarrow> 'w \<Rightarrow> error option \<times> standardCircuitBreaker \<times> 'w" where
  "Execute clock ctx_err fn cb w =
     (case ctx_err w of
        Some err \<Rightarrow> (Some err, cb, w)
      | None \<Rightarrow>
          (let (t1, w1) = clock w; (rejected, cb1) = beforeRequest t1 cb
           in (case rejected of
                 Some err \<Rightarrow> (Some err, cb1, w1)
               | None \<Rightarrow>
                   (let (err, w2) = fn w1; (t2, w3) = clock w2
                    in (err, afterRequest t2 err cb1, w3)))))"

definition cb_State :: "standardCircuitBreaker \<Rightarrow> CircuitState" where
  "cb_State cb = cb_state cb"

definition cb_GetStats :: "Time \<Rightarrow> standardCircuitBreaker \<Rightarrow> CircuitBreakerStats" where
  "cb_GetStats now cb =
     (let elapsed = time_sub now (cb_openedAt cb) in
      \<lparr>cbs_State = cb_state cb, cbs_ConsecutiveFailures = cb_consecutiveFailures cb,
       cbs_TotalSuccesses = cb_totalSuccesses cb, cbs_TotalFailures = cb_totalFailures cb,
       cbs_TotalRejections = cb_totalRejections cb, cbs_LastFailureTime = cb_lastFailureTime cb,
       cbs_LastStateChange = cb_lastStateChange cb, cbs_OpenedAt = cb_openedAt cb,
       cbs_TimeUntilNextAttempt =
         (if cb_state cb = CircuitStateOpen \<and> elapsed < cfg_Timeout (cb_config cb)
          then cfg_Timeout (cb_config cb) - elapsed else 0)\<rparr>)"

definition cb_Reset :: "Time \<Rightarrow> standardCircuitBreaker \<Rightarrow> standardCircuitBreaker" where
  "cb_Reset now cb = cb\<lparr>cb_state := CircuitStateClosed, cb_consecutiveFailures := 0,
     cb_halfOpenRequests := 0, cb_lastStateChange := now\<rparr>"

section \<open>Concurrent callers\<close>

text \<open>
  A system state is the breaker, the current time and the requests whose guarded function
  is running; \<open>True\<close> marks a request that was admitted as a half-open trial.  A request
  enters with \<open>beforeRequest\<close> and leaves with \<open>afterRequest\<close>; in between, other requests
  enter and leave and the clock advances.
\<close>

record cbsys =
  sys_cb :: standardCircuitBreaker
  sys_now :: Time
  sys_flight :: "bool multiset"

inductive cb_step :: "cbsys \<Rightarrow> cbsys \<Rightarrow> bool" where
  admit: "beforeRequest (sys_now s) (sys_cb s) = (None, cb') \<Longrightarrow>
     cb_step s (s\<lparr>sys_cb := cb',
       sys_flight := add_mset (cb_state cb' = CircuitStateHalfOpen) (sys_flight s)\<rparr>)"
| reject: "beforeRequest (sys_now s) (sys_cb s) = (Some e, cb') \<Longrightarrow>
     cb_step s (s\<lparr>sys_cb := cb'\<rparr>)"
| finish: "k \<in># sys_flight s \<Longrightarrow>
     cb_step s (s\<lparr>sys_cb := afterRequest (sys_now s) err (sys_cb s),
       sys_flight := sys_flight s - {#k#}\<rparr>)"
| reset: "cb_step s (s\<lparr>sys_cb := cb_Reset (sys_now s) (sys_cb s)\<rparr>)"
| tick: "sys_now s \<le> t \<Longrightarrow> cb_step s (s\<lparr>sys_now := t\<rparr>)"

inductive cb_reach :: "cbsys \<Rightarrow> bool" where
  start: "NewCircuitBreakerWithConfig config now = Inr cb \<Longrightarrow>
     cb_reach \<lparr>sys_cb = cb, sys_now = now, sys_flight = {#}\<rparr>"
| step: "cb_reach s \<Longrightarrow> cb_step s t \<Longrightarrow> cb_reach t"

text \<open>The transitions the documentation of \<^verbatim>\<open>CircuitState\<close> describes, without \<^verbatim>\<open>Reset\<close>.\<close>

inductive legal_move :: "CircuitState \<Rightarrow> CircuitState \<Rightarrow> bool" where
  stay: "legal_move s s"
| trip: "legal_move CircuitStateClosed CircuitStateOpen"
| probe: "legal_move CircuitStateOpen CircuitStateHalfOpen"
| reopen: "legal_move CircuitStateHalfOpen CircuitStateOpen"
| close: "legal_move CircuitStateHalfOpen CircuitStateClosed"

inductive_simps legal_move_simps: "legal_move a b"

section \<open>Invariants\<close>

text \<open>What the fields keep true between operations.\<close>

definition cb_inv :: "standardCircuitBreaker \<Rightarrow> bool" where
  "cb_inv cb \<longleftrightarrow>
     0 < cfg_MaxFailures (cb_config cb) \<and> 0 < cfg_Timeout (cb_config cb) \<and>
     0 < cfg_ResetTimeout (cb_config cb) \<and> 0 < cfg_MaxHalfOpenRequests (cb_config cb) \<and>
     0 \<le> cb_consecutiveFailures cb \<and> 0 \<le> cb_halfOpenRequests cb \<and>
     cb_halfOpenRequests cb \<le> cfg_MaxHalfOpenRequests (cb_config cb) \<and>
     (cb_state cb = CircuitStateClosed \<longrightarrow> cb_consecutiveFailures cb < cfg_MaxFailures (cb_config cb)) \<and>
     (cb_state cb \<noteq> CircuitStateHalfOpen \<longrightarrow> cb_halfOpenRequests cb = 0) \<and>
     (cb_state cb = CircuitStateHalfOpen \<longrightarrow> 0 < cb_halfOpenRequests cb)"

lemmas cb_op_defs [step_defs] =
  beforeRequest_def admitHalfOpen_def afterRequest_def openCircuit_def closeCircuit_def cb_Reset_def

lemma NewCircuitBreaker_inv: "NewCircuitBreakerWithConfig config now = Inr cb \<Longrightarrow> cb_inv cb"
  by (auto simp: NewCircuitBreakerWithConfig_def cb_inv_def Let_def split: if_splits)

lemma beforeRequest_inv: "cb_inv cb \<Longrightarrow> beforeRequest now cb = (r, cb') \<Longrightarrow> cb_inv cb'"
  by (auto simp: cb_inv_def cb_op_defs split: CircuitState.splits if_splits)

lemma afterRequest_inv: "cb_inv cb \<Longrightarrow> cb_inv (afterRequest now err cb)"
  by (auto simp: cb_inv_def cb_op_defs Let_def split: CircuitState.splits option.splits)

lemma cb_Reset_inv: "cb_inv cb \<Longrightarrow> cb_inv (cb_Reset now cb)"
  by (auto simp: cb_inv_def cb_op_defs)

lemma beforeRequest_legal:
  "beforeRequest now cb = (r, cb') \<Longrightarrow> legal_move (cb_state cb) (cb_state cb')"
  by (auto simp: cb_op_defs legal_move_simps split: CircuitState.splits if_splits)

lemma afterRequest_legal: "legal_move (cb_state cb) (cb_state (afterRequest now err cb))"
  by (auto simp: cb_op_defs legal_move_simps Let_def split: CircuitState.splits option.splits)

lemma op_config [simp]:
  "cb_config (snd (beforeRequest now cb)) = cb_config cb"
  "cb_config (afterRequest now err cb) = cb_config cb"
  by (auto simp: cb_op_defs Let_def split: CircuitState.splits option.splits)

text \<open>
  The invariant of the concurrent system: the breaker's own invariant, and while it is
  half-open every counted trial slot belongs to a trial that is still running.
\<close>

definition sys_inv :: "cbsys \<Rightarrow> bool" where
  "sys_inv s \<longleftrightarrow> cb_inv (sys_cb s) \<and>
     (cb_state (sys_cb s) = CircuitStateHalfOpen \<longrightarrow>
        cb_halfOpenRequests (sys_cb s) \<le> int (count (sys_flight s) True))"

lemma beforeRequest_slots:
  assumes "beforeRequest now cb = (None, cb')" and "cb_state cb' = CircuitStateHalfOpen"
  shows "cb_halfOpenRequests cb' =
           (if cb_state cb = CircuitStateHalfOpen then cb_halfOpenRequests cb + 1 else 1)"
  using assms by (auto simp: cb_op_defs split: CircuitState.splits if_splits)

lemma beforeRequest_reject_slots:
  assumes "beforeRequest now cb = (Some e, cb')" and "cb_inv cb"
  shows "cb_state cb' = cb_state cb \<and> cb_halfOpenRequests cb' = cb_halfOpenRequests cb"
  using assms by (auto simp: cb_op_defs cb_inv_def split: CircuitState.splits if_splits)

lemma afterRequest_not_half_open: "cb_state (afterRequest now err cb) \<noteq> CircuitStateHalfOpen"
  by (auto simp: cb_op_defs Let_def split: CircuitState.splits option.splits)

lemma cb_Reset_state [simp]: "cb_state (cb_Reset now cb) = CircuitStateClosed"
  by (simp add: cb_Reset_def)

lemma cb_step_inv: "cb_step s t \<Longrightarrow> sys_inv s \<Longrightarrow> sys_inv t"
proof (induction rule: cb_step.induct)
  case (admit s cb')
  then have "cb_inv cb'" by (auto simp: sys_inv_def intro: beforeRequest_inv)
  with admit show ?case
    using beforeRequest_slots [OF admit.hyps] by (auto simp: sys_inv_def)
next
  case (reject s e cb')
  then show ?case
    using beforeRequest_reject_slots [OF reject.hyps] beforeRequest_inv [OF _ reject.hyps]
    by (auto simp: sys_inv_def)
next
  case (finish k s err)
  then show ?case
    by (simp add: sys_inv_def afterRequest_inv afterRequest_not_half_open)
next
  case (reset s)
  then show ?case by (simp add: sys_inv_def cb_Reset_inv)
qed (auto simp: sys_inv_def)

lemma cb_reach_inv: "cb_reach s \<Longrightarrow> sys_inv s"
proof (induction rule: cb_reach.induct)
  case (start config now cb)
  then have "cb_inv cb" and "cb_state cb = CircuitStateClosed"
    by (auto simp: NewCircuitBreaker_inv) (auto simp: NewCircuitBreakerWithConfig_def Let_def split: if_splits)
  then show ?case by (simp add: sys_inv_def)
qed (rule cb_step_inv)

section \<open>Runs\<close>

text \<open>A sequence of requests, each with its two clock readings, whose functions all fail.\<close>

fun failing :: "error \<Rightarrow> (Time \<times> Time) list \<Rightarrow> standardCircuitBreaker \<Rightarrow> standardCircuitBreaker" where
  "failing e [] cb = cb"
| "failing e ((t1, t2) # ts) cb = failing e ts (afterRequest t2 (Some e) (snd (beforeRequest t1 cb)))"

text \<open>No request starts more than \<open>d\<close> after the previous failure.\<close>

fun close_together :: "Duration \<Rightarrow> Time \<Rightarrow> (Time \<times> Time) list \<Rightarrow> bool" where
  "close_together d t [] = True"
| "close_together d t ((t1, t2) # ts) = (time_sub t1 t \<le> d \<and> close_together d t2 ts)"

lemma failing_closed:
  assumes "cb_state cb = CircuitStateClosed" and "close_together (cfg_ResetTimeout (cb_config cb)) (cb_lastFailureTime cb) ts"
    and "cb_consecutiveFailures cb < cfg_MaxFailures (cb_config cb)"
    and "cb_consecutiveFailures cb + int (length ts) \<le> cfg_MaxFailures (cb_config cb)"
  shows "cb_state (failing e ts cb) =
           (if cb_consecutiveFailures cb + int (length ts) = cfg_MaxFailures (cb_config cb)
            then CircuitStateOpen else CircuitStateClosed)"
  using assms
proof (induction ts arbitrary: cb)
  case Nil
  then show ?case by simp
next
  case (Cons p ts)
  obtain t1 t2 where p: "p = (t1, t2)" by (cases p)
  let ?cb = "cb\<lparr>cb_totalFailures := cb_totalFailures cb + 1,
    cb_consecutiveFailures := cb_consecutiveFailures cb + 1, cb_lastFailureTime := t2\<rparr>"
  have before: "snd (beforeRequest t1 cb) = cb"
    using Cons.prems by (simp add: p beforeRequest_def)
  show ?case
  proof (cases "cb_consecutiveFailures cb + 1 = cfg_MaxFailures (cb_config cb)")
    case True
    have "int (length (p # ts)) = 1 + int (length ts)" by simp
    with True Cons.prems(4) have "int (length ts) \<le> 0" by linarith
    then have "ts = []" by simp
    with True Cons.prems before show ?thesis
      by (simp add: p afterRequest_def openCircuit_def)
  next
    case False
    with Cons.prems have "afterRequest t2 (Some e) cb = ?cb"
      by (simp add: afterRequest_def)
    with before False Cons.prems Cons.IH [of ?cb] show ?thesis by (simp add: p add.assoc)
  qed
qed

text \<open>An executable form of the step relation, for concrete runs.\<close>

datatype cb_act = Admit | Finish bool "error option" | Tick Time

fun cb_exec :: "cb_act \<Rightarrow> cbsys \<Rightarrow> cbsys option" where
  "cb_exec Admit s =
     (case beforeRequest (sys_now s) (sys_cb s) of
        (None, cb') \<Rightarrow> Some (s\<lparr>sys_cb := cb',
           sys_flight := add_mset (cb_state cb' = CircuitStateHalfOpen) (sys_flight s)\<rparr>)
      | (Some e, cb') \<Rightarrow> None)"
| "cb_exec (Finish k err) s =
     (if k \<in># sys_flight s
      then Some (s\<lparr>sys_cb := afterRequest (sys_now s) err (sys_cb s),
             sys_flight := sys_flight s - {#k#}\<rparr>)
      else None)"
| "cb_exec (Tick t) s = (if sys_now s \<le> t then Some (s\<lparr>sys_now := t\<rparr>) else None)"

fun cb_execs :: "cb_act list \<Rightarrow> cbsys \<Rightarrow> cbsys option" where
  "cb_execs [] s = Some s"
| "cb_execs (a # as) s = (case cb_exec a s of None \<Rightarrow> None | Some t \<Rightarrow> cb_execs as t)"

lemma cb_exec_step: "cb_exec a s = Some t \<Longrightarrow> cb_step s t"
  by (cases a) (auto intro: cb_step.intros split: prod.splits option.splits if_splits)

lemma cb_execs_reach: "cb_reach s \<Longrightarrow> cb_execs as s = Some t \<Longrightarrow> cb_reach t"
  by (induction as arbitrary: s) (auto dest: cb_exec_step cb_reach.step split: option.splits)

definition demo_config :: CircuitBreakerConfig where
  "demo_config = \<lparr>cfg_MaxFailures = 1, cfg_Timeout = 10, cfg_ResetTimeout = 10,
     cfg_MaxHalfOpenRequests = 1\<rparr>"

definition demo_sys :: cbsys where
  "demo_sys = \<lparr>sys_cb = \<lparr>cb_config = demo_config, cb_state = CircuitStateClosed,
     cb_consecutiveFailures = 0, cb_halfOpenRequests = 0, cb_lastFailureTime = zero_time,
     cb_lastStateChange = 1000, cb_openedAt = zero_time, cb_totalSuccesses = 0,
     cb_totalFailures = 0, cb_totalRejections = 0\<rparr>, sys_now = 1000, sys_flight = {#}\<rparr>"

lemma demo_reach: "cb_reach demo_sys"
  unfolding demo_sys_def
  by (rule cb_reach.start [of demo_config])
    (simp add: NewCircuitBreakerWithConfig_def demo_config_def)

text \<open>
  Two requests are admitted while the breaker is closed; the first fails and opens it,
  a trial is admitted after the timeout.
\<close>

definition demo_trial :: "cb_act list" where
  "demo_trial = [Admit, Admit, Finish False (Some (Opaque ''x'')), Tick 1010, Admit]"

lemmas demo_eval =
  demo_sys_def demo_config_def demo_trial_def cb_op_defs time_sub_def min_int64_def max_int64_def
  zero_time_def

section \<open>Properties\<close>



text \<open>
   A sequential \<^verbatim>\<open>Execute\<close> on an open breaker: before \<^verbatim>\<open>Timeout\<close> has elapsed the guarded
  function is not run, the caller gets \<^verbatim>\<open>ErrCircuitOpen\<close> and only the rejection counter
  changes; from then on the request runs as the trial and its outcome alone decides the
  next state, closed on success and open again on failure.
\<close>

theorem Execute_open:
  assumes "cb_state cb = CircuitStateOpen" and "0 < cfg_MaxHalfOpenRequests (cb_config cb)"
    and "ctx_err w = None" and "clock w = (t1, w1)" and "fn w1 = (err, w2)" and "clock w2 = (t2, w3)"
  shows "if time_sub t1 (cb_openedAt cb) < cfg_Timeout (cb_config cb)
    then Execute clock ctx_err fn cb w =
           (Some (Sentinel ErrCircuitOpen), cb\<lparr>cb_totalRejections := cb_totalRejections cb + 1\<rparr>, w1)
    else (\<exists>cb'. Execute clock ctx_err fn cb w = (err, cb', w3) \<and>
            cb_state cb' = (if err = None then CircuitStateClosed else CircuitStateOpen) \<and>
            (err \<noteq> None \<longrightarrow> cb_openedAt cb' = t2))"
  using assms by (auto simp: Execute_def cb_op_defs Let_def split: option.splits)

theorem Execute_open_witness:
  "Execute (\<lambda>w. (w, w)) (\<lambda>w. None) (\<lambda>w. (None, w))
     ((sys_cb demo_sys)\<lparr>cb_state := CircuitStateOpen, cb_openedAt := 1000\<rparr>) 1005 =
   (Some (Sentinel ErrCircuitOpen),
    (sys_cb demo_sys)\<lparr>cb_state := CircuitStateOpen, cb_openedAt := 1000, cb_totalRejections := 1\<rparr>, 1005)"
  using Execute_open [of "(sys_cb demo_sys)\<lparr>cb_state := CircuitStateOpen, cb_openedAt := 1000\<rparr>"
      "\<lambda>w. None" 1005 "\<lambda>w. (w, w)" 1005 1005 "\<lambda>w. (None, w)" None 1005 1005 1005]
  by (simp add: demo_eval)

text \<open>
   Starting closed with no counted failure, a run of failing requests none of which
  starts later than \<^verbatim>\<open>ResetTimeout\<close> after the previous failure opens the breaker at exactly
  the \<^verbatim>\<open>MaxFailures\<close>-th one.
\<close>

theorem trips_at_MaxFailures:
  assumes "cb_state cb = CircuitStateClosed" and "cb_consecutiveFailures cb = 0"
    and "close_together (cfg_ResetTimeout (cb_config cb)) t2 ts"
    and "int (length ts) + 1 \<le> cfg_MaxFailures (cb_config cb)"
  shows "cb_state (failing e ((t1, t2) # ts) cb) =
           (if int (length ts) + 1 = cfg_MaxFailures (cb_config cb)
            then CircuitStateOpen else CircuitStateClosed)"
proof (cases "cfg_MaxFailures (cb_config cb) = 1")
  case True
  with assms have "ts = []" by simp
  with True assms show ?thesis by (simp add: cb_op_defs)
next
  case False
  let ?cb = "afterRequest t2 (Some e) (snd (beforeRequest t1 cb))"
  from False assms have "cb_state ?cb = CircuitStateClosed" "cb_consecutiveFailures ?cb = 1"
      "cb_lastFailureTime ?cb = t2" "cb_config ?cb = cb_config cb"
    by (auto simp: cb_op_defs)
  with False assms show ?thesis by (simp add: failing_closed add.commute)
qed

theorem trips_at_MaxFailures_witness:
  "cb_state (failing (Opaque ''x'') [(1000, 1001), (1005, 1006), (1010, 1011)]
     ((sys_cb demo_sys)\<lparr>cb_config := demo_config\<lparr>cfg_MaxFailures := 3\<rparr>\<rparr>)) = CircuitStateOpen"
  using trips_at_MaxFailures [of "(sys_cb demo_sys)\<lparr>cb_config := demo_config\<lparr>cfg_MaxFailures := 3\<rparr>\<rparr>"
      1001 "[(1005, 1006), (1010, 1011)]" "Opaque ''x''" 1000]
  by (simp add: demo_eval)

text \<open>
   A half-open breaker cannot get stuck: in every reachable half-open state a trial is
  still running, and when it returns, with or without an error, the breaker leaves the
  half-open state.
\<close>

theorem half_open_not_stuck:
  assumes "cb_reach s" and "cb_state (sys_cb s) = CircuitStateHalfOpen"
  shows "True \<in># sys_flight s \<and>
    (\<forall>err. \<exists>t. cb_step s t \<and> sys_flight t = sys_flight s - {#True#} \<and>
       cb_state (sys_cb t) = (if err = None then CircuitStateClosed else CircuitStateOpen))"
proof -
  from cb_reach_inv [OF assms(1)] assms(2)
  have "0 < cb_halfOpenRequests (sys_cb s)" "cb_halfOpenRequests (sys_cb s) \<le> int (count (sys_flight s) True)"
    by (auto simp: sys_inv_def cb_inv_def)
  then have "0 < count (sys_flight s) True" by linarith
  then have "True \<in># sys_flight s" by (rule count_greater_zero_iff [THEN iffD1])
  moreover have "cb_state (afterRequest now err (sys_cb s)) =
      (if err = None then CircuitStateClosed else CircuitStateOpen)" for now err
    using assms(2) by (auto simp: cb_op_defs split: option.splits)
  ultimately show ?thesis using cb_step.finish [of True s] by fastforce
qed

theorem half_open_not_stuck_witness:
  "True \<in># sys_flight (the (cb_execs demo_trial demo_sys))"
proof -
  obtain t where t: "cb_execs demo_trial demo_sys = Some t"
      and half: "cb_state (sys_cb t) = CircuitStateHalfOpen"
    by (simp add: demo_eval)
  have "True \<in># sys_flight t"
    using half_open_not_stuck [OF cb_execs_reach [OF demo_reach t] half] by (rule conjunct1)
  then show ?thesis by (simp only: t option.sel)
qed

text \<open>
   \<^verbatim>\<open>MaxHalfOpenRequests\<close> does not bound the trial requests that run at the same time: a
  breaker configured with one trial can be half-open with two trials in flight, because a
  request admitted earlier that fails in the half-open state reopens the breaker and gives
  back the slot of a trial that is still running.
\<close>

theorem concurrent_trials_exceed_MaxHalfOpenRequests:
  "\<exists>s. cb_reach s \<and> cb_state (sys_cb s) = CircuitStateHalfOpen \<and>
     cfg_MaxHalfOpenRequests (cb_config (sys_cb s)) = 1 \<and> count (sys_flight s) True = 2"
proof -
  obtain t where t: "cb_execs (demo_trial @ [Finish False (Some (Opaque ''y'')), Tick 1020, Admit]) demo_sys = Some t"
    and "cb_state (sys_cb t) = CircuitStateHalfOpen"
    and "cfg_MaxHalfOpenRequests (cb_config (sys_cb t)) = 1" and "count (sys_flight t) True = 2"
    by (simp add: demo_eval)
  with cb_execs_reach [OF demo_reach t] show ?thesis by blast
qed

text \<open>
   A request that was admitted while the breaker was closed and succeeds late closes a
  half-open breaker although the trial request has not returned.
\<close>

theorem stale_success_closes:
  "\<exists>s t. cb_reach s \<and> cb_state (sys_cb s) = CircuitStateHalfOpen \<and> cb_step s t \<and>
     cb_state (sys_cb t) = CircuitStateClosed \<and> count (sys_flight t) True = count (sys_flight s) True"
proof -
  obtain s where s: "cb_execs demo_trial demo_sys = Some s"
    and half: "cb_state (sys_cb s) = CircuitStateHalfOpen" and "False \<in># sys_flight s"
    by (simp add: demo_eval)
  then have "cb_step s (s\<lparr>sys_cb := afterRequest (sys_now s) None (sys_cb s),
      sys_flight := sys_flight s - {#False#}\<rparr>)"
    by (intro cb_step.finish)
  moreover have "cb_state (afterRequest (sys_now s) None (sys_cb s)) = CircuitStateClosed"
    using half by (simp add: cb_op_defs)
  ultimately show ?thesis using cb_execs_reach [OF demo_reach s] half by fastforce
qed

end
