(* ===== verification/Grnoti_Dispatcher.thy ===== *)
theory Grnoti_Dispatcher
  imports Grnoti_Payload Grnoti_Batch Grnoti_Retry Grnoti_Circuit
begin

text \<open>
  The FCM dispatcher (\<^verbatim>\<open>dispatcher.fcm.go\<close>): sending one batch through the rate limiter and the
  circuit breaker, retrying it, sending the batches of one platform, and fanning out over
  the platforms.  What is outside the package (the FCM client, the limiter's wait, the clock,
  the context, the timer) acts on a world \<open>'w\<close> and is a parameter; the breaker is the one of
  \<^verbatim>\<open>circuitbreaker.go\<close> and its state is threaded.  The goroutines of the platform groups are
  serialised in the order in which they finish, which is arbitrary.
\<close>

section \<open>The environment\<close>

record SendResponse =
  sr_Success :: bool
  sr_Error :: "error option"

record BatchResponse =
  br_SuccessCount :: int
  br_FailureCount :: int
  br_Responses :: "SendResponse list"

text \<open>
  \<open>fe_sleep d\<close> is the \<^verbatim>\<open>select\<close> between \<^verbatim>\<open>ctx.Done()\<close> and \<^verbatim>\<open>time.After(d)\<close>: the context's error if
  it won.  \<open>fe_wait\<close> is \<^verbatim>\<open>RateLimiter.Wait\<close>, absent when no limiter is configured.
\<close>

record 'w FCMEnv =
  fe_multicast :: "MulticastMessage \<Rightarrow> 'w \<Rightarrow> (error + BatchResponse) \<times> 'w"
  fe_send :: "FCMMessage \<Rightarrow> 'w \<Rightarrow> (error + string) \<times> 'w"
  fe_wait :: "('w \<Rightarrow> error option \<times> 'w) option"
  fe_clock :: "'w \<Rightarrow> Time \<times> 'w"
  fe_ctx_err :: "'w \<Rightarrow> error option"
  fe_sleep :: "Duration \<Rightarrow> 'w \<Rightarrow> error option \<times> 'w"
  fe_inc_invalid :: "(int \<Rightarrow> 'w \<Rightarrow> 'w) option"
  fe_int63n :: "int \<Rightarrow> int"
  fe_is_code :: "FCMErrorCode \<Rightarrow> error \<Rightarrow> bool"

record 'w dstate =
  ds_cb :: "standardCircuitBreaker option"
  ds_w :: 'w

record FCMDispatcherConfig =
  fc_EnableRetry :: bool
  fc_MaxRetryAttempts :: int
  fc_RetryBaseDelay :: Duration
  fc_RetryMaxDelay :: Duration

definition DefaultFCMDispatcherConfig :: FCMDispatcherConfig where
  "DefaultFCMDispatcherConfig = \<lparr>fc_EnableRetry = True, fc_MaxRetryAttempts = 3,
     fc_RetryBaseDelay = 500 * Millisecond, fc_RetryMaxDelay = 5 * Second\<rparr>"

record 'w fcmDispatcher =
  fd_env :: "'w FCMEnv"
  fd_retryStrategy :: RetryStrategy
  fd_config :: FCMDispatcherConfig

definition FCMMaxBatchSize :: int where
  "FCMMaxBatchSize = 500"

text \<open>\<open>None\<close> stands for a nil client.\<close>

definition NewFCMDispatcher :: "'w FCMEnv option \<Rightarrow> FCMDispatcherConfig \<Rightarrow> error + 'w fcmDispatcher" where
  "NewFCMDispatcher client config =
     (case client of
        None \<Rightarrow> Inl (Sentinel ErrFCMClientNil)
      | Some env \<Rightarrow>
          (if fc_EnableRetry config \<and> fc_MaxRetryAttempts config \<le> 0
           then Inl (Opaque ''grnoti/fcm: FCMDispatcherConfig.MaxRetryAttempts must be > 0 when EnableRetry is true'')
           else Inr \<lparr>fd_env = env,
             fd_retryStrategy =
               (if fc_EnableRetry config
                then fullJitterRetry (fc_MaxRetryAttempts config) (fc_RetryBaseDelay config) (fc_RetryMaxDelay config)
                else noopRetryStrategy),
             fd_config = config\<rparr>))"

section \<open>One batch\<close>

text \<open>
  \<^verbatim>\<open>sendFn\<close> run directly or inside \<^verbatim>\<open>CircuitBreaker.Execute\<close>.  The variable that the closure
  assigns is the second component of the world the breaker runs in; it starts as nil.
\<close>

definition guarded ::
  "'w FCMEnv \<Rightarrow> ('w \<Rightarrow> (error + 'r) \<times> 'w) \<Rightarrow> 'w dstate \<Rightarrow> (error option \<times> 'r option) \<times> 'w dstate" where
  "guarded env call st =
     (let sendFn = (\<lambda>(w, resp). case call w of
                      (Inl e, w') \<Rightarrow> (Some e, w', None) | (Inr r, w') \<Rightarrow> (None, w', Some r))
      in (case ds_cb st of
            None \<Rightarrow> (case sendFn (ds_w st, None) of
                      (err, w', resp) \<Rightarrow> ((err, resp), st\<lparr>ds_w := w'\<rparr>))
          | Some cb \<Rightarrow>
              (case Execute (\<lambda>(w, resp). case fe_clock env w of (t, w') \<Rightarrow> (t, w', resp))
                      (\<lambda>(w, resp). fe_ctx_err env w) sendFn cb (ds_w st, None) of
                 (err, cb', w', resp) \<Rightarrow> ((err, resp), st\<lparr>ds_cb := Some cb', ds_w := w'\<rparr>))))"

text \<open>The loop over \<^verbatim>\<open>resp.Responses\<close>; \<^verbatim>\<open>fids[idx]\<close> out of range panics.\<close>

fun classify_loop ::
  "(FCMErrorCode \<Rightarrow> error \<Rightarrow> bool) \<Rightarrow> string list \<Rightarrow> nat \<Rightarrow> SendResponse list \<Rightarrow> DispatchResult \<Rightarrow> DispatchResult go" where
  "classify_loop is_code fids idx [] result = Ret result"
| "classify_loop is_code fids idx (sr # srs) result =
     (if sr_Success sr \<or> sr_Error sr = None then classify_loop is_code fids (idx + 1) srs result
      else if idx \<ge> length fids then Panic ''index out of range''
      else
        (let fcmErr = classifyFCMError is_code (the (sr_Error sr)) (fids ! idx);
             r1 = result\<lparr>dr_Errors := dr_Errors result @ [fcmErr]\<rparr>;
             r2 = (if fcm_IsPermanent fcmErr then r1\<lparr>dr_InvalidFIDs := dr_InvalidFIDs r1 @ [fids ! idx]\<rparr>
                   else if fcm_IsRetryable fcmErr then r1\<lparr>dr_RetryableErrors := dr_RetryableErrors r1 + 1\<rparr>
                   else r1)
         in classify_loop is_code fids (idx + 1) srs r2))"

definition limiter_wait :: "'w FCMEnv \<Rightarrow> 'w dstate \<Rightarrow> error option \<times> 'w dstate" where
  "limiter_wait env st =
     (case fe_wait env of None \<Rightarrow> (None, st)
      | Some wait \<Rightarrow> (case wait (ds_w st) of (e, w') \<Rightarrow> (e, st\<lparr>ds_w := w'\<rparr>)))"

text \<open>The clock is read while the message is built only for an APNS part with a TTL.\<close>

definition build_clock :: "'w FCMEnv \<Rightarrow> bool \<Rightarrow> Message \<Rightarrow> 'w dstate \<Rightarrow> Time \<times> 'w dstate" where
  "build_clock env apns msg st =
     (if apns \<and> msg_TTL msg > 0
      then (case fe_clock env (ds_w st) of (t, w') \<Rightarrow> (t, st\<lparr>ds_w := w'\<rparr>)) else (zero_time, st))"

definition sendBatch ::
  "'w fcmDispatcher \<Rightarrow> Device list \<Rightarrow> Message \<Rightarrow> Platform \<Rightarrow> 'w dstate \<Rightarrow>
   (DispatchResult \<times> error option) go \<times> 'w dstate" where
  "sendBatch d devices msg platform st =
     (let env = fd_env d in
      case limiter_wait env st of
        (Some err, st1) \<Rightarrow>
          (Ret (zero_result\<lparr>dr_FailureCount := int (length devices),
                  dr_Errors := [Wrap ''grnoti/fcm: rate limiter wait: '' err []]\<rparr>, Some err), st1)
      | (None, st1) \<Rightarrow>
          (let fids = map dev_FID devices;
               (now, st2) = build_clock env (platform = PlatformIOS) msg st1;
               multicastMsg = buildMulticastMessage now fids msg platform
           in (case guarded env (fe_multicast env multicastMsg) st2 of
                 ((Some err, resp), st3) \<Rightarrow>
                   (Ret (zero_result\<lparr>dr_FailureCount := int (length devices), dr_Errors := [err]\<rparr>, Some err), st3)
               | ((None, None), st3) \<Rightarrow> (Panic ''nil pointer dereference'', st3)
               | ((None, Some resp), st3) \<Rightarrow>
                   ((case classify_loop (fe_is_code env) fids 0 (br_Responses resp)
                            (zero_result\<lparr>dr_SuccessCount := br_SuccessCount resp,
                                         dr_FailureCount := br_FailureCount resp\<rparr>) of
                       Panic p \<Rightarrow> Panic p | Ret r \<Rightarrow> Ret (r, None)), st3))))"

section \<open>Retries, platforms, fan-out\<close>

text \<open>The loop of \<^verbatim>\<open>sendBatchWithRetry\<close>, with \<open>n\<close> iterations left.\<close>

fun retry_loop ::
  "'w fcmDispatcher \<Rightarrow> Device list \<Rightarrow> Message \<Rightarrow> Platform \<Rightarrow> nat \<Rightarrow> int \<Rightarrow> DispatchResult \<Rightarrow> 'w dstate \<Rightarrow>
   DispatchResult go \<times> 'w dstate" where
  "retry_loop d devices msg platform 0 attempt result st = (Ret result, st)"
| "retry_loop d devices msg platform (Suc n) attempt result st =
     (let send = (\<lambda>st. case sendBatch d devices msg platform st of
                    (Panic p, st') \<Rightarrow> (Panic p, st')
                  | (Ret (r, lastErr), st') \<Rightarrow>
                      (let shouldRetry = (case lastErr of
                              Some e \<Rightarrow> ShouldRetry (fd_retryStrategy d) attempt lastErr
                            | None \<Rightarrow> dr_RetryableErrors r > 0)
                       in if \<not> shouldRetry then (Ret r, st')
                          else retry_loop d devices msg platform n (attempt + 1) r st'))
      in if attempt > 0
         then (case GetDelay (fe_int63n (fd_env d)) (fd_retryStrategy d) (attempt - 1) of
                 Panic p \<Rightarrow> (Panic p, st)
               | Ret delay \<Rightarrow>
                   (case fe_sleep (fd_env d) delay (ds_w st) of
                      (Some err, w') \<Rightarrow> (Ret (result\<lparr>dr_Errors := dr_Errors result @ [err]\<rparr>), st\<lparr>ds_w := w'\<rparr>)
                    | (None, w') \<Rightarrow> send (st\<lparr>ds_w := w'\<rparr>)))
         else send st)"

definition sendBatchWithRetry ::
  "'w fcmDispatcher \<Rightarrow> Device list \<Rightarrow> Message \<Rightarrow> Platform \<Rightarrow> 'w dstate \<Rightarrow> DispatchResult go \<times> 'w dstate" where
  "sendBatchWithRetry d devices msg platform st =
     retry_loop d devices msg platform (nat (fc_MaxRetryAttempts (fd_config d))) 0 zero_result st"

text \<open>The five fields that both merging loops add up.\<close>

definition add_counts :: "DispatchResult \<Rightarrow> DispatchResult \<Rightarrow> DispatchResult" where
  "add_counts result r = result\<lparr>
     dr_SuccessCount := dr_SuccessCount result + dr_SuccessCount r,
     dr_FailureCount := dr_FailureCount result + dr_FailureCount r,
     dr_InvalidFIDs := dr_InvalidFIDs result @ dr_InvalidFIDs r,
     dr_RetryableErrors := dr_RetryableErrors result + dr_RetryableErrors r,
     dr_Errors := dr_Errors result @ dr_Errors r\<rparr>"

definition send_one_batch ::
  "'w fcmDispatcher \<Rightarrow> Device list \<Rightarrow> Message \<Rightarrow> Platform \<Rightarrow> 'w dstate \<Rightarrow> DispatchResult go \<times> 'w dstate" where
  "send_one_batch d batch msg platform st =
     (if fc_EnableRetry (fd_config d) then sendBatchWithRetry d batch msg platform st
      else (case sendBatch d batch msg platform st of
              (Panic p, st') \<Rightarrow> (Panic p, st') | (Ret (r, e), st') \<Rightarrow> (Ret r, st')))"

fun batches_loop ::
  "'w fcmDispatcher \<Rightarrow> Message \<Rightarrow> Platform \<Rightarrow> Device list list \<Rightarrow> DispatchResult \<Rightarrow> 'w dstate \<Rightarrow>
   DispatchResult go \<times> 'w dstate" where
  "batches_loop d msg platform [] result st = (Ret result, st)"
| "batches_loop d msg platform (batch # batches) result st =
     (case fe_ctx_err (fd_env d) (ds_w st) of
        Some err \<Rightarrow>
          batches_loop d msg platform batches
            (result\<lparr>dr_FailureCount := dr_FailureCount result + int (length batch),
                    dr_Errors := dr_Errors result @ [err]\<rparr>) st
      | None \<Rightarrow>
          (case send_one_batch d batch msg platform st of
             (Panic p, st') \<Rightarrow> (Panic p, st')
           | (Ret r, st') \<Rightarrow> batches_loop d msg platform batches (add_counts result r) st'))"

definition sendPlatformBatches ::
  "'w fcmDispatcher \<Rightarrow> Device list \<Rightarrow> Message \<Rightarrow> Platform \<Rightarrow> 'w dstate \<Rightarrow> DispatchResult go \<times> 'w dstate" where
  "sendPlatformBatches d devices msg platform st =
     (case Split devices FCMMaxBatchSize of
        Panic p \<Rightarrow> (Panic p, st)
      | Ret batches \<Rightarrow> batches_loop d msg platform batches zero_result st)"

text \<open>Grouping by platform, with the default for an unset platform.\<close>

definition device_platform :: "Device \<Rightarrow> Platform" where
  "device_platform dev = (if dev_Platform dev = [] then PlatformAndroid else dev_Platform dev)"

fun group_loop :: "(Platform, Device list) gomap \<Rightarrow> Device list \<Rightarrow> (Platform, Device list) gomap" where
  "group_loop m [] = m"
| "group_loop m (dev # devs) =
     (let p = device_platform dev in
      group_loop (AList.update p ((case map_of m p of None \<Rightarrow> [] | Some ds \<Rightarrow> ds) @ [dev]) m) devs)"

text \<open>The groups, each a goroutine, in the order in which they take the mutex.\<close>

fun fanout_loop ::
  "'w fcmDispatcher \<Rightarrow> Message \<Rightarrow> (Platform \<times> Device list) list \<Rightarrow> DispatchResult \<Rightarrow> 'w dstate \<Rightarrow>
   DispatchResult go \<times> 'w dstate" where
  "fanout_loop d msg [] result st = (Ret result, st)"
| "fanout_loop d msg ((platform, devs) # groups) result st =
     (case sendPlatformBatches d devs msg platform st of
        (Panic p, st') \<Rightarrow> (Panic p, st')
      | (Ret r, st') \<Rightarrow>
          fanout_loop d msg groups
            ((add_counts result r)\<lparr>
               dr_SuccessByPlatform := bump platform (dr_SuccessCount r) (dr_SuccessByPlatform result),
               dr_FailureByPlatform := bump platform (dr_FailureCount r) (dr_FailureByPlatform result)\<rparr>) st')"

text \<open>\<open>order\<close> is the order in which the goroutines finish, a permutation of the groups.\<close>

definition fcm_Send ::
  "'w fcmDispatcher \<Rightarrow> ((Platform \<times> Device list) list \<Rightarrow> (Platform \<times> Device list) list) \<Rightarrow>
   Device list \<Rightarrow> Message \<Rightarrow> 'w dstate \<Rightarrow> (DispatchResult \<times> error option) go \<times> 'w dstate" where
  "fcm_Send d order devices msg st =
     (if length devices = 0 then (Ret (zero_result, None), st)
      else case ValidateSize msg of
        Some err \<Rightarrow>
          (Ret (zero_result\<lparr>dr_FailureCount := int (length devices), dr_Errors := [err]\<rparr>, Some err), st)
      | None \<Rightarrow>
          (case fanout_loop d msg (order (group_loop [] (Deduplicate devices))) zero_result st of
             (Panic p, st') \<Rightarrow> (Panic p, st')
           | (Ret result, st') \<Rightarrow>
               (Ret (result, None),
                (case fe_inc_invalid (fd_env d) of
                   Some inc \<Rightarrow> if length (dr_InvalidFIDs result) > 0
                               then st'\<lparr>ds_w := inc (int (length (dr_InvalidFIDs result))) (ds_w st')\<rparr> else st'
                 | None \<Rightarrow> st'))))"

definition SendToDevice ::
  "'w fcmDispatcher \<Rightarrow> Device \<Rightarrow> Message \<Rightarrow> 'w dstate \<Rightarrow> error option \<times> 'w dstate" where
  "SendToDevice d device msg st =
     (let env = fd_env d in
      case ValidateSize msg of
        Some err \<Rightarrow> (Some err, st)
      | None \<Rightarrow>
          (case limiter_wait env st of
             (Some err, st1) \<Rightarrow> (Some (Wrap ''grnoti/fcm: rate limiter wait: '' err []), st1)
           | (None, st1) \<Rightarrow>
               (let (now, st2) = build_clock env (dev_Platform device = PlatformIOS) msg st1;
                    fcmMsg = buildFCMMessage now (dev_FID device) msg (dev_Platform device)
                in (case guarded env (fe_send env fcmMsg) st2 of
                      ((Some err, resp), st3) \<Rightarrow>
                        (Some (classifyFCMError (fe_is_code env) err (dev_FID device)), st3)
                    | ((None, resp), st3) \<Rightarrow> (None, st3)))))"

definition SendToTopic ::
  "'w fcmDispatcher \<Rightarrow> string \<Rightarrow> Message \<Rightarrow> 'w dstate \<Rightarrow> error option \<times> 'w dstate" where
  "SendToTopic d topic msg st =
     (let env = fd_env d in
      case ValidateSize msg of
        Some err \<Rightarrow> (Some err, st)
      | None \<Rightarrow>
          (case limiter_wait env st of
             (Some err, st1) \<Rightarrow> (Some (Wrap ''grnoti/fcm: rate limiter wait: '' err []), st1)
           | (None, st1) \<Rightarrow>
               (let (now, st2) = build_clock env True msg st1;
                    fcmMsg = buildTopicMessage now topic msg
                in (case guarded env (fe_send env fcmMsg) st2 of
                      ((Some err, resp), st3) \<Rightarrow> (Some err, st3)
                    | ((None, resp), st3) \<Rightarrow> (None, st3)))))"

section \<open>What is assumed of the FCM client\<close>

text \<open>
  The SDK's documentation of \<^verbatim>\<open>SendEachForMulticast\<close>: one response per FID, in order; a response
  is a success exactly if it has no error; the counts are the numbers of either kind.
\<close>

definition batch_response_ok :: "string list \<Rightarrow> BatchResponse \<Rightarrow> bool" where
  "batch_response_ok fids resp \<longleftrightarrow>
     length (br_Responses resp) = length fids \<and>
     list_all (\<lambda>r. sr_Success r = (sr_Error r = None)) (br_Responses resp) \<and>
     br_SuccessCount resp = int (length (filter sr_Success (br_Responses resp))) \<and>
     br_FailureCount resp = int (length (filter (\<lambda>r. \<not> sr_Success r) (br_Responses resp)))"

definition client_ok :: "'w FCMEnv \<Rightarrow> bool" where
  "client_ok env \<longleftrightarrow>
     (\<forall>m w resp w'. fe_multicast env m w = (Inr resp, w') \<longrightarrow> batch_response_ok (mm_Fids m) resp)"

section \<open>Accounting\<close>

text \<open>
  A result accounts for the devices \<open>devs\<close>: every one is a success or a failure, the invalid
  FIDs are theirs, and invalid and retryable failures are disjoint parts of the failures.
\<close>

definition accounts :: "Device list \<Rightarrow> DispatchResult \<Rightarrow> bool" where
  "accounts devs r \<longleftrightarrow>
     TotalCount r = int (length devs) \<and> 0 \<le> dr_SuccessCount r \<and> 0 \<le> dr_RetryableErrors r \<and>
     set (dr_InvalidFIDs r) \<subseteq> dev_FID ` set devs \<and>
     int (length (dr_InvalidFIDs r)) + dr_RetryableErrors r \<le> dr_FailureCount r"

lemma accounts_append:
  "accounts xs a \<Longrightarrow> accounts ys b \<Longrightarrow> accounts (xs @ ys) (add_counts a b)"
  by (auto simp: accounts_def add_counts_def TotalCount_def)

lemma accounts_all_failed:
  "accounts devs (zero_result\<lparr>dr_FailureCount := int (length devs), dr_Errors := es\<rparr>)"
  by (simp add: accounts_def TotalCount_def)

lemma accounts_Nil: "accounts [] zero_result"
  by (simp add: accounts_def)

lemma accounts_errors [simp]: "accounts devs (r\<lparr>dr_Errors := es\<rparr>) = accounts devs r"
  by (simp add: accounts_def TotalCount_def)

lemma accounts_platforms [simp]:
  "accounts devs (r\<lparr>dr_SuccessByPlatform := m, dr_FailureByPlatform := n\<rparr>) = accounts devs r"
  by (simp add: accounts_def TotalCount_def)

lemma accounts_mset: "mset xs = mset ys \<Longrightarrow> accounts xs r = accounts ys r"
  unfolding accounts_def by (metis set_mset_mset size_mset)

lemma accounts_skip:
  "accounts xs a \<Longrightarrow> accounts (xs @ ys)
     (a\<lparr>dr_FailureCount := dr_FailureCount a + int (length ys), dr_Errors := es\<rparr>)"
  by (auto simp: accounts_def TotalCount_def)

section \<open>Lemmas\<close>

lemma classify_loop_Ret:
  assumes "idx + length srs \<le> length fids" "list_all (\<lambda>r. sr_Success r = (sr_Error r = None)) srs"
  shows "\<exists>r xs k. classify_loop is_code fids idx srs r0 = Ret r \<and>
           dr_SuccessCount r = dr_SuccessCount r0 \<and> dr_FailureCount r = dr_FailureCount r0 \<and>
           dr_InvalidFIDs r = dr_InvalidFIDs r0 @ xs \<and> set xs \<subseteq> set fids \<and>
           dr_RetryableErrors r = dr_RetryableErrors r0 + int k \<and>
           length xs + k \<le> length (filter (\<lambda>r. \<not> sr_Success r) srs)"
  using assms
proof (induction srs arbitrary: idx r0)
  case (Cons sr srs)
  show ?case
  proof (cases "sr_Success sr \<or> sr_Error sr = None")
    case True
    then have "sr_Success sr" using Cons.prems(2) by simp
    with Cons.IH [of "idx + 1" r0] Cons.prems True show ?thesis by simp
  next
    case False
    then obtain er where er: "sr_Error sr = Some er" "\<not> sr_Success sr" by auto
    let ?e = "classifyFCMError is_code er (fids ! idx)"
    let ?r1 = "r0\<lparr>dr_Errors := dr_Errors r0 @ [?e]\<rparr>"
    have idx: "idx < length fids" using Cons.prems(1) by simp
    have step: "classify_loop is_code fids idx (sr # srs) r0 = classify_loop is_code fids (idx + 1) srs
       (if fcm_IsPermanent ?e then ?r1\<lparr>dr_InvalidFIDs := dr_InvalidFIDs ?r1 @ [fids ! idx]\<rparr>
        else if fcm_IsRetryable ?e then ?r1\<lparr>dr_RetryableErrors := dr_RetryableErrors ?r1 + 1\<rparr> else ?r1)"
      using er idx by (simp add: Let_def)
    have pre: "idx + 1 + length srs \<le> length fids" "list_all (\<lambda>r. sr_Success r = (sr_Error r = None)) srs"
      using Cons.prems by simp_all
    consider (p) "fcm_IsPermanent ?e" | (q) "\<not> fcm_IsPermanent ?e" "fcm_IsRetryable ?e"
      | (n) "\<not> fcm_IsPermanent ?e" "\<not> fcm_IsRetryable ?e" by blast
    then show ?thesis
    proof cases
      case p
      from Cons.IH [OF pre, of "?r1\<lparr>dr_InvalidFIDs := dr_InvalidFIDs ?r1 @ [fids ! idx]\<rparr>"]
      obtain r xs k where r: "classify_loop is_code fids (idx + 1) srs
            (?r1\<lparr>dr_InvalidFIDs := dr_InvalidFIDs ?r1 @ [fids ! idx]\<rparr>) = Ret r"
        "dr_SuccessCount r = dr_SuccessCount r0" "dr_FailureCount r = dr_FailureCount r0"
        "dr_InvalidFIDs r = dr_InvalidFIDs r0 @ (fids ! idx) # xs" "set xs \<subseteq> set fids"
        "dr_RetryableErrors r = dr_RetryableErrors r0 + int k"
        "length xs + k \<le> length (filter (\<lambda>r. \<not> sr_Success r) srs)" by auto
      show ?thesis
        by (rule exI [of _ r], rule exI [of _ "(fids ! idx) # xs"], rule exI [of _ k])
          (use r p er idx step in simp)
    next
      case q
      from Cons.IH [OF pre, of "?r1\<lparr>dr_RetryableErrors := dr_RetryableErrors ?r1 + 1\<rparr>"]
      obtain r xs k where r: "classify_loop is_code fids (idx + 1) srs
            (?r1\<lparr>dr_RetryableErrors := dr_RetryableErrors ?r1 + 1\<rparr>) = Ret r"
        "dr_SuccessCount r = dr_SuccessCount r0" "dr_FailureCount r = dr_FailureCount r0"
        "dr_InvalidFIDs r = dr_InvalidFIDs r0 @ xs" "set xs \<subseteq> set fids"
        "dr_RetryableErrors r = dr_RetryableErrors r0 + 1 + int k"
        "length xs + k \<le> length (filter (\<lambda>r. \<not> sr_Success r) srs)" by auto
      show ?thesis
        by (rule exI [of _ r], rule exI [of _ xs], rule exI [of _ "Suc k"])
          (use r q er step in simp)
    next
      case n
      from Cons.IH [OF pre, of ?r1] n er step show ?thesis by fastforce
    qed
  qed
qed simp

text \<open>The response of a call that returned without error was produced by the client.\<close>

lemma guarded_resp:
  assumes "guarded env call st = ((None, resp), st')"
  shows "\<exists>r w w'. resp = Some r \<and> call w = (Inr r, w')"
  using assms
  by (auto simp: guarded_def Execute_def Let_def split: option.splits prod.splits sum.splits)

lemma sendBatch_accounts:
  assumes "client_ok (fd_env d)"
  shows "\<exists>r e st'. sendBatch d devs msg platform st = (Ret (r, e), st') \<and> accounts devs r"
proof (cases "limiter_wait (fd_env d) st")
  case (Pair lerr st1)
  show ?thesis
  proof (cases lerr)
    case (Some err)
    with Pair show ?thesis by (simp add: sendBatch_def Let_def accounts_all_failed del: accounts_errors)
  next
    case None
    obtain now st2 where bc: "build_clock (fd_env d) (platform = PlatformIOS) msg st1 = (now, st2)" by fastforce
    let ?m = "buildMulticastMessage now (map dev_FID devs) msg platform"
    obtain err resp st3 where g: "guarded (fd_env d) (fe_multicast (fd_env d) ?m) st2 = ((err, resp), st3)"
      by (metis surj_pair)
    show ?thesis
    proof (cases err)
      case (Some e)
      with None Pair bc g show ?thesis by (simp add: sendBatch_def Let_def accounts_all_failed del: accounts_errors)
    next
      case err: None
      with guarded_resp g obtain r w w' where r: "resp = Some r" "fe_multicast (fd_env d) ?m w = (Inr r, w')"
        by blast
      with assms have ok: "batch_response_ok (map dev_FID devs) r"
        unfolding client_ok_def by (fastforce simp: buildMulticastMessage_def)
      obtain r' xs k where c: "classify_loop (fe_is_code (fd_env d)) (map dev_FID devs) 0 (br_Responses r)
            (zero_result\<lparr>dr_SuccessCount := br_SuccessCount r, dr_FailureCount := br_FailureCount r\<rparr>) = Ret r'"
        "dr_SuccessCount r' = br_SuccessCount r" "dr_FailureCount r' = br_FailureCount r"
        "dr_InvalidFIDs r' = xs" "set xs \<subseteq> set (map dev_FID devs)" "dr_RetryableErrors r' = int k"
        "length xs + k \<le> length (filter (\<lambda>r. \<not> sr_Success r) (br_Responses r))"
        using classify_loop_Ret [of 0 "br_Responses r" "map dev_FID devs" "fe_is_code (fd_env d)"
            "zero_result\<lparr>dr_SuccessCount := br_SuccessCount r, dr_FailureCount := br_FailureCount r\<rparr>"] ok
        by (auto simp: batch_response_ok_def)
      have "accounts devs r'"
        using c(2-7) ok sum_length_filter_compl [of sr_Success "br_Responses r"]
        by (simp add: accounts_def TotalCount_def batch_response_ok_def)
      with None Pair bc g err r(1) c(1) show ?thesis by (simp add: sendBatch_def Let_def)
    qed
  qed
qed

text \<open>
  A dispatcher as the constructor returns it, over a client that keeps its documentation and a
  generator that keeps its range, with a maximal delay below the largest duration.
\<close>

definition disp_ok :: "'w fcmDispatcher \<Rightarrow> bool" where
  "disp_ok d \<longleftrightarrow> client_ok (fd_env d) \<and> int63n_ok (fe_int63n (fd_env d)) \<and>
     NewFCMDispatcher (Some (fd_env d)) (fd_config d) = Inr d \<and>
     fc_RetryMaxDelay (fd_config d) < max_int64"

lemma disp_ok_delay:
  assumes "disp_ok d"
  shows "\<exists>t. GetDelay (fe_int63n (fd_env d)) (fd_retryStrategy d) a = Ret t"
proof (cases "fd_retryStrategy d")
  case (fullJitterRetry mxa b m)
  with assms have "int63n_ok (fe_int63n (fd_env d))" "m < max_int64"
    by (auto simp: disp_ok_def NewFCMDispatcher_def split: if_splits) (metis RetryStrategy.distinct(1)
        RetryStrategy.inject fcmDispatcher.select_convs(2))+
  then show ?thesis
    using FullJitterBackoff_Ret [of "fe_int63n (fd_env d)" b m "if a < 0 then 0 else a"] fullJitterRetry
    by (cases "b \<le> 0") (auto simp: FullJitterBackoff_def)
qed simp

lemma retry_loop_accounts:
  assumes "disp_ok d" "0 \<le> attempt" "attempt > 0 \<Longrightarrow> accounts devs r0" "n = 0 \<Longrightarrow> attempt > 0"
  shows "\<exists>r st'. retry_loop d devs msg platform n attempt r0 st = (Ret r, st') \<and> accounts devs r"
  using assms
proof (induction n arbitrary: attempt r0 st)
  case (Suc n)
  have send: "\<exists>r st'. (case sendBatch d devs msg platform st of
       (Panic p, st') \<Rightarrow> (Panic p, st')
     | (Ret (r, lastErr), st') \<Rightarrow>
         (let shouldRetry = (case lastErr of
              Some e \<Rightarrow> ShouldRetry (fd_retryStrategy d) attempt lastErr
            | None \<Rightarrow> dr_RetryableErrors r > 0)
          in if \<not> shouldRetry then (Ret r, st')
             else retry_loop d devs msg platform n (attempt + 1) r st')) = (Ret r, st') \<and> accounts devs r" for st
  proof -
    from Suc.prems(1) have "client_ok (fd_env d)" by (simp add: disp_ok_def)
    from sendBatch_accounts [OF this] obtain r e st1 where
      "sendBatch d devs msg platform st = (Ret (r, e), st1)" "accounts devs r" by blast
    then show ?thesis
      using Suc.IH [OF Suc.prems(1), of "attempt + 1" r st1] Suc.prems(2) by (simp add: Let_def)
  qed
  show ?case
  proof (cases "attempt > 0")
    case False
    with send [of st] show ?thesis by simp
  next
    case True
    obtain t where t: "GetDelay (fe_int63n (fd_env d)) (fd_retryStrategy d) (attempt - 1) = Ret t"
      using disp_ok_delay [OF Suc.prems(1)] by blast
    obtain se w' where sl: "fe_sleep (fd_env d) t (ds_w st) = (se, w')" by fastforce
    show ?thesis
    proof (cases se)
      case None
      with True t sl send [of "st\<lparr>ds_w := w'\<rparr>"] show ?thesis by simp
    next
      case (Some err)
      with True t sl Suc.prems(3) show ?thesis by simp
    qed
  qed
qed simp

lemma send_one_batch_accounts:
  assumes "disp_ok d"
  shows "\<exists>r st'. send_one_batch d devs msg platform st = (Ret r, st') \<and> accounts devs r"
proof (cases "fc_EnableRetry (fd_config d)")
  case True
  with assms have "fc_MaxRetryAttempts (fd_config d) > 0"
    by (auto simp: disp_ok_def NewFCMDispatcher_def split: if_splits)
  then have "nat (fc_MaxRetryAttempts (fd_config d)) \<noteq> 0" by simp
  with retry_loop_accounts [OF assms, of 0 devs zero_result] True show ?thesis
    by (simp add: send_one_batch_def sendBatchWithRetry_def)
next
  case False
  from assms have "client_ok (fd_env d)" by (simp add: disp_ok_def)
  from sendBatch_accounts [OF this, of devs msg platform st] False show ?thesis
    by (auto simp: send_one_batch_def)
qed

lemma batches_loop_accounts:
  assumes "disp_ok d" "accounts sent r0"
  shows "\<exists>r st'. batches_loop d msg platform batches r0 st = (Ret r, st') \<and> accounts (sent @ concat batches) r"
  using assms(2)
proof (induction batches arbitrary: sent r0 st)
  case (Cons batch batches)
  show ?case
  proof (cases "fe_ctx_err (fd_env d) (ds_w st)")
    case (Some err)
    with Cons.IH [OF accounts_skip [OF Cons.prems, of batch "dr_Errors r0 @ [err]"]] show ?thesis by simp
  next
    case None
    obtain r st1 where b: "send_one_batch d batch msg platform st = (Ret r, st1)" "accounts batch r"
      using send_one_batch_accounts [OF assms(1)] by blast
    with None Cons.IH [OF accounts_append [OF Cons.prems b(2)]] show ?thesis by simp
  qed
qed simp

lemma sendPlatformBatches_accounts:
  assumes "disp_ok d" "int (length devs) + FCMMaxBatchSize \<le> max_int64"
  shows "\<exists>r st'. sendPlatformBatches d devs msg platform st = (Ret r, st') \<and> accounts devs r"
proof (cases "devs = []")
  case True
  then show ?thesis
    using batches_loop_accounts [OF assms(1) accounts_Nil, of msg platform "[[]]" st]
    by (simp add: sendPlatformBatches_def)
next
  case False
  with Split_Ret [of FCMMaxBatchSize devs] assms(2) obtain bs where bs: "Split devs FCMMaxBatchSize = Ret bs"
    by (auto simp: FCMMaxBatchSize_def)
  with Split_concat [OF bs] batches_loop_accounts [OF assms(1) accounts_Nil, of msg platform bs st]
  show ?thesis by (simp add: sendPlatformBatches_def)
qed

text \<open>Grouping keeps the devices, and each group is the devices of its platform.\<close>

definition lookup0 :: "(Platform, int) gomap \<Rightarrow> Platform \<Rightarrow> int" where
  "lookup0 m p = (case map_of m p of None \<Rightarrow> 0 | Some n \<Rightarrow> n)"

lemma lookup0_bump [simp]: "lookup0 (bump p n m) q = lookup0 m q + (if p = q then n else 0)"
  by (simp add: lookup0_def bump_def split: option.split)

lemma group_loop_ok: "map_ok m \<Longrightarrow> map_ok (group_loop m ds)"
  by (induction m ds rule: group_loop.induct) (simp_all add: Let_def)

lemma group_loop_lookup:
  "map_of (group_loop m ds) p =
     (let mine = filter (\<lambda>d. device_platform d = p) ds in
      if mine = [] then map_of m p else Some ((case map_of m p of None \<Rightarrow> [] | Some old \<Rightarrow> old) @ mine))"
proof (induction m ds rule: group_loop.induct)
  case (2 m dev devs)
  then show ?case by (auto simp: Let_def split: option.splits)
qed simp

lemma mset_concat_update:
  "map_ok m \<Longrightarrow> mset (concat (map snd (AList.update k v m))) +
       (case map_of m k of None \<Rightarrow> {#} | Some w \<Rightarrow> mset w) =
     mset (concat (map snd m)) + mset v"
proof (induction m)
  case (Cons p m)
  then have "map_ok m" by (simp add: map_ok_def)
  with Cons.IH show ?case by (cases p) (simp add: add.assoc add.commute add.left_commute)
qed simp

lemma group_loop_mset: "map_ok m \<Longrightarrow> mset (concat (map snd (group_loop m ds))) = mset (concat (map snd m)) + mset ds"
proof (induction m ds rule: group_loop.induct)
  case (2 m dev devs)
  let ?p = "device_platform dev"
  let ?old = "case map_of m ?p of None \<Rightarrow> [] | Some ds \<Rightarrow> ds"
  have "mset (concat (map snd (AList.update ?p (?old @ [dev]) m))) = mset (concat (map snd m)) + {#dev#}"
    using mset_concat_update [OF "2.prems", of ?p "?old @ [dev]"] by (simp split: option.splits)
  with "2.IH" [OF refl] "2.prems" show ?case by (simp add: Let_def)
qed simp

text \<open>
  The fan-out: the totals account for all groups, the per-platform counters add up to the
  totals, and each platform's counters account for the devices of its groups.
\<close>

definition platform_accounts :: "(Platform \<times> Device list) list \<Rightarrow> DispatchResult \<Rightarrow> bool" where
  "platform_accounts groups r \<longleftrightarrow>
     accounts (concat (map snd groups)) r \<and>
     map_ok (dr_SuccessByPlatform r) \<and> map_ok (dr_FailureByPlatform r) \<and>
     gsum (dr_SuccessByPlatform r) = dr_SuccessCount r \<and> gsum (dr_FailureByPlatform r) = dr_FailureCount r \<and>
     (\<forall>p. lookup0 (dr_SuccessByPlatform r) p + lookup0 (dr_FailureByPlatform r) p =
            int (length (concat (map snd (filter (\<lambda>g. fst g = p) groups)))))"

lemma platform_accounts_Nil: "platform_accounts [] zero_result"
  by (simp add: platform_accounts_def accounts_Nil lookup0_def)

lemma platform_accounts_snoc:
  assumes "platform_accounts groups r0" "accounts devs r"
  shows "platform_accounts (groups @ [(p, devs)])
     ((add_counts r0 r)\<lparr>dr_SuccessByPlatform := bump p (dr_SuccessCount r) (dr_SuccessByPlatform r0),
                        dr_FailureByPlatform := bump p (dr_FailureCount r) (dr_FailureByPlatform r0)\<rparr>)"
proof -
  have t: "dr_SuccessCount r + dr_FailureCount r = int (length devs)"
    using assms(2) by (simp add: accounts_def TotalCount_def)
  have "accounts (concat (map snd (groups @ [(p, devs)]))) (add_counts r0 r)"
    using accounts_append [OF _ assms(2)] assms(1) by (simp add: platform_accounts_def)
  moreover have "dr_SuccessCount (add_counts r0 r) = dr_SuccessCount r0 + dr_SuccessCount r"
    "dr_FailureCount (add_counts r0 r) = dr_FailureCount r0 + dr_FailureCount r"
    by (simp_all add: add_counts_def)
  moreover have "lookup0 (dr_SuccessByPlatform r0) p + lookup0 (dr_FailureByPlatform r0) p =
      int (length (concat (map snd (filter (\<lambda>g. fst g = p) groups))))"
    using assms(1) unfolding platform_accounts_def by blast
  then have "lookup0 (dr_SuccessByPlatform r0) p + dr_SuccessCount r +
        (lookup0 (dr_FailureByPlatform r0) p + dr_FailureCount r) =
        int (length (concat (map snd (filter (\<lambda>g. fst g = p) groups)))) + int (length devs)"
    using t by linarith
  ultimately show ?thesis using assms(1) t by (auto simp: platform_accounts_def)
qed

lemma fanout_loop_accounts:
  assumes "disp_ok d" "platform_accounts sent r0"
    "\<forall>g \<in> set groups. int (length (snd g)) + FCMMaxBatchSize \<le> max_int64"
  shows "\<exists>r st'. fanout_loop d msg groups r0 st = (Ret r, st') \<and> platform_accounts (sent @ groups) r"
  using assms(2,3)
proof (induction groups arbitrary: sent r0 st)
  case (Cons g groups)
  obtain p devs where g: "g = (p, devs)" by (cases g)
  have "int (length devs) + FCMMaxBatchSize \<le> max_int64" using Cons.prems(2) g by simp
  from sendPlatformBatches_accounts [OF assms(1) this] obtain r st1
    where r: "sendPlatformBatches d devs msg p st = (Ret r, st1)" "accounts devs r" by blast
  from Cons.IH [OF platform_accounts_snoc [OF Cons.prems(1) r(2)]] Cons.prems(2) r(1) g
  show ?case by simp
qed simp

lemma filter_key:
  "map_ok m \<Longrightarrow> filter (\<lambda>g. fst g = p) m = (case map_of m p of None \<Rightarrow> [] | Some v \<Rightarrow> [(p, v)])"
proof (induction m)
  case (Cons x m)
  then have ok: "map_ok m" and none: "map_of m (fst x) = None"
    by (auto simp: map_ok_def map_of_eq_None_iff)
  show ?case
  proof (cases "fst x = p")
    case True
    with Cons.IH [OF ok] none show ?thesis by (cases x) simp
  next
    case False
    with Cons.IH [OF ok] show ?thesis by simp
  qed
qed simp

lemma group_of_platform:
  assumes "mset groups = mset (group_loop [] ds)"
  shows "length (concat (map snd (filter (\<lambda>g. fst g = p) groups))) =
         length (filter (\<lambda>d. device_platform d = p) ds)"
proof -
  let ?G = "group_loop [] ds"
  let ?mine = "filter (\<lambda>d. device_platform d = p) ds"
  have ok: "map_ok ?G" by (rule group_loop_ok) simp
  have "mset (filter (\<lambda>g. fst g = p) groups) = mset (filter (\<lambda>g. fst g = p) ?G)"
    using assms by (simp add: mset_filter)
  then have "length (concat (map snd (filter (\<lambda>g. fst g = p) groups))) =
      length (concat (map snd (filter (\<lambda>g. fst g = p) ?G)))"
    by (metis (no_types, lifting) length_concat mset_map sum_mset_sum_list)
  also have "filter (\<lambda>g. fst g = p) ?G = (case map_of ?G p of None \<Rightarrow> [] | Some v \<Rightarrow> [(p, v)])"
    by (rule filter_key [OF ok])
  finally show ?thesis by (simp add: group_loop_lookup Let_def)
qed

section \<open>What reaches the client\<close>

text \<open>
  \<open>frame env P I J\<close>: \<open>I\<close> holds between the calls to FCM, \<open>J\<close> from a wait of the limiter that succeeded to the call it was for.
  Every operation of the environment keeps both; a call uses up \<open>J\<close>, a multicast at least for the messages in \<open>P\<close>.  A send
  that keeps \<open>I\<close> for all of these hands only messages in \<open>P\<close> to the client, each after a wait of its own.
\<close>

definition frame :: "'w FCMEnv \<Rightarrow> (MulticastMessage \<Rightarrow> bool) \<Rightarrow> ('w \<Rightarrow> bool) \<Rightarrow> ('w \<Rightarrow> bool) \<Rightarrow> bool" where
  "frame env P I J \<longleftrightarrow>
     (\<forall>m w. P m \<longrightarrow> J w \<longrightarrow> I (snd (fe_multicast env m w))) \<and>
     (\<forall>m w. J w \<longrightarrow> I (snd (fe_send env m w))) \<and>
     (case fe_wait env of
        None \<Rightarrow> \<forall>w. I w \<longrightarrow> J w
      | Some wait \<Rightarrow> \<forall>w. I w \<longrightarrow> (if fst (wait w) = None then J (snd (wait w)) else I (snd (wait w)))) \<and>
     (\<forall>w. J w \<longrightarrow> I w) \<and>
     (\<forall>w. I w \<longrightarrow> I (snd (fe_clock env w))) \<and> (\<forall>w. J w \<longrightarrow> J (snd (fe_clock env w))) \<and>
     (\<forall>t w. I w \<longrightarrow> I (snd (fe_sleep env t w))) \<and>
     (\<forall>inc n w. fe_inc_invalid env = Some inc \<longrightarrow> I w \<longrightarrow> I (inc n w))"

lemma frame_limiter:
  assumes "frame env P I J" "I (ds_w st)" "limiter_wait env st = (e, st')"
  shows "if e = None then J (ds_w st') else I (ds_w st')"
  using assms by (auto simp: frame_def limiter_wait_def split: option.splits prod.splits)

lemma frame_build_clock:
  assumes "frame env P I J" "J (ds_w st)" "build_clock env b msg st = (now, st')"
  shows "J (ds_w st')"
  using assms by (auto simp: frame_def build_clock_def split: if_splits prod.splits)

lemma frame_guarded:
  assumes "frame env P I J" "\<And>w. J w \<Longrightarrow> I (snd (call w))" "J (ds_w st)"
  shows "I (ds_w (snd (guarded env call st)))"
proof -
  have clockI: "I w \<Longrightarrow> I (snd (fe_clock env w))" and clockJ: "J w \<Longrightarrow> J (snd (fe_clock env w))" and weak: "J w \<Longrightarrow> I w" for w
    using assms(1) by (auto simp: frame_def)
  show ?thesis
  proof (cases "ds_cb st")
    case None
    with assms(2) [OF assms(3)] show ?thesis
      by (auto simp: guarded_def Let_def split: prod.splits sum.splits)
  next
    case (Some cb)
    obtain t1 w1 where c1: "fe_clock env (ds_w st) = (t1, w1)" by fastforce
    obtain e cb1 where b: "beforeRequest t1 cb = (e, cb1)" by fastforce
    obtain x w2 where m: "call w1 = (x, w2)" by fastforce
    obtain t3 w3 where c3: "fe_clock env w2 = (t3, w3)" by fastforce
    have "J w1" using clockJ [OF assms(3)] c1 by simp
    moreover have "I w3" using clockI [of w2] assms(2) [OF \<open>J w1\<close>] m c3 by simp
    ultimately show ?thesis
      using Some c1 b m c3 weak [OF assms(3)] weak [OF \<open>J w1\<close>]
      by (cases "fe_ctx_err env (ds_w st)"; cases e; cases x) (simp_all add: guarded_def Execute_def Let_def)
  qed
qed

lemma frame_sendBatch:
  assumes "frame (fd_env d) P I J" "\<And>now. P (buildMulticastMessage now (map dev_FID devs) msg platform)" "I (ds_w st)"
  shows "I (ds_w (snd (sendBatch d devs msg platform st)))"
proof -
  obtain e st1 where l: "limiter_wait (fd_env d) st = (e, st1)" by fastforce
  obtain now st2 where b: "build_clock (fd_env d) (platform = PlatformIOS) msg st1 = (now, st2)" by fastforce
  let ?m = "buildMulticastMessage now (map dev_FID devs) msg platform"
  obtain err resp st3 where g: "guarded (fd_env d) (fe_multicast (fd_env d) ?m) st2 = ((err, resp), st3)"
    by (metis surj_pair)
  note waited = frame_limiter [OF assms(1,3) l]
  show ?thesis
  proof (cases e)
    case None
    have "J (ds_w st2)" by (rule frame_build_clock [OF assms(1) _ b]) (use waited None in simp)
    moreover have "J w \<Longrightarrow> I (snd (fe_multicast (fd_env d) ?m w))" for w
      using assms(1,2) by (simp add: frame_def)
    ultimately have "I (ds_w st3)" using frame_guarded [OF assms(1), of "fe_multicast (fd_env d) ?m" st2] g by simp
    with None l b g show ?thesis by (cases err; cases resp) (simp_all add: sendBatch_def Let_def)
  qed (use l waited in \<open>simp add: sendBatch_def Let_def\<close>)
qed

lemma frame_send:
  assumes "frame env P I J" "J (ds_w st)" "guarded env (fe_send env m) st = (x, st')"
  shows "I (ds_w st')"
  using frame_guarded [OF assms(1) _ assms(2), of "fe_send env m"] assms(1,3) by (simp add: frame_def)

lemma frame_SendToDevice:
  assumes "frame (fd_env d) P I J" "I (ds_w st)"
  shows "I (ds_w (snd (SendToDevice d device msg st)))"
proof -
  obtain e st1 where l: "limiter_wait (fd_env d) st = (e, st1)" by fastforce
  obtain now st2 where b: "build_clock (fd_env d) (dev_Platform device = PlatformIOS) msg st1 = (now, st2)" by fastforce
  obtain err resp st3 where g: "guarded (fd_env d) (fe_send (fd_env d)
      (buildFCMMessage now (dev_FID device) msg (dev_Platform device))) st2 = ((err, resp), st3)" by (metis surj_pair)
  have "I (ds_w st3)" if "e = None"
    using frame_limiter [OF assms l] that by (intro frame_send [OF assms(1) frame_build_clock [OF assms(1) _ b] g]) simp
  then show ?thesis using assms(2) frame_limiter [OF assms l] l b g
    by (cases e; cases err) (simp_all add: SendToDevice_def Let_def split: option.split)
qed

lemma frame_SendToTopic:
  assumes "frame (fd_env d) P I J" "I (ds_w st)"
  shows "I (ds_w (snd (SendToTopic d topic msg st)))"
proof -
  obtain e st1 where l: "limiter_wait (fd_env d) st = (e, st1)" by fastforce
  obtain now st2 where b: "build_clock (fd_env d) True msg st1 = (now, st2)" by fastforce
  obtain err resp st3 where g: "guarded (fd_env d) (fe_send (fd_env d) (buildTopicMessage now topic msg)) st2 =
      ((err, resp), st3)" by (metis surj_pair)
  have "I (ds_w st3)" if "e = None"
    using frame_limiter [OF assms l] that by (intro frame_send [OF assms(1) frame_build_clock [OF assms(1) _ b] g]) simp
  then show ?thesis using assms(2) frame_limiter [OF assms l] l b g
    by (cases e; cases err) (simp_all add: SendToTopic_def Let_def split: option.split)
qed

lemma frame_retry_loop:
  assumes "frame (fd_env d) P I J" "\<And>now. P (buildMulticastMessage now (map dev_FID devs) msg platform)" "I (ds_w st)"
  shows "I (ds_w (snd (retry_loop d devs msg platform n attempt r0 st)))"
  using assms(3)
proof (induction n arbitrary: attempt r0 st)
  case (Suc n)
  have send: "I (ds_w st) \<Longrightarrow> I (ds_w (snd (case sendBatch d devs msg platform st of
       (Panic p, st') \<Rightarrow> (Panic p, st')
     | (Ret (r, lastErr), st') \<Rightarrow>
         (let shouldRetry = (case lastErr of
              Some e \<Rightarrow> ShouldRetry (fd_retryStrategy d) attempt lastErr
            | None \<Rightarrow> dr_RetryableErrors r > 0)
          in if \<not> shouldRetry then (Ret r, st')
             else retry_loop d devs msg platform n (attempt + 1) r st'))))" for st
    using frame_sendBatch [OF assms(1,2), of st] Suc.IH by (auto simp: Let_def split: prod.splits go.splits)
  have sleep: "I (snd (fe_sleep (fd_env d) t (ds_w st)))" for t
    using assms(1) Suc.prems by (simp add: frame_def)
  show ?case
  proof (cases "attempt > 0")
    case False
    with send [OF Suc.prems] show ?thesis by simp
  next
    case True
    show ?thesis
    proof (cases "GetDelay (fe_int63n (fd_env d)) (fd_retryStrategy d) (attempt - 1)")
      case (Ret t)
      obtain se w' where sl: "fe_sleep (fd_env d) t (ds_w st) = (se, w')" by fastforce
      with sleep [of t] have "I w'" by simp
      with True Ret sl send [of "st\<lparr>ds_w := w'\<rparr>"] show ?thesis by (cases se) simp_all
    next
      case (Panic p)
      with True Suc.prems show ?thesis by simp
    qed
  qed
qed simp

lemma frame_send_one_batch:
  assumes "frame (fd_env d) P I J" "\<And>now. P (buildMulticastMessage now (map dev_FID devs) msg platform)" "I (ds_w st)"
  shows "I (ds_w (snd (send_one_batch d devs msg platform st)))"
  using frame_retry_loop [OF assms] frame_sendBatch [OF assms]
  by (auto simp: send_one_batch_def sendBatchWithRetry_def split: prod.splits go.splits)

lemma frame_batches_loop:
  assumes "frame (fd_env d) P I J" "I (ds_w st)"
    "\<And>b now. b \<in> set batches \<Longrightarrow> P (buildMulticastMessage now (map dev_FID b) msg platform)"
  shows "I (ds_w (snd (batches_loop d msg platform batches r0 st)))"
  using assms(2,3)
proof (induction batches arbitrary: r0 st)
  case (Cons b batches)
  obtain x st1 where b: "send_one_batch d b msg platform st = (x, st1)" by fastforce
  from frame_send_one_batch [OF assms(1) _ Cons.prems(1), of b] Cons.prems(2) b have "I (ds_w st1)"
    by (metis list.set_intros(1) snd_conv)
  with Cons b show ?case by (cases "fe_ctx_err (fd_env d) (ds_w st)"; cases x) simp_all
qed simp

text \<open>The messages of a send: at most 500 FIDs each, all of them of the given devices.\<close>

definition small_batch :: "string set \<Rightarrow> MulticastMessage \<Rightarrow> bool" where
  "small_batch F m \<longleftrightarrow> length (mm_Fids m) \<le> 500 \<and> set (mm_Fids m) \<subseteq> F \<and> distinct (mm_Fids m)"

lemma small_batch_split:
  assumes "Split devs FCMMaxBatchSize = Ret bs" "b \<in> set bs" "distinct (map dev_FID devs)"
    "dev_FID ` set devs \<subseteq> F"
  shows "small_batch F (buildMulticastMessage now (map dev_FID b) msg platform)"
proof -
  have le: "int (length b) \<le> FCMMaxBatchSize"
    using Split_batch_length [OF assms(1) _ assms(2)] by (simp add: FCMMaxBatchSize_def)
  obtain us vs where "bs = us @ b # vs" using split_list [OF assms(2)] by blast
  with Split_concat [OF assms(1)] have devs: "devs = concat us @ b @ concat vs" by simp
  show ?thesis using le assms(3,4) unfolding devs
    by (auto simp: small_batch_def buildMulticastMessage_def FCMMaxBatchSize_def)
qed

lemma frame_fanout:
  assumes "frame (fd_env d) (small_batch F) I J" "I (ds_w st)"
    "\<And>g. g \<in> set groups \<Longrightarrow> distinct (map dev_FID (snd g)) \<and> dev_FID ` set (snd g) \<subseteq> F"
  shows "I (ds_w (snd (fanout_loop d msg groups r0 st)))"
  using assms(2,3)
proof (induction groups arbitrary: r0 st)
  case (Cons g groups)
  obtain p devs where g: "g = (p, devs)" by (cases g)
  obtain x st1 where s: "sendPlatformBatches d devs msg p st = (x, st1)" by fastforce
  have "I (ds_w st1)"
  proof (cases "Split devs FCMMaxBatchSize")
    case (Ret bs)
    have "distinct (map dev_FID devs)" "dev_FID ` set devs \<subseteq> F" using Cons.prems(2) [of g] g by auto
    with small_batch_split [OF Ret] have b: "b \<in> set bs \<Longrightarrow>
        small_batch F (buildMulticastMessage now (map dev_FID b) msg p)" for b now by blast
    have "I (ds_w (snd (batches_loop d msg p bs zero_result st)))"
      by (rule frame_batches_loop [OF assms(1) Cons.prems(1) b])
    with Ret s show ?thesis by (simp add: sendPlatformBatches_def)
  next
    case (Panic q)
    with s Cons.prems(1) show ?thesis by (auto simp: sendPlatformBatches_def)
  qed
  with Cons g s show ?case by (cases x) simp_all
qed simp

lemma mset_concat_perm: "mset xs = mset ys \<Longrightarrow> mset (concat (map f xs)) = mset (concat (map f ys))"
proof -
  assume perm: "mset xs = mset ys"
  have "mset (concat (map f zs)) = sum_mset (image_mset (mset \<circ> f) (mset zs))" for zs
    by (induction zs) simp_all
  with perm show ?thesis by simp
qed

text \<open>Groups of deduplicated devices have distinct FIDs of the input.\<close>

lemma groups_of_dedup:
  assumes "mset groups = mset (group_loop [] (Deduplicate devices))" "g \<in> set groups"
  shows "distinct (map dev_FID (snd g)) \<and> dev_FID ` set (snd g) \<subseteq> dev_FID ` set devices \<and>
         length (snd g) \<le> length devices"
proof -
  let ?D = "Deduplicate devices"
  have "g \<in> set (group_loop [] ?D)" using assms by (metis set_mset_mset)
  then have "map_of (group_loop [] ?D) (fst g) = Some (snd g)"
    using map_ok_in_iff [OF group_loop_ok [OF map_ok_Nil]] by (metis prod.collapse)
  then have snd: "snd g = filter (\<lambda>d. device_platform d = fst g) ?D"
    by (simp add: group_loop_lookup Let_def split: if_splits)
  have "length (snd g) \<le> length ?D" unfolding snd by (rule length_filter_le)
  also have "length ?D \<le> length devices"
    by (metis Deduplicate_length card_image_le card_length finite_set le_trans)
  finally show ?thesis using Deduplicate_subset [of devices]
    by (auto simp: snd distinct_map_filter)
qed

lemma frame_fcm_Send:
  assumes "frame (fd_env d) (small_batch (dev_FID ` set devices)) I J"
    and "\<forall>gs. mset (order gs) = mset gs" and "I (ds_w st)"
  shows "I (ds_w (snd (fcm_Send d order devices msg st)))"
proof -
  let ?gs = "order (group_loop [] (Deduplicate devices))"
  have perm: "mset ?gs = mset (group_loop [] (Deduplicate devices))" using assms(2) by blast
  obtain x st1 where f: "fanout_loop d msg ?gs zero_result st = (x, st1)" by fastforce
  have "I (ds_w (snd (fanout_loop d msg ?gs zero_result st)))"
    by (rule frame_fanout [OF assms(1,3)]) (use groups_of_dedup [OF perm] in blast)
  with f have "I (ds_w st1)" by simp
  then show ?thesis using f assms(1,3)
    by (cases x) (auto simp: fcm_Send_def frame_def split: option.splits)
qed

lemma fcm_Send_accounts_platforms:
  assumes "disp_ok d" and "\<forall>gs. mset (order gs) = mset gs" and "ValidateSize msg = None"
    and "devices \<noteq> []" and "int (length devices) + FCMMaxBatchSize \<le> max_int64"
  shows "\<exists>r st'. fcm_Send d order devices msg st = (Ret (r, None), st') \<and> accounts (Deduplicate devices) r \<and>
    gsum (dr_SuccessByPlatform r) = dr_SuccessCount r \<and> gsum (dr_FailureByPlatform r) = dr_FailureCount r \<and>
    (\<forall>p. lookup0 (dr_SuccessByPlatform r) p + lookup0 (dr_FailureByPlatform r) p =
           int (length (filter (\<lambda>d. device_platform d = p) (Deduplicate devices))))"
proof -
  let ?D = "Deduplicate devices"
  let ?gs = "order (group_loop [] ?D)"
  have perm: "mset ?gs = mset (group_loop [] ?D)" using assms(2) by blast
  have "\<forall>g \<in> set ?gs. int (length (snd g)) + FCMMaxBatchSize \<le> max_int64"
    using groups_of_dedup [OF perm] assms(5) by force
  from fanout_loop_accounts [OF assms(1) platform_accounts_Nil this, of msg st] obtain r st1
    where r: "fanout_loop d msg ?gs zero_result st = (Ret r, st1)" "platform_accounts ?gs r" by auto
  have "mset (concat (map snd ?gs)) = mset (concat (map snd (group_loop [] ?D)))"
    by (rule mset_concat_perm [OF perm])
  then have "mset (concat (map snd ?gs)) = mset ?D" using group_loop_mset [of "[]" ?D] by simp
  from accounts_mset [OF this] r(2) have acc: "accounts ?D r" unfolding platform_accounts_def by blast
  have plat: "\<forall>p. lookup0 (dr_SuccessByPlatform r) p + lookup0 (dr_FailureByPlatform r) p =
      int (length (filter (\<lambda>d. device_platform d = p) ?D))"
    using r(2) unfolding platform_accounts_def group_of_platform [OF perm] by blast
  obtain st2 where "fcm_Send d order devices msg st = (Ret (r, None), st2)"
    using r(1) assms(3,4) by (simp add: fcm_Send_def)
  moreover have "gsum (dr_SuccessByPlatform r) = dr_SuccessCount r" "gsum (dr_FailureByPlatform r) = dr_FailureCount r"
    using r(2) by (simp_all add: platform_accounts_def)
  ultimately show ?thesis using plat acc by blast
qed

lemma fcm_Send_accounts:
  assumes "disp_ok d" and "\<forall>gs. mset (order gs) = mset gs" and "ValidateSize msg = None"
    and "devices \<noteq> []" and "int (length devices) + FCMMaxBatchSize \<le> max_int64"
  shows "\<exists>r st'. fcm_Send d order devices msg st = (Ret (r, None), st') \<and> accounts (Deduplicate devices) r"
  using fcm_Send_accounts_platforms [OF assms] by blast

section \<open>Properties\<close>


text \<open>
  C20. Every multicast that a send hands to the client carries at most 500 FIDs, without
  repetition, all of them of the request, and follows a wait of the limiter that succeeded and that no other call used, retries
  included: a send keeps every property of the world that the client keeps on such messages after such waits.
\<close>

theorem Send_batches_bounded:
  assumes "frame (fd_env d) (small_batch (dev_FID ` set devices)) I J"
    and "\<forall>gs. mset (order gs) = mset gs" and "I (ds_w st)"
  shows "I (ds_w (snd (fcm_Send d order devices msg st)))"
  by (rule frame_fcm_Send [OF assms])

text \<open>
  A client that logs the FIDs of every multicast: FIDs that start with \<open>c\<close> are delivered, those
  with \<open>d\<close> are temporarily unavailable, others are unregistered.
\<close>

definition demo_response :: "string \<Rightarrow> SendResponse" where
  "demo_response fid =
     (if hd fid = CHR ''c'' then \<lparr>sr_Success = True, sr_Error = None\<rparr>
      else if hd fid = CHR ''d'' then \<lparr>sr_Success = False, sr_Error = Some (Opaque ''unavailable'')\<rparr>
      else \<lparr>sr_Success = False, sr_Error = Some (Opaque ''unregistered'')\<rparr>)"

definition demo_multicast ::
  "MulticastMessage \<Rightarrow> string list list \<Rightarrow> (error + BatchResponse) \<times> string list list" where
  "demo_multicast m w =
     (let rs = map demo_response (mm_Fids m) in
      (Inr \<lparr>br_SuccessCount = int (length (filter sr_Success rs)),
            br_FailureCount = int (length (filter (\<lambda>r. \<not> sr_Success r) rs)), br_Responses = rs\<rparr>,
       w @ [mm_Fids m]))"

definition demo_env :: "string list list FCMEnv" where
  "demo_env = \<lparr>fe_multicast = demo_multicast, fe_send = (\<lambda>m w. (Inr [], w)), fe_wait = None,
     fe_clock = (\<lambda>w. (0, w)), fe_ctx_err = (\<lambda>w. None), fe_sleep = (\<lambda>t w. (None, w)),
     fe_inc_invalid = None, fe_int63n = (\<lambda>n. 0), 
     fe_is_code = (\<lambda>c e. c = FCMErrorCodeUnavailable \<and> e = Opaque ''unavailable'' \<or>
                          c = FCMErrorCodeUnregistered \<and> e = Opaque ''unregistered'')\<rparr>"

definition demo_dispatcher :: "string list list fcmDispatcher" where
  "demo_dispatcher = \<lparr>fd_env = demo_env,
     fd_retryStrategy = fullJitterRetry 3 (500 * Millisecond) (5 * Second),
     fd_config = DefaultFCMDispatcherConfig\<rparr>"

definition direct_fid :: "string \<Rightarrow> Device" where
  "direct_fid fid = \<lparr>dev_FID = fid, dev_Platform = PlatformAndroid, dev_UserID = [],
     dev_AnonymousID = [], dev_DeviceID = [], dev_AppVersion = [], dev_IsActive = True,
     dev_CreatedAt = zero_time, dev_UpdatedAt = zero_time\<rparr>"

definition demo_devices :: "Device list" where
  "demo_devices = [direct_fid ''c1'', direct_fid ''d1'', direct_fid ''e1'']"

lemma demo_dispatcher_ok: "disp_ok demo_dispatcher"
proof -
  have "client_ok demo_env"
    by (auto simp: client_ok_def demo_env_def demo_multicast_def batch_response_ok_def demo_response_def
        Let_def list_all_iff)
  then show ?thesis
    by (simp add: disp_ok_def demo_dispatcher_def NewFCMDispatcher_def DefaultFCMDispatcherConfig_def
        demo_env_def int63n_ok_def max_int64_def)
qed


theorem Send_batches_bounded_witness:
  "frame (fd_env demo_dispatcher) (small_batch (dev_FID ` set demo_devices)) (list_all (\<lambda>b. length b \<le> 500)) (list_all (\<lambda>b. length b \<le> 500)) \<and>
   list_all (\<lambda>b. length b \<le> 500)
     (ds_w (snd (fcm_Send demo_dispatcher (\<lambda>gs. gs) demo_devices demo_msg \<lparr>ds_cb = None, ds_w = []\<rparr>)))"
proof -
  have f: "frame (fd_env demo_dispatcher) (small_batch (dev_FID ` set demo_devices)) (list_all (\<lambda>b. length b \<le> 500)) (list_all (\<lambda>b. length b \<le> 500))"
    by (auto simp: frame_def demo_dispatcher_def demo_env_def demo_multicast_def small_batch_def Let_def)
  from Send_batches_bounded [OF f, of "\<lambda>gs. gs" "\<lparr>ds_cb = None, ds_w = []\<rparr>" demo_msg] f
  show ?thesis by simp
qed


end
