(* ===== verification/Grnoti_Devices.thy ===== *)
theory Grnoti_Devices
  imports Grnoti_Batch
begin

text \<open>
  The device store interface (\<^verbatim>\<open>interfaces.go\<close>), its in-memory implementation
  (\<^verbatim>\<open>memory.go\<close>, every method holds the mutex for its whole body, so each is one atomic
  step on the map), and the recipient resolution and topic routing built on it
  (\<^verbatim>\<open>topicrouter.go\<close>).
\<close>

section \<open>The interface\<close>

text \<open>
  The operations other components call, over a world \<open>'w\<close> that holds the store.
\<close>

record 'w DeviceStore =
  ds_GetActiveDevices :: "string \<Rightarrow> 'w \<Rightarrow> (error + Device list) \<times> 'w"
  ds_GetActiveDevicesByAnonymousID :: "string \<Rightarrow> 'w \<Rightarrow> (error + Device list) \<times> 'w"
  ds_MarkInvalid :: "string \<Rightarrow> 'w \<Rightarrow> error option \<times> 'w"

section \<open>The in-memory store\<close>

record memoryDeviceStore =
  mds_devices :: "(string, Device) gomap"

definition NewMemoryDeviceStore :: memoryDeviceStore where
  "NewMemoryDeviceStore = \<lparr>mds_devices = []\<rparr>"

definition mem_GetActiveDevices :: "string \<Rightarrow> memoryDeviceStore \<Rightarrow> Device list" where
  "mem_GetActiveDevices userID s =
     filter (\<lambda>dev. dev_UserID dev = userID \<and> dev_IsActive dev) (map snd (mds_devices s))"

text \<open>The loop of \<^verbatim>\<open>GetActiveDevicesBatch\<close> over the devices, with the result map \<open>out\<close>.\<close>

fun batch_loop :: "string list \<Rightarrow> (string, Device list) gomap \<Rightarrow> Device list \<Rightarrow> (string, Device list) gomap" where
  "batch_loop want out [] = out"
| "batch_loop want out (dev # devs) =
     (if \<not> dev_IsActive dev then batch_loop want out devs
      else if dev_UserID dev \<in> set want then
        batch_loop want
          (AList.update (dev_UserID dev)
             ((case map_of out (dev_UserID dev) of None \<Rightarrow> [] | Some ds \<Rightarrow> ds) @ [dev]) out) devs
      else batch_loop want out devs)"

definition mem_GetActiveDevicesBatch :: "string list \<Rightarrow> memoryDeviceStore \<Rightarrow> (string, Device list) gomap" where
  "mem_GetActiveDevicesBatch userIDs s = batch_loop userIDs [] (map snd (mds_devices s))"

definition mem_GetActiveDevicesByAnonymousID :: "string \<Rightarrow> memoryDeviceStore \<Rightarrow> Device list" where
  "mem_GetActiveDevicesByAnonymousID anonymousID s =
     filter (\<lambda>dev. dev_AnonymousID dev = anonymousID \<and> dev_IsActive dev) (map snd (mds_devices s))"

definition mem_MarkInvalid :: "Time \<Rightarrow> string \<Rightarrow> memoryDeviceStore \<Rightarrow> memoryDeviceStore" where
  "mem_MarkInvalid now fid s =
     (case map_of (mds_devices s) fid of
        Some dev \<Rightarrow> s\<lparr>mds_devices :=
          AList.update fid (dev\<lparr>dev_IsActive := False, dev_UpdatedAt := now\<rparr>) (mds_devices s)\<rparr>
      | None \<Rightarrow> s)"

definition mem_SaveDevice :: "Time \<Rightarrow> Device \<Rightarrow> memoryDeviceStore \<Rightarrow> error option \<times> memoryDeviceStore" where
  "mem_SaveDevice now device s =
     (case device_Validate device of
        Some err \<Rightarrow> (Some err, s)
      | None \<Rightarrow>
          (let created = (case map_of (mds_devices s) (dev_FID device) of
                            Some existing \<Rightarrow> dev_CreatedAt existing | None \<Rightarrow> now);
               device' = device\<lparr>dev_CreatedAt := created, dev_IsActive := True, dev_UpdatedAt := now\<rparr>
           in (None, s\<lparr>mds_devices := AList.update (dev_FID device) device' (mds_devices s)\<rparr>)))"

definition mem_DeleteDevice :: "string \<Rightarrow> memoryDeviceStore \<Rightarrow> memoryDeviceStore" where
  "mem_DeleteDevice fid s = s\<lparr>mds_devices := AList.delete fid (mds_devices s)\<rparr>"

section \<open>Recipients and topics\<close>

datatype NotificationTarget = DeviceTarget "Device list" | TopicTarget string

fun IsTopicBased :: "NotificationTarget \<Rightarrow> bool" where
  "IsTopicBased (DeviceTarget ds) = False"
| "IsTopicBased (TopicTarget t) = True"

fun GetTopicName :: "NotificationTarget \<Rightarrow> string" where
  "GetTopicName (DeviceTarget ds) = []"
| "GetTopicName (TopicTarget t) = t"

fun GetDevices :: "NotificationTarget \<Rightarrow> Device list" where
  "GetDevices (DeviceTarget ds) = ds"
| "GetDevices (TopicTarget t) = []"

text \<open>The device \<^verbatim>\<open>Device{FID: fid, Platform: PlatformAndroid, IsActive: true}\<close>.\<close>

definition direct_device :: "string \<Rightarrow> Device" where
  "direct_device fid = \<lparr>dev_FID = fid, dev_Platform = PlatformAndroid, dev_UserID = [],
     dev_AnonymousID = [], dev_DeviceID = [], dev_AppVersion = [], dev_IsActive = True,
     dev_CreatedAt = zero_time, dev_UpdatedAt = zero_time\<rparr>"

definition resolveDevicesForEvent ::
  "'w DeviceStore \<Rightarrow> Event \<Rightarrow> 'w \<Rightarrow> (error + Device list) \<times> 'w" where
  "resolveDevicesForEvent ds event w =
     (if HasDirectFIDs event then (Inr (map direct_device (ev_FIDs event)), w)
      else if IsAuthenticated event then ds_GetActiveDevices ds (ev_UserID event) w
      else if IsAnonymous event then ds_GetActiveDevicesByAnonymousID ds (ev_AnonymousID event) w
      else (Inr [], w))"

datatype TopicRouter =
    eventTypeTopicRouter "(EventType, string) gomap"
  | staticTopicRouter string
  | deviceOnlyRouter

text \<open>The device branch that two of the routers share, with its error wrapping.\<close>

definition resolve_to_devices ::
  "'w DeviceStore \<Rightarrow> Event \<Rightarrow> 'w \<Rightarrow> (error + NotificationTarget) \<times> 'w" where
  "resolve_to_devices ds event w =
     (case resolveDevicesForEvent ds event w of
        (Inl err, w') \<Rightarrow>
          (Inl (Wrap (''grnoti: failed to get devices for event '' @ ev_EventID event @ '': '') err []), w')
      | (Inr devices, w') \<Rightarrow> (Inr (DeviceTarget devices), w'))"

fun ResolveTarget ::
  "'w DeviceStore \<Rightarrow> TopicRouter \<Rightarrow> Event \<Rightarrow> 'w \<Rightarrow> (error + NotificationTarget) \<times> 'w" where
  "ResolveTarget ds (eventTypeTopicRouter topicMappings) event w =
     (case map_of (ev_Payload event) ''topic'' of
        Some (c # cs) \<Rightarrow> (Inr (TopicTarget (c # cs)), w)
      | _ \<Rightarrow>
          (case map_of topicMappings (ev_Type event) of
             Some (c # cs) \<Rightarrow> (Inr (TopicTarget (c # cs)), w)
           | _ \<Rightarrow> resolve_to_devices ds event w))"
| "ResolveTarget ds (staticTopicRouter topic) event w = (Inr (TopicTarget topic), w)"
| "ResolveTarget ds deviceOnlyRouter event w = resolve_to_devices ds event w"

section \<open>Invariant\<close>

text \<open>Every entry is stored under its own FID, and that FID is valid.\<close>

definition mds_inv :: "memoryDeviceStore \<Rightarrow> bool" where
  "mds_inv s \<longleftrightarrow> map_ok (mds_devices s) \<and>
     (\<forall>fid dev. map_of (mds_devices s) fid = Some dev \<longrightarrow> dev_FID dev = fid \<and> validFID fid)"

abbreviation device_at :: "memoryDeviceStore \<Rightarrow> string \<Rightarrow> Device option" where
  "device_at s fid \<equiv> map_of (mds_devices s) fid"

lemma mds_inv_new: "mds_inv NewMemoryDeviceStore"
  by (simp add: mds_inv_def NewMemoryDeviceStore_def)

lemma mem_MarkInvalid_inv: "mds_inv s \<Longrightarrow> mds_inv (mem_MarkInvalid now fid s)"
  by (auto simp: mds_inv_def mem_MarkInvalid_def split: option.splits)

lemma mem_SaveDevice_inv: "mds_inv s \<Longrightarrow> mem_SaveDevice now d s = (r, s') \<Longrightarrow> mds_inv s'"
  by (auto simp: mds_inv_def mem_SaveDevice_def device_Validate_def Let_def split: if_splits option.splits)

lemma mem_DeleteDevice_inv: "mds_inv s \<Longrightarrow> mds_inv (mem_DeleteDevice fid s)"
  by (auto simp: mds_inv_def mem_DeleteDevice_def)

section \<open>Lemmas\<close>

lemma mem_GetActiveDevices_set:
  "mds_inv s \<Longrightarrow> set (mem_GetActiveDevices u s) =
     {d. \<exists>fid. device_at s fid = Some d \<and> dev_UserID d = u \<and> dev_IsActive d}"
  by (force simp: mem_GetActiveDevices_def mds_inv_def map_ok_in_iff [symmetric])

lemma mem_GetActiveByAnon_set:
  "mds_inv s \<Longrightarrow> set (mem_GetActiveDevicesByAnonymousID a s) =
     {d. \<exists>fid. device_at s fid = Some d \<and> dev_AnonymousID d = a \<and> dev_IsActive d}"
  by (force simp: mem_GetActiveDevicesByAnonymousID_def mds_inv_def map_ok_in_iff [symmetric])

text \<open>The store never returns the same FID twice.\<close>

lemma mds_fids_distinct: "mds_inv s \<Longrightarrow> distinct (map dev_FID (map snd (mds_devices s)))"
proof -
  assume inv: "mds_inv s"
  then have "map dev_FID (map snd (mds_devices s)) = map fst (mds_devices s)"
    by (auto simp: mds_inv_def map_ok_in_iff [symmetric])
  with inv show ?thesis by (simp add: mds_inv_def map_ok_def del: map_map)
qed

lemma filter_distinct_fids:
  "distinct (map dev_FID ds) \<Longrightarrow> distinct (map dev_FID (filter P ds))"
  by (rule distinct_map_filter)

lemma mem_GetActiveDevices_distinct: "mds_inv s \<Longrightarrow> distinct (map dev_FID (mem_GetActiveDevices u s))"
  by (simp add: mem_GetActiveDevices_def filter_distinct_fids mds_fids_distinct del: map_map)

text \<open>The accumulating loop collects, per wanted user, the active devices in map order.\<close>

lemma batch_loop_lookup:
  "map_of (batch_loop want out ds) u =
     (let mine = filter (\<lambda>d. dev_UserID d = u \<and> dev_IsActive d) ds in
      if u \<in> set want \<and> mine \<noteq> []
      then Some ((case map_of out u of None \<Rightarrow> [] | Some old \<Rightarrow> old) @ mine)
      else map_of out u)"
proof (induction want out ds rule: batch_loop.induct)
  case (2 want out dev devs)
  then show ?case by (auto simp: Let_def split: option.splits)
qed simp

lemma mem_GetActiveByAnon_distinct:
  "mds_inv s \<Longrightarrow> distinct (map dev_FID (mem_GetActiveDevicesByAnonymousID a s))"
  by (simp add: mem_GetActiveDevicesByAnonymousID_def filter_distinct_fids mds_fids_distinct del: map_map)

lemma device_at_MarkInvalid [store_simps]:
  "device_at (mem_MarkInvalid now fid s) g =
     (if g = fid then map_option (\<lambda>d. d\<lparr>dev_IsActive := False, dev_UpdatedAt := now\<rparr>) (device_at s g)
      else device_at s g)"
  by (auto simp: mem_MarkInvalid_def split: option.splits)

lemma device_at_Delete [store_simps]:
  "device_at (mem_DeleteDevice fid s) g = (if g = fid then None else device_at s g)"
  by (auto simp: mem_DeleteDevice_def)

lemma device_at_Save [store_simps]:
  "device_Validate d = None \<Longrightarrow>
   fst (mem_SaveDevice now d s) = None \<and>
   device_at (snd (mem_SaveDevice now d s)) g =
     (if g = dev_FID d then
        Some (d\<lparr>dev_CreatedAt := (case device_at s g of Some e \<Rightarrow> dev_CreatedAt e | None \<Rightarrow> now),
                dev_IsActive := True, dev_UpdatedAt := now\<rparr>)
      else device_at s g)"
  by (auto simp: mem_SaveDevice_def Let_def split: option.splits)

section \<open>The contract of a device store\<close>

text \<open>
  Sequences of changes, run on a store given by its three changing operations, and what they mean for the
  records when the time stamps are left out.
\<close>

datatype dev_op = DSave Time Device | DMark Time string | DDelete string

fun dev_run ::
  "(Time \<Rightarrow> Device \<Rightarrow> 's \<Rightarrow> error option \<times> 's) \<Rightarrow> (Time \<Rightarrow> string \<Rightarrow> 's \<Rightarrow> 's) \<Rightarrow> (string \<Rightarrow> 's \<Rightarrow> 's) \<Rightarrow>
     dev_op list \<Rightarrow> 's \<Rightarrow> 's" where
  "dev_run save mark del [] s = s"
| "dev_run save mark del (DSave now d # ops) s = dev_run save mark del ops (snd (save now d s))"
| "dev_run save mark del (DMark now fid # ops) s = dev_run save mark del ops (mark now fid s)"
| "dev_run save mark del (DDelete fid # ops) s = dev_run save mark del ops (del fid s)"

definition unstamped :: "Device \<Rightarrow> Device" where
  "unstamped d = d\<lparr>dev_CreatedAt := zero_time, dev_UpdatedAt := zero_time\<rparr>"

fun dev_spec :: "dev_op list \<Rightarrow> (string \<Rightarrow> Device option) \<Rightarrow> string \<Rightarrow> Device option" where
  "dev_spec [] m = m"
| "dev_spec (DSave now d # ops) m =
     dev_spec ops (if device_Validate d = None then m(dev_FID d \<mapsto> unstamped (d\<lparr>dev_IsActive := True\<rparr>)) else m)"
| "dev_spec (DMark now fid # ops) m =
     dev_spec ops (m(fid := map_option (\<lambda>d. d\<lparr>dev_IsActive := False\<rparr>) (m fid)))"
| "dev_spec (DDelete fid # ops) m = dev_spec ops (m(fid := None))"

lemma unstamped_simps [simp]:
  "dev_UserID (unstamped d) = dev_UserID d" "dev_IsActive (unstamped d) = dev_IsActive d"
  "dev_FID (unstamped d) = dev_FID d"
  by (simp_all add: unstamped_def)

lemma unstamped_inactive: "unstamped (d\<lparr>dev_IsActive := b, dev_UpdatedAt := t\<rparr>) = (unstamped d)\<lparr>dev_IsActive := b\<rparr>"
  by (cases d) (simp add: unstamped_def)

lemma device_Validate_None: "device_Validate d = None \<longleftrightarrow> validFID (dev_FID d)"
  by (simp add: device_Validate_def)

lemma dev_spec_valid:
  assumes "\<And>f d. m f = Some d \<Longrightarrow> device_Validate d = None" "dev_spec ops m f = Some d"
  shows "device_Validate d = None"
  using assms
proof (induction ops m arbitrary: f d rule: dev_spec.induct)
  case (2 now e ops m)
  show ?case
    by (rule "2.IH") (use "2.prems" in \<open>auto simp: device_Validate_None split: if_splits\<close>)
next
  case (3 now g ops m)
  show ?case
  proof (rule "3.IH")
    show "dev_spec ops (m(g := map_option (\<lambda>d. d\<lparr>dev_IsActive := False\<rparr>) (m g))) f = Some d" using "3.prems"(2) by simp
  qed (use "3.prems"(1) in \<open>fastforce simp: device_Validate_None split: if_splits\<close>)
next
  case (4 g ops m)
  show ?case
  proof (rule "4.IH")
    show "dev_spec ops (m(g := None)) f = Some d" using "4.prems"(2) by simp
  qed (use "4.prems"(1) in \<open>auto split: if_splits\<close>)
qed simp

text \<open>A device that a lookup for a user may return.\<close>

definition well_formed_for :: "string \<Rightarrow> Device \<Rightarrow> bool" where
  "well_formed_for u d \<longleftrightarrow> device_Validate d = None \<and> dev_UserID d = u \<and> dev_IsActive d"

text \<open>
  What the service relies on, whatever the backend: lookups by owner return exactly the
  active records of that owner, each FID once; marking, saving and deleting act on one
  record only.  A backend stores times with its own resolution, \<open>stamp\<close>.
\<close>

locale device_store =
  fixes stamp :: "Time \<Rightarrow> Time"
    and inv :: "'s \<Rightarrow> bool"
    and look :: "'s \<Rightarrow> string \<Rightarrow> Device option"
    and get :: "string \<Rightarrow> 's \<Rightarrow> Device list"
    and get_anon :: "string \<Rightarrow> 's \<Rightarrow> Device list"
    and mark :: "Time \<Rightarrow> string \<Rightarrow> 's \<Rightarrow> 's"
    and save :: "Time \<Rightarrow> Device \<Rightarrow> 's \<Rightarrow> error option \<times> 's"
    and del :: "string \<Rightarrow> 's \<Rightarrow> 's"
  assumes look_key: "inv s \<Longrightarrow> look s fid = Some d \<Longrightarrow> dev_FID d = fid"
    and get_set: "inv s \<Longrightarrow>
      set (get u s) = {d. \<exists>fid. look s fid = Some d \<and> dev_UserID d = u \<and> dev_IsActive d}"
    and anon_set: "inv s \<Longrightarrow>
      set (get_anon a s) = {d. \<exists>fid. look s fid = Some d \<and> dev_AnonymousID d = a \<and> dev_IsActive d}"
    and get_distinct: "inv s \<Longrightarrow> distinct (map dev_FID (get u s))"
    and mark_inv: "inv s \<Longrightarrow> inv (mark now fid s)"
    and look_mark: "inv s \<Longrightarrow> look (mark now fid s) g =
      (if g = fid then map_option (\<lambda>d. d\<lparr>dev_IsActive := False, dev_UpdatedAt := stamp now\<rparr>) (look s g)
       else look s g)"
    and save_inv: "inv s \<Longrightarrow> inv (snd (save now d s))"
    and save_invalid: "inv s \<Longrightarrow> device_Validate d = Some e \<Longrightarrow> save now d s = (Some e, s)"
    and save_ok: "inv s \<Longrightarrow> device_Validate d = None \<Longrightarrow> fst (save now d s) = None"
    and look_save: "inv s \<Longrightarrow> device_Validate d = None \<Longrightarrow> look (snd (save now d s)) g =
      (if g = dev_FID d then
         Some (d\<lparr>dev_CreatedAt := (case look s g of Some e \<Rightarrow> dev_CreatedAt e | None \<Rightarrow> stamp now),
                 dev_IsActive := True, dev_UpdatedAt := stamp now\<rparr>)
       else look s g)"
    and del_inv: "inv s \<Longrightarrow> inv (del fid s)"
    and look_del: "inv s \<Longrightarrow> look (del fid s) g = (if g = fid then None else look s g)"
    and anon_distinct: "inv s \<Longrightarrow> distinct (map dev_FID (get_anon a s))"
begin

lemma get_mark: "inv s \<Longrightarrow> set (get u (mark now fid s)) = {d \<in> set (get u s). dev_FID d \<noteq> fid}"
  by (auto simp: get_set mark_inv look_mark dest: look_key split: if_splits)

lemma marks_inv: "inv s \<Longrightarrow> inv (foldl (\<lambda>t (now, fid). mark now fid t) s ms)"
  by (induction ms arbitrary: s) (auto simp: mark_inv)

lemma get_marks:
  "inv s \<Longrightarrow> set (get u (foldl (\<lambda>t (now, fid). mark now fid t) s ms)) =
     {d \<in> set (get u s). dev_FID d \<notin> snd ` set ms}"
proof (induction ms arbitrary: s)
  case (Cons m ms)
  then show ?case by (cases m) (simp add: mark_inv get_mark)
qed simp

lemma run_spec:
  "inv s \<Longrightarrow> inv (dev_run save mark del ops s) \<and>
     (\<lambda>f. map_option unstamped (look (dev_run save mark del ops s) f)) = dev_spec ops (\<lambda>f. map_option unstamped (look s f))"
proof (induction ops arbitrary: s)
  case (Cons c ops)
  show ?case
  proof (cases c)
    case (DSave now d)
    have "(\<lambda>f. map_option unstamped (look (snd (save now d s)) f)) =
        (if device_Validate d = None then (\<lambda>f. map_option unstamped (look s f))(dev_FID d \<mapsto> unstamped (d\<lparr>dev_IsActive := True\<rparr>))
         else (\<lambda>f. map_option unstamped (look s f)))"
      using look_save [OF Cons.prems] save_invalid [OF Cons.prems]
      by (cases "device_Validate d") (auto simp: fun_eq_iff unstamped_def)
    with Cons.IH [OF save_inv [OF Cons.prems]] DSave show ?thesis by simp
  next
    case (DMark now fid)
    have "(\<lambda>f. map_option unstamped (look (mark now fid s) f)) = (\<lambda>f. map_option unstamped (look s f))
        (fid := map_option (\<lambda>d. d\<lparr>dev_IsActive := False\<rparr>) (map_option unstamped (look s fid)))"
      using look_mark [OF Cons.prems] by (auto simp: fun_eq_iff unstamped_inactive option.map_comp comp_def)
    with Cons.IH [OF mark_inv [OF Cons.prems]] DMark show ?thesis by simp
  next
    case (DDelete fid)
    have "(\<lambda>f. map_option unstamped (look (del fid s) f)) = (\<lambda>f. map_option unstamped (look s f))(fid := None)"
      using look_del [OF Cons.prems] by (auto simp: fun_eq_iff)
    with Cons.IH [OF del_inv [OF Cons.prems]] DDelete show ?thesis by simp
  qed
qed simp

text \<open>What a lookup returns after a sequence of changes to an empty store, the time stamps left out.\<close>

lemma get_run:
  assumes "inv s" "\<And>f. look s f = None"
  shows "unstamped ` set (get u (dev_run save mark del ops s)) =
    {d. \<exists>f. dev_spec ops (\<lambda>f. None) f = Some d \<and> dev_UserID d = u \<and> dev_IsActive d}"
proof -
  note run = run_spec [OF assms(1), of ops]
  have "dev_spec ops (\<lambda>f. None) f = map_option unstamped (look (dev_run save mark del ops s) f)" for f
    using run assms(2) by (simp add: fun_eq_iff)
  then show ?thesis using get_set [OF run [THEN conjunct1]] by force
qed

lemma get_run_well_formed:
  assumes "inv s" "\<And>f. look s f = None"
  shows "list_all (well_formed_for u) (get u (dev_run save mark del ops s)) \<and>
    distinct (map dev_FID (get u (dev_run save mark del ops s)))"
proof -
  let ?t = "dev_run save mark del ops s"
  have "well_formed_for u d" if "d \<in> set (get u ?t)" for d
  proof -
    have "unstamped d \<in> {d. \<exists>f. dev_spec ops (\<lambda>f. None) f = Some d \<and> dev_UserID d = u \<and> dev_IsActive d}"
      using that get_run [OF assms, of u ops] by blast
    then have "device_Validate (unstamped d) = None" "dev_UserID d = u" "dev_IsActive d"
      using dev_spec_valid [of "\<lambda>f. None"] by auto
    then show ?thesis by (simp add: well_formed_for_def device_Validate_None)
  qed
  then show ?thesis using get_distinct [OF run_spec [OF assms(1), THEN conjunct1]] by (simp add: list_all_iff)
qed

lemma get_save:
  assumes "inv s" "device_Validate d = None" "dev_UserID d = u"
  shows "\<exists>d' \<in> set (get u (snd (save now d s))). dev_FID d' = dev_FID d"
proof -
  let ?d' = "d\<lparr>dev_CreatedAt := (case look s (dev_FID d) of Some e \<Rightarrow> dev_CreatedAt e | None \<Rightarrow> stamp now),
                dev_IsActive := True, dev_UpdatedAt := stamp now\<rparr>"
  from assms have "look (snd (save now d s)) (dev_FID d) = Some ?d'" by (simp add: look_save)
  moreover from assms have "dev_UserID ?d' = u" "dev_IsActive ?d'" "dev_FID ?d' = dev_FID d" by simp_all
  ultimately show ?thesis using get_set [OF save_inv [OF assms(1)]] by blast
qed

lemma mark_then_save:
  assumes "inv s" "look s fid = Some old" "device_Validate d = None" "dev_FID d = fid"
  shows "\<exists>d'. look (snd (save t2 d (mark t1 fid s))) fid = Some d' \<and> dev_IsActive d' \<and>
           dev_CreatedAt d' = dev_CreatedAt old"
  using assms by (simp add: look_save mark_inv look_mark)

lemma get_del: "inv s \<Longrightarrow> set (get u (del fid s)) = {d \<in> set (get u s). dev_FID d \<noteq> fid}"
  by (auto simp: get_set del_inv look_del dest: look_key split: if_splits)

end

interpretation mem_dev: device_store "\<lambda>t. t" mds_inv device_at mem_GetActiveDevices
  mem_GetActiveDevicesByAnonymousID mem_MarkInvalid mem_SaveDevice mem_DeleteDevice
proof unfold_locales
  show "mds_inv s \<Longrightarrow> device_at s fid = Some d \<Longrightarrow> dev_FID d = fid" for s fid d
    by (simp add: mds_inv_def)
  show "mds_inv s \<Longrightarrow> mds_inv (snd (mem_SaveDevice now d s))" for s now d
    by (metis mem_SaveDevice_inv prod.collapse)
  show "mds_inv s \<Longrightarrow> device_Validate d = Some e \<Longrightarrow> mem_SaveDevice now d s = (Some e, s)" for s now d e
    by (simp add: mem_SaveDevice_def)
qed (simp_all add: mem_GetActiveDevices_set mem_GetActiveByAnon_set mem_GetActiveDevices_distinct mem_GetActiveByAnon_distinct
  mem_MarkInvalid_inv mem_DeleteDevice_inv device_at_MarkInvalid device_at_Delete device_at_Save)

section \<open>Properties\<close>

text \<open>
  \<^verbatim>\<open>GetActiveDevicesBatch\<close> is the pointwise batch of \<^verbatim>\<open>GetActiveDevices\<close>: for a requested
  user with an active device it maps to exactly that user's devices (as a multiset, since Go
  leaves the iteration order open), and it has no entry for any other user.
\<close>

theorem GetActiveDevicesBatch_pointwise:
  "map_option mset (map_of (mem_GetActiveDevicesBatch userIDs s) u) =
     (if u \<in> set userIDs \<and> mem_GetActiveDevices u s \<noteq> []
      then Some (mset (mem_GetActiveDevices u s)) else None)"
  by (simp add: mem_GetActiveDevicesBatch_def batch_loop_lookup mem_GetActiveDevices_def Let_def)

text \<open>
  Pruning: after the FIDs that FCM reported as permanently bad have been marked invalid, in
  any order and at any times, each user's active devices are exactly the ones that were active
  before and are not among them, and no FID is returned twice.
\<close>

theorem MarkInvalid_prunes:
  assumes "mds_inv s"
  shows "set (mem_GetActiveDevices u (foldl (\<lambda>t (now, fid). mem_MarkInvalid now fid t) s ms)) =
           {d \<in> set (mem_GetActiveDevices u s). dev_FID d \<notin> snd ` set ms}
         \<and> distinct (map dev_FID
             (mem_GetActiveDevices u (foldl (\<lambda>t (now, fid). mem_MarkInvalid now fid t) s ms)))"
  using mem_dev.get_marks [OF assms] mem_dev.get_distinct [OF mem_dev.marks_inv [OF assms]] by blast

definition demo_device :: Device where
  "demo_device = (direct_device ''cabcdefghijklmnopqrstu'')\<lparr>dev_UserID := ''u1''\<rparr>"

definition demo_store :: memoryDeviceStore where
  "demo_store = snd (mem_SaveDevice 5 demo_device NewMemoryDeviceStore)"

lemma demo_store_inv: "mds_inv demo_store"
  unfolding demo_store_def by (rule mem_dev.save_inv [OF mds_inv_new])

theorem MarkInvalid_prunes_witness:
  "mds_inv demo_store \<and>
   mem_GetActiveDevices ''u1'' demo_store \<noteq> [] \<and>
   set (mem_GetActiveDevices ''u1''
     (foldl (\<lambda>t (now, fid). mem_MarkInvalid now fid t) demo_store [(9, ''cabcdefghijklmnopqrstu'')])) = {}"
  using MarkInvalid_prunes [OF demo_store_inv, of "''u1''" "[(9, ''cabcdefghijklmnopqrstu'')]"] demo_store_inv
  by (simp add: demo_store_def demo_device_def direct_device_def mem_SaveDevice_def device_Validate_def
      fid_char_def NewMemoryDeviceStore_def mem_GetActiveDevices_def)

end
