(* ===== verification/Grnoti_Preferences.thy ===== *)
theory Grnoti_Preferences
  imports Grnoti_Types
begin

text \<open>
  Notification preferences: the in-memory store (\<^verbatim>\<open>memory.go\<close>), the contract every
  \<^verbatim>\<open>PreferencesStore\<close> offers, and the filter that decides whether an event is sent at all
  (\<^verbatim>\<open>preferencesfilter.go\<close>), with quiet hours evaluated in the user's time zone.
\<close>

section \<open>Wall clocks of the standard library\<close>

text \<open>
  A \<^verbatim>\<open>*time.Location\<close> is the offset from UTC in effect at each instant.  The database of time
  zones is data of the machine, so \<^verbatim>\<open>time.LoadLocation\<close> takes it as an argument; only
  \<^verbatim>\<open>""\<close> and \<^verbatim>\<open>"UTC"\<close> are known.
\<close>

type_synonym Location = "Time \<Rightarrow> Duration"

abbreviation Day :: Duration where
  "Day \<equiv> 86400000000000"

definition LoadLocation :: "(string \<Rightarrow> error + Location) \<Rightarrow> string \<Rightarrow> error + Location" where
  "LoadLocation tzdb name = (if name = [] \<or> name = ''UTC'' then Inr (\<lambda>t. 0) else tzdb name)"

text \<open>
  \<^verbatim>\<open>time.Date\<close> of a wall-clock reading: the offset is looked up with the reading taken as UTC
  and, unless it is zero, looked up again at the instant so obtained.
\<close>

definition go_Date :: "Location \<Rightarrow> int \<Rightarrow> int \<Rightarrow> int \<Rightarrow> Time" where
  "go_Date loc day h m =
     (let wall = day * Day + h * Hour + m * Minute
      in if loc wall = 0 then wall else wall - loc (wall - loc wall))"

definition local_day :: "Location \<Rightarrow> Time \<Rightarrow> int" where
  "local_day loc t = (t + loc t) div Day"

definition local_hour :: "Location \<Rightarrow> Time \<Rightarrow> int" where
  "local_hour loc t = ((t + loc t) mod Day) div Hour"

definition local_minute :: "Location \<Rightarrow> Time \<Rightarrow> int" where
  "local_minute loc t = ((t + loc t) mod Hour) div Minute"

text \<open>\<^verbatim>\<open>time.Parse\<close> with layout \<^verbatim>\<open>15:04\<close>: one or two digits, a colon, exactly two digits.\<close>

definition digit_value :: "char \<Rightarrow> int option" where
  "digit_value c = (let n = (of_char c :: int) in if 48 \<le> n \<and> n \<le> 57 then Some (n - 48) else None)"

fun getnum :: "bool \<Rightarrow> string \<Rightarrow> (int \<times> string) option" where
  "getnum fixed [] = None"
| "getnum fixed [c] = (if fixed then None else map_option (\<lambda>a. (a, [])) (digit_value c))"
| "getnum fixed (c # d # s) =
     (case digit_value c of
        None \<Rightarrow> None
      | Some a \<Rightarrow> (case digit_value d of
                     None \<Rightarrow> (if fixed then None else Some (a, d # s))
                   | Some b \<Rightarrow> Some (10 * a + b, s)))"

definition parse_clock :: "string \<Rightarrow> (int \<times> int) option" where
  "parse_clock s =
     (case getnum False s of
        None \<Rightarrow> None
      | Some (h, rest) \<Rightarrow>
          if h < 0 \<or> 24 \<le> h then None
          else (case rest of
                  [] \<Rightarrow> None
                | c # rest' \<Rightarrow>
                    if c \<noteq> CHR '':'' then None
                    else (case getnum True rest' of
                            None \<Rightarrow> None
                          | Some (m, tail) \<Rightarrow>
                              if m < 0 \<or> 60 \<le> m \<or> tail \<noteq> [] then None else Some (h, m))))"

text \<open>
  The parsed value is a reading of the first of January of year 0, a leap year, so its day lies
  366 days before the zero time.
\<close>

definition ParseInLocation :: "Location \<Rightarrow> string \<Rightarrow> Time option" where
  "ParseInLocation loc s = map_option (\<lambda>(h, m). go_Date loc (- 366) h m) (parse_clock s)"

section \<open>Quiet hours\<close>

text \<open>The three \<^verbatim>\<open>fmt.Errorf\<close> calls of \<^verbatim>\<open>isWithinQuietHours\<close>.\<close>

datatype qh_error =
    InvalidTimezone string error
  | InvalidStart string
  | InvalidEnd string

definition isWithinQuietHours ::
  "(string \<Rightarrow> error + Location) \<Rightarrow> NotificationPreferences \<Rightarrow> Time \<Rightarrow> qh_error + bool" where
  "isWithinQuietHours tzdb prefs now =
     (if \<not> np_QuietHoursEnabled prefs then Inr False
      else case LoadLocation tzdb (np_Timezone prefs) of
        Inl err \<Rightarrow> Inl (InvalidTimezone (np_Timezone prefs) err)
      | Inr loc \<Rightarrow>
          (case ParseInLocation loc (np_QuietHoursStart prefs) of
             None \<Rightarrow> Inl (InvalidStart (np_QuietHoursStart prefs))
           | Some start \<Rightarrow>
               (case ParseInLocation loc (np_QuietHoursEnd prefs) of
                  None \<Rightarrow> Inl (InvalidEnd (np_QuietHoursEnd prefs))
                | Some end_ \<Rightarrow>
                    (let startToday = go_Date loc (local_day loc now) (local_hour loc start) (local_minute loc start);
                         endToday = go_Date loc (local_day loc now) (local_hour loc end_) (local_minute loc end_)
                     in if startToday < endToday then Inr (\<not> now < startToday \<and> now < endToday)
                        else if startToday = endToday then Inr False
                        else Inr (\<not> now < startToday \<or> now < endToday)))))"

section \<open>The stores and the filter\<close>

record 'w PreferencesStore =
  ps_GetPreferences :: "string \<Rightarrow> 'w \<Rightarrow> (error + NotificationPreferences) \<times> 'w"
  ps_SavePreferences :: "NotificationPreferences \<Rightarrow> 'w \<Rightarrow> error option \<times> 'w"
  ps_IsEventTypeEnabled :: "string \<Rightarrow> EventType \<Rightarrow> 'w \<Rightarrow> (error + bool) \<times> 'w"

record memoryPreferencesStore =
  mps_byUID :: "(string, NotificationPreferences) gomap"

definition NewMemoryPreferencesStore :: memoryPreferencesStore where
  "NewMemoryPreferencesStore = \<lparr>mps_byUID = []\<rparr>"

definition mem_GetPreferences :: "string \<Rightarrow> memoryPreferencesStore \<Rightarrow> error + NotificationPreferences" where
  "mem_GetPreferences userID s =
     (case map_of (mps_byUID s) userID of
        None \<Rightarrow> Inl (Sentinel ErrPreferencesNotFound)
      | Some prefs \<Rightarrow> Inr prefs)"

definition mem_SavePreferences ::
  "Time \<Rightarrow> NotificationPreferences \<Rightarrow> memoryPreferencesStore \<Rightarrow> error option \<times> memoryPreferencesStore" where
  "mem_SavePreferences now prefs s =
     (if np_UserID prefs = [] then (Some (Sentinel ErrPreferencesUserIDRequired), s)
      else (let created = (case map_of (mps_byUID s) (np_UserID prefs) of
                             Some existing \<Rightarrow> np_CreatedAt existing | None \<Rightarrow> now);
                copied = prefs\<lparr>np_CreatedAt := created, np_UpdatedAt := now\<rparr>
            in (None, s\<lparr>mps_byUID := AList.update (np_UserID prefs) copied (mps_byUID s)\<rparr>)))"

definition mem_IsEventTypeEnabled :: "string \<Rightarrow> EventType \<Rightarrow> memoryPreferencesStore \<Rightarrow> error + bool" where
  "mem_IsEventTypeEnabled userID eventType s =
     (case mem_GetPreferences userID s of
        Inl err \<Rightarrow> (if errors_is err ErrPreferencesNotFound then Inr True else Inl err)
      | Inr prefs \<Rightarrow> Inr (prefs_IsEventTypeEnabled prefs eventType))"

text \<open>The in-memory store behind the interface; the rest of the world holds the clock.\<close>

definition mem_PreferencesStore :: "('c \<Rightarrow> Time \<times> 'c) \<Rightarrow> (memoryPreferencesStore \<times> 'c) PreferencesStore" where
  "mem_PreferencesStore clock =
     \<lparr>ps_GetPreferences = (\<lambda>u (s, c). (mem_GetPreferences u s, s, c)),
      ps_SavePreferences = (\<lambda>p (s, c).
        if np_UserID p = [] then (fst (mem_SavePreferences zero_time p s), s, c)
        else (case clock c of (now, c') \<Rightarrow>
               (case mem_SavePreferences now p s of (r, s') \<Rightarrow> (r, s', c')))),
      ps_IsEventTypeEnabled = (\<lambda>u t (s, c). (mem_IsEventTypeEnabled u t s, s, c))\<rparr>"

definition ShouldSendNotification ::
  "(string \<Rightarrow> error + Location) \<Rightarrow> ('w \<Rightarrow> Time \<times> 'w) \<Rightarrow> 'w PreferencesStore \<Rightarrow> Event \<Rightarrow> 'w \<Rightarrow>
     (bool \<times> string \<times> error option) \<times> 'w" where
  "ShouldSendNotification tzdb clock store event w =
     (if \<not> IsAuthenticated event then ((True, [], None), w)
      else case ps_GetPreferences store (ev_UserID event) w of
        (Inl err, w1) \<Rightarrow>
          (if errors_is err ErrPreferencesNotFound then ((True, [], None), w1)
           else ((True, [], Some err), w1))
      | (Inr prefs, w1) \<Rightarrow>
          (if \<not> np_GlobalEnabled prefs then ((False, ''global_disabled'', None), w1)
           else if \<not> prefs_IsEventTypeEnabled prefs (ev_Type event)
             then ((False, ''event_type_disabled'', None), w1)
           else (case clock w1 of (now, w2) \<Rightarrow>
             (case isWithinQuietHours tzdb prefs now of
                Inl qhErr \<Rightarrow> ((True, [], None), w2)
              | Inr inQuietHours \<Rightarrow>
                  if inQuietHours then ((False, ''quiet_hours'', None), w2)
                  else ((True, [], None), w2)))))"

section \<open>Quiet hours as a cyclic interval\<close>

text \<open>
  Before its first transition a location has the offset of its first zone, which is the case at
  the year-0 readings that \<^verbatim>\<open>ParseInLocation\<close> produces; \<open>steady\<close> says that no transition lies within three
  days of an instant.
\<close>

definition first_zone :: "Location \<Rightarrow> bool" where
  "first_zone loc \<longleftrightarrow> (\<forall>t \<le> zero_time. loc t = loc zero_time) \<and> \<bar>loc zero_time\<bar> < Day"

definition steady :: "Location \<Rightarrow> Time \<Rightarrow> bool" where
  "steady loc now \<longleftrightarrow> (\<forall>t. now - 3 * Day \<le> t \<and> t \<le> now + 3 * Day \<longrightarrow> loc t = loc now) \<and> \<bar>loc now\<bar> < Day"

lemma digit_value_bounds: "digit_value c = Some a \<Longrightarrow> 0 \<le> a \<and> a \<le> 9"
  by (auto simp: digit_value_def Let_def split: if_splits)

lemma parse_clock_bounds: "parse_clock s = Some (h, m) \<Longrightarrow> 0 \<le> h \<and> h < 24 \<and> 0 \<le> m \<and> m < 60"
  by (auto simp: parse_clock_def split: option.splits list.splits if_splits)

lemma wall_bounds:
  fixes h m :: int
  assumes "0 \<le> h \<and> h < 24 \<and> 0 \<le> m \<and> m < 60"
  shows "0 \<le> h * Hour + m * Minute" "h * Hour + m * Minute < Day"
  using assms by linarith+

lemma go_Date_steady:
  assumes "\<And>t. \<bar>t - (day * Day + h * Hour + m * Minute)\<bar> \<le> Day \<Longrightarrow> loc t = off" and "\<bar>off\<bar> < Day"
  shows "go_Date loc day h m = day * Day + h * Hour + m * Minute - off"
  using assms by (simp add: go_Date_def Let_def)

lemma reading_roundtrip:
  fixes h m :: int
  assumes "0 \<le> h \<and> h < 24 \<and> 0 \<le> m \<and> m < 60"
  shows "((day * Day + h * Hour + m * Minute) mod Day) div Hour = h"
    and "((day * Day + h * Hour + m * Minute) mod Hour) div Minute = m"
proof -
  have m: "0 \<le> m * Minute" "m * Minute < Hour" using assms by linarith+
  have "(day * Day + (h * Hour + m * Minute)) mod Day = h * Hour + m * Minute"
    using wall_bounds [OF assms] by (simp only: mod_mult_self3 mod_pos_pos_trivial)
  then show "((day * Day + h * Hour + m * Minute) mod Day) div Hour = h"
    using m by (simp add: add.assoc div_pos_pos_trivial)
  have "day * Day + h * Hour + m * Minute = (day * 24 + h) * Hour + m * Minute" by (simp add: algebra_simps)
  then have "(day * Day + h * Hour + m * Minute) mod Hour = m * Minute"
    using m by (simp only: mod_mult_self3 mod_pos_pos_trivial)
  then show "((day * Day + h * Hour + m * Minute) mod Hour) div Minute = m" by simp
qed

lemma ParseInLocation_reading:
  assumes zone: "first_zone loc" and parsed: "parse_clock s = Some (h, m)"
  obtains t where "ParseInLocation loc s = Some t" "local_hour loc t = h" "local_minute loc t = m"
proof -
  let ?t = "go_Date loc (- 366) h m"
  note hm = parse_clock_bounds [OF parsed]
  have early: "loc t = loc zero_time" if "\<bar>t - (- 366 * Day + h * Hour + m * Minute)\<bar> \<le> Day" for t
  proof -
    have "t \<le> zero_time" using wall_bounds [OF hm] that unfolding zero_time_def by linarith
    then show ?thesis using zone unfolding first_zone_def by blast
  qed
  have off: "\<bar>loc zero_time\<bar> < Day" using zone unfolding first_zone_def by blast
  have t: "?t = - 366 * Day + h * Hour + m * Minute - loc zero_time"
    by (rule go_Date_steady [OF early off])
  have "loc ?t = loc zero_time"
    by (rule early, unfold t, use off in linarith)
  then have sum: "?t + loc ?t = - 366 * Day + h * Hour + m * Minute" using t by simp
  have "local_hour loc ?t = h" "local_minute loc ?t = m"
    using reading_roundtrip [OF hm, of "- 366"] by (simp_all only: local_hour_def local_minute_def sum)
  then show thesis using that parsed by (simp add: ParseInLocation_def)
qed

lemma today_steady:
  assumes "steady loc now" and hm: "0 \<le> h \<and> h < 24 \<and> 0 \<le> m \<and> m < 60"
  shows "go_Date loc (local_day loc now) h m =
    (now + loc now) div Day * Day + h * Hour + m * Minute - loc now"
proof (unfold local_day_def, rule go_Date_steady)
  fix t
  assume near: "\<bar>t - ((now + loc now) div Day * Day + h * Hour + m * Minute)\<bar> \<le> Day"
  let ?x = "now + loc now"
  have "?x div Day * Day + ?x mod Day = ?x" "0 \<le> ?x mod Day" "?x mod Day < Day"
    by simp_all
  moreover have "\<bar>loc now\<bar> < Day" using assms(1) unfolding steady_def by blast
  ultimately have "now - 3 * Day \<le> t \<and> t \<le> now + 3 * Day"
    using near wall_bounds [OF hm] by (intro conjI) linarith+
  then show "loc t = loc now" using assms(1) unfolding steady_def by blast
next
  show "\<bar>loc now\<bar> < Day" using assms(1) unfolding steady_def by blast
qed

lemma cyclic_interval:
  fixes x s e D :: int
  assumes "0 \<le> s" "s < D" "0 \<le> e" "e < D" "0 \<le> x" "x < D"
  shows "(x - s) mod D < (e - s) mod D \<longleftrightarrow> (if s < e then s \<le> x \<and> x < e else s \<noteq> e \<and> (s \<le> x \<or> x < e))"
proof -
  have red: "y mod D = (if 0 \<le> y then y else y + D)" if "- D < y" "y < D" for y
    using that mod_add_self2 [of y D] by (cases "0 \<le> y") (simp_all add: mod_pos_pos_trivial del: mod_add_self2)
  show ?thesis using assms by (auto simp: red)
qed

lemma quiet_hours_today:
  assumes enabled: "np_QuietHoursEnabled prefs" and tz: "LoadLocation tzdb (np_Timezone prefs) = Inr loc"
    and zone: "first_zone loc" and now: "steady loc now"
    and s: "parse_clock (np_QuietHoursStart prefs) = Some (h, m)"
    and e: "parse_clock (np_QuietHoursEnd prefs) = Some (h', m')"
  shows "isWithinQuietHours tzdb prefs now =
    (let x = (now + loc now) mod Day; a = h * Hour + m * Minute; b = h' * Hour + m' * Minute
     in Inr (if a < b then a \<le> x \<and> x < b else a \<noteq> b \<and> (a \<le> x \<or> x < b)))"
proof -
  obtain t where t: "ParseInLocation loc (np_QuietHoursStart prefs) = Some t"
    "local_hour loc t = h" "local_minute loc t = m"
    by (rule ParseInLocation_reading [OF zone s])
  obtain u where u: "ParseInLocation loc (np_QuietHoursEnd prefs) = Some u"
    "local_hour loc u = h'" "local_minute loc u = m'"
    by (rule ParseInLocation_reading [OF zone e])
  have "(now + loc now) div Day * Day + (now + loc now) mod Day = now + loc now" by simp
  then have cmp: "now < (now + loc now) div Day * Day + a + b - loc now \<longleftrightarrow> (now + loc now) mod Day < a + b"
    for a b by linarith
  note today = today_steady [OF now parse_clock_bounds [OF s]] today_steady [OF now parse_clock_bounds [OF e]]
  show ?thesis
    unfolding isWithinQuietHours_def Let_def tz using enabled
    by (simp add: t u today cmp linorder_not_less)
qed

section \<open>The contract of a preferences store\<close>

text \<open>
  A store behaves like a partial map from users to preferences: a lookup reports what the map
  holds and changes nothing, a successful save overwrites exactly the entry of its user with the same
  settings (the time stamps are the store's own), a failed one changes nothing.
\<close>

definition same_settings :: "NotificationPreferences \<Rightarrow> NotificationPreferences \<Rightarrow> bool" where
  "same_settings p q \<longleftrightarrow> np_UserID q = np_UserID p \<and> np_GlobalEnabled q = np_GlobalEnabled p \<and>
     np_QuietHoursEnabled q = np_QuietHoursEnabled p \<and> np_QuietHoursStart q = np_QuietHoursStart p \<and>
     np_QuietHoursEnd q = np_QuietHoursEnd p \<and> np_Timezone q = np_Timezone p \<and> np_Locale q = np_Locale p \<and>
     map_of (np_EventTypeSettings q) = map_of (np_EventTypeSettings p)"

locale preferences_store =
  fixes store :: "'w PreferencesStore" and ok :: "'w \<Rightarrow> bool"
    and prefs_at :: "'w \<Rightarrow> string \<Rightarrow> NotificationPreferences option"
  assumes get_reads: "ok w \<Longrightarrow> ps_GetPreferences store u w = (r, w') \<Longrightarrow>
        r = (case prefs_at w u of None \<Rightarrow> Inl (Sentinel ErrPreferencesNotFound) | Some p \<Rightarrow> Inr p)"
    and get_keeps: "ok w \<Longrightarrow> ps_GetPreferences store u w = (r, w') \<Longrightarrow> ok w' \<and> prefs_at w' = prefs_at w"
    and save_ok: "ok w \<Longrightarrow> ps_SavePreferences store p w = (res, w') \<Longrightarrow> ok w'"
    and save_writes: "ok w \<Longrightarrow> ps_SavePreferences store p w = (None, w') \<Longrightarrow>
        \<exists>q. same_settings p q \<and> prefs_at w' = (prefs_at w)(np_UserID p \<mapsto> q)"
    and save_accepts: "ok w \<Longrightarrow> ps_SavePreferences store p w = (res, w') \<Longrightarrow> res = None \<longleftrightarrow> np_UserID p \<noteq> []"
    and save_fails: "ok w \<Longrightarrow> ps_SavePreferences store p w = (Some err, w') \<Longrightarrow> prefs_at w' = prefs_at w"

text \<open>Saving a list of preferences one after the other.\<close>

fun save_all :: "'w PreferencesStore \<Rightarrow> NotificationPreferences list \<Rightarrow> 'w \<Rightarrow> 'w" where
  "save_all store [] w = w"
| "save_all store (p # ps) w = save_all store ps (snd (ps_SavePreferences store p w))"

text \<open>The last preferences of a user in a list of saves.\<close>

definition latest :: "string \<Rightarrow> NotificationPreferences list \<Rightarrow> NotificationPreferences option" where
  "latest u ps = find (\<lambda>p. np_UserID p = u) (rev ps)"

text \<open>What the filter should decide, from the preferences last saved for the user.\<close>

fun verdict ::
  "(string \<Rightarrow> error + Location) \<Rightarrow> NotificationPreferences option \<Rightarrow> EventType \<Rightarrow> Time \<Rightarrow>
     bool \<times> string \<times> error option" where
  "verdict tzdb None t now = (True, [], None)"
| "verdict tzdb (Some p) t now =
     (if \<not> np_GlobalEnabled p then (False, ''global_disabled'', None)
      else if map_of (np_EventTypeSettings p) t = Some False then (False, ''event_type_disabled'', None)
      else if isWithinQuietHours tzdb p now = Inr True then (False, ''quiet_hours'', None)
      else (True, [], None))"

lemma same_settings_stamps: "same_settings p (p\<lparr>np_CreatedAt := c, np_UpdatedAt := t\<rparr>)"
  by (simp add: same_settings_def)

lemma same_settings_selectors:
  assumes "same_settings p q"
  shows "np_GlobalEnabled q = np_GlobalEnabled p" "map_of (np_EventTypeSettings q) = map_of (np_EventTypeSettings p)"
    "np_QuietHoursEnabled q = np_QuietHoursEnabled p" "np_QuietHoursStart q = np_QuietHoursStart p"
    "np_QuietHoursEnd q = np_QuietHoursEnd p" "np_Timezone q = np_Timezone p"
  using assms by (simp_all add: same_settings_def)

lemma verdict_same_settings:
  assumes "same_settings p q"
  shows "verdict tzdb (Some q) t now = verdict tzdb (Some p) t now"
  unfolding verdict.simps isWithinQuietHours_def same_settings_selectors [OF assms] by (rule refl)

lemma ShouldSend_verdict:
  assumes "IsAuthenticated ev" and "ps_GetPreferences store (ev_UserID ev) w = (r, w1)"
    and "r = (case p of None \<Rightarrow> Inl (Sentinel ErrPreferencesNotFound) | Some q \<Rightarrow> Inr q)"
  shows "fst (ShouldSendNotification tzdb clock store ev w) = verdict tzdb p (ev_Type ev) (fst (clock w1))"
  using assms
  by (auto simp: ShouldSendNotification_def prefs_IsEventTypeEnabled_def
      split: option.splits sum.splits prod.splits)

lemma latest_Cons: "latest u (p # ps) =
    (case latest u ps of Some q \<Rightarrow> Some q | None \<Rightarrow> if np_UserID p = u then Some p else None)"
proof -
  have "find P (xs @ [p]) = (case find P xs of Some q \<Rightarrow> Some q | None \<Rightarrow> if P p then Some p else None)" for P xs
    by (induction xs) auto
  then show ?thesis by (simp add: latest_def)
qed

context preferences_store
begin

lemma save_one:
  fixes p
  assumes "ok w" "u \<noteq> []" "rel_option same_settings acc (prefs_at w u)"
  defines "w' \<equiv> snd (ps_SavePreferences store p w)"
  shows "ok w' \<and> rel_option same_settings (if np_UserID p = u then Some p else acc) (prefs_at w' u)"
proof -
  obtain r where r: "ps_SavePreferences store p w = (r, w')" unfolding w'_def by (metis prod.collapse)
  show ?thesis
  proof (cases r)
    case None
    then obtain q where "same_settings p q" "prefs_at w' = (prefs_at w)(np_UserID p \<mapsto> q)"
      using save_writes [OF assms(1)] r by blast
    then show ?thesis using assms(3) save_ok [OF assms(1) r] by simp
  next
    case (Some err)
    then show ?thesis using save_accepts [OF assms(1) r] save_fails [OF assms(1)] r assms(2,3) save_ok [OF assms(1) r]
      by auto
  qed
qed

lemma save_all_ok:
  assumes "ok w" "u \<noteq> []" "rel_option same_settings acc (prefs_at w u)"
  shows "ok (save_all store ps w) \<and>
    rel_option same_settings (case latest u ps of Some p \<Rightarrow> Some p | None \<Rightarrow> acc) (prefs_at (save_all store ps w) u)"
  using assms
proof (induction ps arbitrary: w acc)
  case (Cons p ps)
  note one = save_one [OF Cons.prems, of p]
  from Cons.IH [OF one [THEN conjunct1] Cons.prems(2) one [THEN conjunct2]] show ?case
    by (simp add: latest_Cons split: option.splits if_splits)
qed (simp add: latest_def)

lemma filter_follows_latest:
  fixes ps
  assumes "ok w" "prefs_at w (ev_UserID ev) = None" "IsAuthenticated ev"
  defines "w' \<equiv> save_all store ps w"
  shows "fst (ShouldSendNotification tzdb clk store ev w') =
    verdict tzdb (latest (ev_UserID ev) ps) (ev_Type ev) (fst (clk (snd (ps_GetPreferences store (ev_UserID ev) w'))))"
proof -
  have u: "ev_UserID ev \<noteq> []" using assms(3) by (simp add: IsAuthenticated_def)
  have ok: "ok w'" and rel: "rel_option same_settings (latest (ev_UserID ev) ps) (prefs_at w' (ev_UserID ev))"
    using save_all_ok [OF assms(1) u, of None ps] assms(2) by (auto simp: w'_def split: option.splits)
  obtain r w1 where get: "ps_GetPreferences store (ev_UserID ev) w' = (r, w1)" by fastforce
  have "fst (ShouldSendNotification tzdb clk store ev w') =
      verdict tzdb (prefs_at w' (ev_UserID ev)) (ev_Type ev) (fst (clk w1))"
    using ShouldSend_verdict [OF assms(3)] get get_reads [OF ok get] by simp
  also have "\<dots> = verdict tzdb (latest (ev_UserID ev) ps) (ev_Type ev) (fst (clk w1))"
    using rel verdict_same_settings
    by (cases "prefs_at w' (ev_UserID ev)"; cases "latest (ev_UserID ev) ps") (auto simp del: verdict.simps)
  finally show ?thesis using get by simp
qed

end

interpretation mem_prefs: preferences_store "mem_PreferencesStore clock" "\<lambda>w. True"
  "\<lambda>w. map_of (mps_byUID (fst w))" for clock :: "'c \<Rightarrow> Time \<times> 'c"
proof (unfold_locales, goal_cases)
  case (4 w p w')
  then obtain now where "fst w' = snd (mem_SavePreferences now p (fst w))" and uid: "np_UserID p \<noteq> []"
    by (auto simp: mem_PreferencesStore_def mem_SavePreferences_def Let_def split: if_splits prod.splits)
  then have "map_of (mps_byUID (fst w')) = (map_of (mps_byUID (fst w)))(np_UserID p \<mapsto>
      p\<lparr>np_CreatedAt := (case map_of (mps_byUID (fst w)) (np_UserID p) of Some e \<Rightarrow> np_CreatedAt e | None \<Rightarrow> now),
        np_UpdatedAt := now\<rparr>)"
    by (simp add: mem_SavePreferences_def Let_def fun_eq_iff)
  then show ?case using same_settings_stamps by blast
qed (auto simp: mem_PreferencesStore_def mem_GetPreferences_def mem_SavePreferences_def
    Let_def fun_eq_iff split: option.splits if_splits prod.splits)

section \<open>Properties\<close>


definition demo_prefs :: NotificationPreferences where
  "demo_prefs = \<lparr>np_UserID = ''u1'', np_GlobalEnabled = True, np_QuietHoursEnabled = True,
     np_QuietHoursStart = ''22:00'', np_QuietHoursEnd = ''6:30'', np_Timezone = ''Asia/Kolkata'',
     np_Locale = ''en'', np_EventTypeSettings = [(''promo'', False)], np_CreatedAt = zero_time,
     np_UpdatedAt = zero_time\<rparr>"

definition demo_tzdb :: "string \<Rightarrow> error + Location" where
  "demo_tzdb name = (if name = ''Asia/Kolkata'' then Inr (\<lambda>t. 19800 * Second) else Inl (Opaque ''unknown time zone''))"

lemma demo_clock: "parse_clock ''22:00'' = Some (22, 0)" "parse_clock ''6:30'' = Some (6, 30)"
  by (code_simp, code_simp)

lemma demo_zone: "LoadLocation demo_tzdb (np_Timezone demo_prefs) = Inr (\<lambda>t. 19800 * Second)"
  by (simp add: LoadLocation_def demo_tzdb_def demo_prefs_def)


text \<open>
  C24. After any sequence of saves to a new in-memory store, the filter decides for an event exactly
  from the preferences saved last for its user: refused when they disable everything, this event
  type, or the moment falls into quiet hours that can be evaluated; a user who never saved
  preferences, and an event without a user, is always let through.
\<close>

theorem filter_decides_from_latest_save:
  "fst (ShouldSendNotification tzdb clk (mem_PreferencesStore clock) ev
          (save_all (mem_PreferencesStore clock) ps (NewMemoryPreferencesStore, c))) =
    (if IsAuthenticated ev
     then verdict tzdb (latest (ev_UserID ev) ps) (ev_Type ev)
            (fst (clk (save_all (mem_PreferencesStore clock) ps (NewMemoryPreferencesStore, c))))
     else (True, [], None))"
proof (cases "IsAuthenticated ev")
  case True
  then show ?thesis
    using mem_prefs.filter_follows_latest [where w = "(NewMemoryPreferencesStore, c)" and ev = ev and clk = clk and clock = clock and ps = ps and tzdb = tzdb]
    by (simp add: NewMemoryPreferencesStore_def) (simp add: mem_PreferencesStore_def split_beta)
next
  case False
  then show ?thesis by (simp add: ShouldSendNotification_def)
qed

definition demo_prefs_event :: "EventType \<Rightarrow> Event" where
  "demo_prefs_event t = \<lparr>ev_EventID = ''e1'', ev_UserID = ''u1'', ev_AnonymousID = [], ev_FIDs = [], ev_Type = t,
     ev_Payload = [], ev_Priority = PriorityHigh, ev_Timestamp = zero_time, ev_ExperimentID = []\<rparr>"

end
