(* ===== verification/Grnoti_Pool.thy ===== *)
theory Grnoti_Pool
  imports Complex_Main Grnoti_Types
begin

text \<open>
  The worker pool (\<^verbatim>\<open>workerpool.go\<close>): a bounded channel, a fixed number of worker
  goroutines and the three-phase \<open>Stop\<close>.  \<open>Submit\<close> is one atomic operation of the
  channel.  The workers, the submitters and the caller of \<open>Stop\<close> are interleaved by the step
  relation \<open>pool_step\<close>.  Three history fields record the accepted events, the events
  workers have taken from the channel and the events whose handler call has returned.
\<close>

section \<open>State\<close>

datatype 'e worker = Idle | Busy 'e | Exited

text \<open>\<open>Stop\<close>: not called, waiting in \<^verbatim>\<open>wg.Wait\<close> after \<^verbatim>\<open>close(wp.queue)\<close>, returned.\<close>

datatype stop_phase = Running | Draining | Stopped

record WorkerPoolConfig =
  wpc_Workers :: int
  wpc_QueueSize :: int

record 'e WorkerPool =
  wp_workers :: nat
  wp_cap :: nat
  wp_queue :: "'e list"
  wp_queue_closed :: bool
  wp_ctx_canceled :: bool
  wp_threads :: "'e worker list"
  wp_stop :: stop_phase
  wp_has_metrics :: bool
  wp_skipped :: nat
  wp_accepted :: "'e list"
  wp_taken :: "'e list"
  wp_handled :: "'e list"

record WorkerPoolStats =
  wps_Workers :: nat
  wps_QueueSize :: nat
  wps_QueuedEvents :: nat
  wps_QueueUsage :: real

section \<open>Operations\<close>

definition NewWorkerPool :: "WorkerPoolConfig \<Rightarrow> bool \<Rightarrow> bool \<Rightarrow> error + 'e WorkerPool" where
  "NewWorkerPool config has_handler has_metrics =
     (if \<not> has_handler then Inl (Opaque ''grnoti: WorkerPoolDeps.Handler is required'')
      else
        (let workers = (if wpc_Workers config \<le> 0 then 10 else wpc_Workers config);
             queueSize = (if wpc_QueueSize config \<le> 0 then 1000 else wpc_QueueSize config)
         in Inr \<lparr>wp_workers = nat workers, wp_cap = nat queueSize, wp_queue = [],
              wp_queue_closed = False, wp_ctx_canceled = False, wp_threads = [],
              wp_stop = Running, wp_has_metrics = has_metrics, wp_skipped = 0,
              wp_accepted = [], wp_taken = [], wp_handled = []\<rparr>))"

text \<open>\<^verbatim>\<open>Start\<close> spawns the goroutines; each begins at the head of its loop.\<close>

definition Start :: "'e WorkerPool \<Rightarrow> 'e WorkerPool" where
  "Start wp = wp\<lparr>wp_threads := wp_threads wp @ replicate (wp_workers wp) Idle\<rparr>"

definition pool_full_error :: "'e WorkerPool \<Rightarrow> error" where
  "pool_full_error wp = Wrap [] (Sentinel ErrWorkerPoolFull)
     ('': '' @ show_nat (length (wp_queue wp)) @ ''/'' @ show_nat (wp_cap wp))"

text \<open>
  A \<^verbatim>\<open>select\<close> with a send and a default: on a closed channel the send panics, on a full
  one the default runs.
\<close>

definition pool_Submit :: "'e \<Rightarrow> 'e WorkerPool \<Rightarrow> error option go \<times> 'e WorkerPool" where
  "pool_Submit event wp =
     (if wp_queue_closed wp then (Panic ''send on closed channel'', wp)
      else if length (wp_queue wp) < wp_cap wp
        then (Ret None, wp\<lparr>wp_queue := wp_queue wp @ [event], wp_accepted := wp_accepted wp @ [event]\<rparr>)
      else (Ret (Some (pool_full_error wp)),
            if wp_has_metrics wp then wp\<lparr>wp_skipped := wp_skipped wp + 1\<rparr> else wp))"

definition SubmitAsync :: "'e \<Rightarrow> 'e WorkerPool \<Rightarrow> bool go \<times> 'e WorkerPool" where
  "SubmitAsync event wp =
     (case pool_Submit event wp of
        (Ret r, wp') \<Rightarrow> (Ret (r = None), wp')
      | (Panic m, wp') \<Rightarrow> (Panic m, wp'))"

definition pool_GetStats :: "'e WorkerPool \<Rightarrow> WorkerPoolStats" where
  "pool_GetStats wp =
     \<lparr>wps_Workers = wp_workers wp, wps_QueueSize = wp_cap wp, wps_QueuedEvents = length (wp_queue wp),
      wps_QueueUsage = (if wp_cap wp > 0 then real (length (wp_queue wp)) / real (wp_cap wp) else 0)\<rparr>"

section \<open>Interleaving\<close>

text \<open>
  \<open>pick\<close>, \<open>leave\<close> and \<open>leave_canceled\<close> are the three outcomes of the worker's
  \<^verbatim>\<open>select\<close>, \<open>handle\<close> is the return of its handler call, \<open>close_queue\<close> and
  \<open>wait_done\<close> are the two halves of \<open>Stop\<close> (its last step, \<^verbatim>\<open>cancel\<close>, follows
  \<^verbatim>\<open>wg.Wait\<close> without anything in between that another goroutine could observe).
\<close>

inductive pool_step :: "'e WorkerPool \<Rightarrow> 'e WorkerPool \<Rightarrow> bool" where
  submit: "pool_Submit event wp = (Ret r, wp') \<Longrightarrow> pool_step wp wp'"
| pick: "i < length (wp_threads wp) \<Longrightarrow> wp_threads wp ! i = Idle \<Longrightarrow> wp_queue wp = event # rest \<Longrightarrow>
     pool_step wp (wp\<lparr>wp_queue := rest, wp_taken := wp_taken wp @ [event],
                     wp_threads := (wp_threads wp)[i := Busy event]\<rparr>)"
| handle: "i < length (wp_threads wp) \<Longrightarrow> wp_threads wp ! i = Busy event \<Longrightarrow>
     pool_step wp (wp\<lparr>wp_handled := wp_handled wp @ [event], wp_threads := (wp_threads wp)[i := Idle]\<rparr>)"
| leave: "i < length (wp_threads wp) \<Longrightarrow> wp_threads wp ! i = Idle \<Longrightarrow> wp_queue wp = [] \<Longrightarrow>
     wp_queue_closed wp \<Longrightarrow> pool_step wp (wp\<lparr>wp_threads := (wp_threads wp)[i := Exited]\<rparr>)"
| leave_canceled: "i < length (wp_threads wp) \<Longrightarrow> wp_threads wp ! i = Idle \<Longrightarrow> wp_ctx_canceled wp \<Longrightarrow>
     pool_step wp (wp\<lparr>wp_threads := (wp_threads wp)[i := Exited]\<rparr>)"
| close_queue: "wp_stop wp = Running \<Longrightarrow>
     pool_step wp (wp\<lparr>wp_queue_closed := True, wp_stop := Draining\<rparr>)"
| wait_done: "wp_stop wp = Draining \<Longrightarrow> \<forall>t \<in> set (wp_threads wp). t = Exited \<Longrightarrow>
     pool_step wp (wp\<lparr>wp_ctx_canceled := True, wp_stop := Stopped\<rparr>)"

inductive pool_reach :: "'e WorkerPool \<Rightarrow> bool" where
  start: "NewWorkerPool config True m = Inr wp \<Longrightarrow> pool_reach (Start wp)"
| step: "pool_reach wp \<Longrightarrow> pool_step wp wp' \<Longrightarrow> pool_reach wp'"

section \<open>Invariant\<close>

fun busy :: "'e worker \<Rightarrow> 'e list" where
  "busy (Busy e) = [e]"
| "busy _ = []"

definition in_progress :: "'e WorkerPool \<Rightarrow> 'e multiset" where
  "in_progress wp = mset (concat (map busy (wp_threads wp)))"

definition pool_inv :: "'e WorkerPool \<Rightarrow> bool" where
  "pool_inv wp \<longleftrightarrow>
     length (wp_queue wp) \<le> wp_cap wp \<and> 0 < wp_cap wp \<and> wp_threads wp \<noteq> [] \<and>
     wp_accepted wp = wp_taken wp @ wp_queue wp \<and>
     mset (wp_taken wp) = in_progress wp + mset (wp_handled wp) \<and>
     (wp_queue_closed wp \<longleftrightarrow> wp_stop wp \<noteq> Running) \<and>
     (wp_ctx_canceled wp \<longleftrightarrow> wp_stop wp = Stopped) \<and>
     (wp_stop wp = Stopped \<longrightarrow> (\<forall>t \<in> set (wp_threads wp). t = Exited)) \<and>
     (Exited \<in> set (wp_threads wp) \<longrightarrow> wp_queue_closed wp \<and> wp_queue wp = [])"

lemma in_progress_update:
  "i < length ts \<Longrightarrow> mset (concat (map busy (ts[i := t]))) + mset (busy (ts ! i)) =
     mset (concat (map busy ts)) + mset (busy t)"
proof (induction ts arbitrary: i)
  case (Cons a ts)
  then show ?case by (cases i) (auto simp: ac_simps)
qed simp

lemma Exited_in_update: "Exited \<in> set (ts[i := t]) \<Longrightarrow> t \<noteq> Exited \<Longrightarrow> Exited \<in> set ts"
  using set_update_subset_insert [of ts i t] by auto

lemma all_Exited_nth: "i < length ts \<Longrightarrow> ts ! i \<noteq> Exited \<Longrightarrow> \<not> (\<forall>t \<in> set ts. t = Exited)"
  using nth_mem by blast

lemma pool_step_inv: "pool_step wp wp' \<Longrightarrow> pool_inv wp \<Longrightarrow> pool_inv wp'"
proof (induction rule: pool_step.induct)
  case (submit event wp r wp')
  then show ?case
    by (auto simp: pool_Submit_def pool_inv_def in_progress_def split: if_splits)
next
  case (pick i wp event rest)
  then have "wp_stop wp \<noteq> Stopped" using all_Exited_nth [of i "wp_threads wp"] by (auto simp: pool_inv_def)
  with pick in_progress_update [of i "wp_threads wp" "Busy event"] show ?case
    by (auto simp: pool_inv_def in_progress_def dest: Exited_in_update)
next
  case (handle i wp event)
  then have "wp_stop wp \<noteq> Stopped" using all_Exited_nth [of i "wp_threads wp"] by (auto simp: pool_inv_def)
  with handle in_progress_update [of i "wp_threads wp" Idle] show ?case
    by (auto simp: pool_inv_def in_progress_def ac_simps dest: Exited_in_update)
next
  case (leave i wp)
  then have "wp_stop wp \<noteq> Stopped" using all_Exited_nth [of i "wp_threads wp"] by (auto simp: pool_inv_def)
  with leave in_progress_update [of i "wp_threads wp" Exited] show ?case
    by (auto simp: pool_inv_def in_progress_def)
next
  case (leave_canceled i wp)
  then show ?case using all_Exited_nth [of i "wp_threads wp"] by (auto simp: pool_inv_def)
next
  case (close_queue wp)
  then show ?case by (auto simp: pool_inv_def in_progress_def)
next
  case (wait_done wp)
  then show ?case by (auto simp: pool_inv_def in_progress_def)
qed

lemma Start_inv: "NewWorkerPool config True m = Inr wp \<Longrightarrow> pool_inv (Start wp)"
  by (auto simp: NewWorkerPool_def Start_def pool_inv_def in_progress_def Let_def split: if_splits)

lemma pool_reach_inv: "pool_reach wp \<Longrightarrow> pool_inv wp"
  by (induction rule: pool_reach.induct) (auto intro: Start_inv pool_step_inv)

section \<open>Draining\<close>

fun worker_weight :: "'e worker \<Rightarrow> nat" where
  "worker_weight Idle = 1"
| "worker_weight (Busy e) = 2"
| "worker_weight Exited = 0"

text \<open>What is left to do before \<^verbatim>\<open>Stop\<close> returns: it bounds the number of steps of a shutdown.\<close>

definition drain_work :: "'e WorkerPool \<Rightarrow> nat" where
  "drain_work wp = 2 * length (wp_queue wp) + sum_list (map worker_weight (wp_threads wp)) +
     (if wp_stop wp = Stopped then 0 else 1)"

lemma weight_update:
  "i < length ts \<Longrightarrow> sum_list (map worker_weight (ts[i := t])) + worker_weight (ts ! i) =
     sum_list (map worker_weight ts) + worker_weight t"
proof (induction ts arbitrary: i)
  case (Cons a ts)
  then show ?case by (cases i) auto
qed simp

lemma drain_step:
  "pool_step wp wp' \<Longrightarrow> pool_inv wp \<Longrightarrow> wp_stop wp \<noteq> Running \<Longrightarrow>
     drain_work wp' < drain_work wp \<and> wp_stop wp' \<noteq> Running"
proof (induction rule: pool_step.induct)
  case (submit event wp r wp')
  then show ?case by (auto simp: pool_Submit_def pool_inv_def)
next
  case (pick i wp event rest)
  then show ?case
    using weight_update [of i "wp_threads wp" "Busy event"] by (auto simp: drain_work_def)
next
  case (handle i wp event)
  then show ?case
    using weight_update [of i "wp_threads wp" Idle] by (auto simp: drain_work_def)
next
  case (leave i wp)
  then show ?case
    using weight_update [of i "wp_threads wp" Exited] by (auto simp: drain_work_def)
next
  case (leave_canceled i wp)
  then show ?case
    using weight_update [of i "wp_threads wp" Exited] by (auto simp: drain_work_def)
qed (auto simp: drain_work_def)

lemma drain_progress:
  assumes "pool_inv wp" and "wp_stop wp = Draining"
  shows "\<exists>wp'. pool_step wp wp'"
proof (cases "\<forall>t \<in> set (wp_threads wp). t = Exited")
  case True
  with assms(2) show ?thesis by (blast intro: pool_step.wait_done)
next
  case False
  then obtain i where i: "i < length (wp_threads wp)" "wp_threads wp ! i \<noteq> Exited"
    by (auto simp: in_set_conv_nth)
  show ?thesis
  proof (cases "wp_threads wp ! i")
    case Idle
    show ?thesis
    proof (cases "wp_queue wp")
      case Nil
      with Idle i assms show ?thesis by (auto simp: pool_inv_def intro: pool_step.leave)
    next
      case (Cons e rest)
      with Idle i show ?thesis by (blast intro: pool_step.pick)
    qed
  next
    case (Busy e)
    with i show ?thesis by (blast intro: pool_step.handle)
  qed (use i in simp)
qed

lemma drain_run:
  "(pool_step ^^ n) wp wp' \<Longrightarrow> pool_inv wp \<Longrightarrow> wp_stop wp \<noteq> Running \<Longrightarrow>
     n + drain_work wp' \<le> drain_work wp \<and> pool_inv wp' \<and> wp_stop wp' \<noteq> Running"
proof (induction n arbitrary: wp')
  case (Suc n)
  then obtain u where u: "(pool_step ^^ n) wp u" "pool_step u wp'" by auto
  with Suc have "n + drain_work u \<le> drain_work wp" "pool_inv u" "wp_stop u \<noteq> Running" by auto
  with drain_step [OF u(2)] pool_step_inv [OF u(2)] show ?case by auto
qed simp

text \<open>A pool with two workers and room for two events, and a shutdown of it.\<close>

definition demo_pool :: "nat WorkerPool" where
  "demo_pool = \<lparr>wp_workers = 2, wp_cap = 2, wp_queue = [], wp_queue_closed = False,
     wp_ctx_canceled = False, wp_threads = [], wp_stop = Running, wp_has_metrics = True,
     wp_skipped = 0, wp_accepted = [], wp_taken = [], wp_handled = []\<rparr>"

definition demo_draining :: "nat WorkerPool" where
  "demo_draining = (Start demo_pool)\<lparr>wp_queue := [7], wp_accepted := [7],
     wp_queue_closed := True, wp_stop := Draining\<rparr>"

definition demo_stopped :: "nat WorkerPool" where
  "demo_stopped = demo_draining\<lparr>wp_queue := [], wp_taken := [7], wp_handled := [7],
     wp_threads := [Exited, Exited], wp_ctx_canceled := True, wp_stop := Stopped\<rparr>"

lemma demo_pool_reach: "pool_reach (Start demo_pool)"
  by (rule pool_reach.start [of "\<lparr>wpc_Workers = 2, wpc_QueueSize = 2\<rparr>" True])
    (simp add: NewWorkerPool_def demo_pool_def)

lemma demo_draining_reach: "pool_reach demo_draining"
proof -
  let ?one = "(Start demo_pool)\<lparr>wp_queue := [7], wp_accepted := [7]\<rparr>"
  have "pool_Submit 7 (Start demo_pool) = (Ret None, ?one)"
    by (simp add: pool_Submit_def Start_def demo_pool_def)
  then have "pool_reach ?one" by (blast intro: pool_reach.step demo_pool_reach pool_step.submit)
  moreover have "pool_step ?one demo_draining"
    unfolding demo_draining_def
    using pool_step.close_queue [of ?one] by (simp add: Start_def demo_pool_def)
  ultimately show ?thesis by (rule pool_reach.step)
qed

lemma demo_stopped_reach: "pool_reach demo_stopped"
proof -
  let ?a = "demo_draining\<lparr>wp_queue := [], wp_taken := [7], wp_threads := [Busy 7, Idle]\<rparr>"
  let ?b = "?a\<lparr>wp_handled := [7], wp_threads := [Idle, Idle]\<rparr>"
  let ?c = "?b\<lparr>wp_threads := [Exited, Idle]\<rparr>"
  let ?d = "?c\<lparr>wp_threads := [Exited, Exited]\<rparr>"
  note demo = demo_draining_def Start_def demo_pool_def numeral_2_eq_2
  have "pool_step demo_draining ?a"
    using pool_step.pick [of 0 demo_draining 7 "[]"] by (simp add: demo)
  from pool_reach.step [OF demo_draining_reach this] have a: "pool_reach ?a" .
  have "pool_step ?a ?b" using pool_step.handle [of 0 ?a 7] by (simp add: demo)
  from pool_reach.step [OF a this] have b: "pool_reach ?b" .
  have "pool_step ?b ?c" using pool_step.leave [of 0 ?b] by (simp add: demo)
  from pool_reach.step [OF b this] have c: "pool_reach ?c" .
  have "pool_step ?c ?d" using pool_step.leave [of 1 ?c] by (simp add: demo)
  from pool_reach.step [OF c this] have d: "pool_reach ?d" .
  have "pool_step ?d demo_stopped"
    unfolding demo_stopped_def using pool_step.wait_done [of ?d] by (simp add: demo)
  from pool_reach.step [OF d this] show ?thesis .
qed

section \<open>Properties\<close>



text \<open>
   C23. A shutdown ends: from any reachable state in which \<^verbatim>\<open>Stop\<close> has closed the queue, no
  run is longer than \<open>drain_work\<close>, and a run that cannot be continued has ended with
  \<^verbatim>\<open>Stop\<close> returned.  (A step \<open>handle\<close> is a handler call that returns.)
\<close>

theorem shutdown_terminates:
  assumes "pool_reach wp" and "wp_stop wp \<noteq> Running" and "(pool_step ^^ n) wp wp'"
  shows "n \<le> drain_work wp \<and> (wp_stop wp' = Stopped \<or> (\<exists>u. pool_step wp' u))"
proof -
  have "pool_inv wp" using assms(1) by (rule pool_reach_inv)
  from drain_run [OF assms(3) this assms(2)]
  have "n \<le> drain_work wp" "pool_inv wp'" "wp_stop wp' \<noteq> Running" by auto
  then show ?thesis using drain_progress [of wp'] by (cases "wp_stop wp'") auto
qed

theorem shutdown_terminates_witness:
  "0 \<le> drain_work demo_draining \<and> (\<exists>u. pool_step demo_draining u)"
  using shutdown_terminates [OF demo_draining_reach, of 0 demo_draining]
  by (simp add: demo_draining_def)

text \<open>
   While handlers run, the pool's context is live and the queue is within its bound:
  in every reachable state the queue holds at most \<^verbatim>\<open>QueueSize\<close> events, and whenever a worker
  is inside the handler the context has not been cancelled.
\<close>

theorem handlers_run_with_live_context:
  assumes "pool_reach wp"
  shows "length (wp_queue wp) \<le> wp_cap wp \<and>
    (\<forall>i e. i < length (wp_threads wp) \<and> wp_threads wp ! i = Busy e \<longrightarrow> \<not> wp_ctx_canceled wp)"
  using pool_reach_inv [OF assms] all_Exited_nth [of _ "wp_threads wp"] by (fastforce simp: pool_inv_def)

theorem handlers_run_with_live_context_witness:
  "length (wp_queue demo_draining) \<le> wp_cap demo_draining"
  using handlers_run_with_live_context [OF demo_draining_reach] by (rule conjunct1)

end
