(* ===== verification/Grnoti_Service.thy ===== *)
theory Grnoti_Service
  imports Grnoti_Devices Grnoti_Dispatcher Grnoti_Pool Grnoti_DLQ
begin

text \<open>
  The notification service (\<^verbatim>\<open>service.go\<close>) and the lifecycle events it publishes
  (\<^verbatim>\<open>events.go\<close>).  Its collaborators are interfaces in Go and records of operations on a world
  \<open>'w\<close> here; optional ones are \<open>None\<close> when nil.  The pipeline \<open>processEvent\<close> is the whole
  function, every branch and every call in order; log lines are left out.
\<close>

section \<open>Collaborators\<close>

record 'w Metrics =
  me_IncNotificationsProcessed :: "'w \<Rightarrow> 'w"
  me_IncNotificationsSent :: "EventType \<Rightarrow> Platform \<Rightarrow> int \<Rightarrow> 'w \<Rightarrow> 'w"
  me_IncNotificationsFailed :: "EventType \<Rightarrow> Platform \<Rightarrow> int \<Rightarrow> 'w \<Rightarrow> 'w"
  me_IncEventsSkipped :: "string \<Rightarrow> 'w \<Rightarrow> 'w"
  me_ObserveDispatchLatency :: "EventType \<Rightarrow> Platform \<Rightarrow> Duration \<Rightarrow> 'w \<Rightarrow> 'w"
  me_ObserveProcessingLatency :: "Duration \<Rightarrow> 'w \<Rightarrow> 'w"

record NotificationSentPayload =
  ns_EventID :: string
  ns_UserID :: string
  ns_AnonymousID :: string
  ns_EventType :: EventType
  ns_SuccessCount :: int
  ns_FailureCount :: int
  ns_Timestamp :: Time

record NotificationFailedPayload =
  nf_EventID :: string
  nf_UserID :: string
  nf_AnonymousID :: string
  nf_EventType :: EventType
  nf_FailureCount :: int
  nf_Reason :: string
  nf_Timestamp :: Time

record ExperimentAssignedPayload =
  ea_UserID :: string
  ea_ExperimentID :: string
  ea_VariantID :: string
  ea_Timestamp :: Time

datatype bus_payload =
    SentPayload NotificationSentPayload
  | FailedPayload NotificationFailedPayload
  | AssignedPayload ExperimentAssignedPayload

record bus_event =
  be_Topic :: string
  be_Payload :: bus_payload
  be_Metadata :: strmap

record ServiceConfig =
  sc_IdempotencyTTL :: Duration
  sc_MaxDevicesPerBatch :: int
  sc_EnableMetrics :: bool
  sc_SkipInvalidEvents :: bool
  sc_EnableDeviceDeduplication :: bool
  sc_EnforceBatching :: bool
  sc_EnablePreferencesFilter :: bool
  sc_EnableTopicRouting :: bool
  sc_EnableRichPush :: bool
  sc_EnableLocalization :: bool
  sc_EnableBackpressure :: bool
  sc_EnableABTesting :: bool
  sc_EnableDLQ :: bool
  sc_EnableEventBus :: bool

definition DefaultServiceConfig :: ServiceConfig where
  "DefaultServiceConfig = \<lparr>sc_IdempotencyTTL = 24 * Hour, sc_MaxDevicesPerBatch = 500,
     sc_EnableMetrics = True, sc_SkipInvalidEvents = False, sc_EnableDeviceDeduplication = False,
     sc_EnforceBatching = False, sc_EnablePreferencesFilter = False, sc_EnableTopicRouting = False,
     sc_EnableRichPush = False, sc_EnableLocalization = False, sc_EnableBackpressure = False,
     sc_EnableABTesting = False, sc_EnableDLQ = True, sc_EnableEventBus = False\<rparr>"

record 'w PushDispatcher =
  pd_Send :: "Device list \<Rightarrow> Message \<Rightarrow> 'w \<Rightarrow> (DispatchResult \<times> error option) go \<times> 'w"
  pd_SendToTopic :: "string \<Rightarrow> Message \<Rightarrow> 'w \<Rightarrow> error option \<times> 'w"

record 'w IdempotencyStore =
  is_IsProcessed :: "string \<Rightarrow> 'w \<Rightarrow> (error + bool) \<times> 'w"
  is_MarkProcessed :: "string \<Rightarrow> Duration \<Rightarrow> 'w \<Rightarrow> error option \<times> 'w"

record 'w notificationService =
  sv_deviceStore :: "'w DeviceStore"
  sv_dispatcher :: "'w PushDispatcher"
  sv_BuildMessage :: "Event \<Rightarrow> 'w \<Rightarrow> (error + Message) \<times> 'w"
  sv_idempotency :: "'w IdempotencyStore"
  sv_ShouldSend :: "(Event \<Rightarrow> 'w \<Rightarrow> (bool \<times> string \<times> error option) \<times> 'w) option"
  sv_ResolveTarget :: "(Event \<Rightarrow> 'w \<Rightarrow> (error + NotificationTarget) \<times> 'w) option"
  sv_PublishToDLQ :: "(Event \<Rightarrow> string \<Rightarrow> 'w \<Rightarrow> error option \<times> 'w) option"
  sv_bus :: "(bus_event \<Rightarrow> 'w \<Rightarrow> error option \<times> 'w) option"
  sv_metrics :: "'w Metrics option"
  sv_clock :: "'w \<Rightarrow> Time \<times> 'w"
  sv_config :: ServiceConfig

text \<open>The four required collaborators may be nil in \<^verbatim>\<open>ServiceDeps\<close>.\<close>

record 'w ServiceDeps =
  sd_DeviceStore :: "'w DeviceStore option"
  sd_Dispatcher :: "'w PushDispatcher option"
  sd_Templates :: "(Event \<Rightarrow> 'w \<Rightarrow> (error + Message) \<times> 'w) option"
  sd_Idempotency :: "'w IdempotencyStore option"
  sd_PreferencesFilter :: "(Event \<Rightarrow> 'w \<Rightarrow> (bool \<times> string \<times> error option) \<times> 'w) option"
  sd_TopicRouter :: "(Event \<Rightarrow> 'w \<Rightarrow> (error + NotificationTarget) \<times> 'w) option"
  sd_DLQHandler :: "(Event \<Rightarrow> string \<Rightarrow> 'w \<Rightarrow> error option \<times> 'w) option"
  sd_EventBus :: "(bus_event \<Rightarrow> 'w \<Rightarrow> error option \<times> 'w) option"
  sd_Metrics :: "'w Metrics option"
  sd_Config :: ServiceConfig
  sd_WorkerPoolConfig :: WorkerPoolConfig

text \<open>The result: the service, and its running worker pool when backpressure is enabled.\<close>

definition NewNotificationService ::
  "('w \<Rightarrow> Time \<times> 'w) \<Rightarrow> 'w ServiceDeps \<Rightarrow> error + ('w notificationService \<times> Event WorkerPool option)" where
  "NewNotificationService clock deps =
     (case sd_DeviceStore deps of None \<Rightarrow> Inl (Opaque ''grnoti: ServiceDeps.DeviceStore is required'')
      | Some store \<Rightarrow>
     (case sd_Dispatcher deps of None \<Rightarrow> Inl (Opaque ''grnoti: ServiceDeps.Dispatcher is required'')
      | Some disp \<Rightarrow>
     (case sd_Templates deps of None \<Rightarrow> Inl (Opaque ''grnoti: ServiceDeps.Templates is required'')
      | Some templates \<Rightarrow>
     (case sd_Idempotency deps of None \<Rightarrow> Inl (Opaque ''grnoti: ServiceDeps.Idempotency is required'')
      | Some idem \<Rightarrow>
        (let s = \<lparr>sv_deviceStore = store, sv_dispatcher = disp, sv_BuildMessage = templates,
                  sv_idempotency = idem, sv_ShouldSend = sd_PreferencesFilter deps,
                  sv_ResolveTarget = sd_TopicRouter deps, sv_PublishToDLQ = sd_DLQHandler deps,
                  sv_bus = sd_EventBus deps, sv_metrics = sd_Metrics deps, sv_clock = clock,
                  sv_config = sd_Config deps\<rparr>
         in if sc_EnableBackpressure (sd_Config deps)
            then (case NewWorkerPool (sd_WorkerPoolConfig deps) True (sd_Metrics deps \<noteq> None) of
                    Inl err \<Rightarrow> Inl (Wrap ''grnoti: build worker pool: '' err [])
                  | Inr pool \<Rightarrow> Inr (s, Some (Start pool)))
            else Inr (s, None))))))"

section \<open>Lifecycle events\<close>

definition TopicNotificationSent :: string where
  "TopicNotificationSent = ''notification.sent''"
definition TopicNotificationFailed :: string where
  "TopicNotificationFailed = ''notification.failed''"
definition TopicExperimentAssigned :: string where
  "TopicExperimentAssigned = ''experiment.assigned''"

definition PublishSent ::
  "('w \<Rightarrow> Time \<times> 'w) \<Rightarrow> (bus_event \<Rightarrow> 'w \<Rightarrow> error option \<times> 'w) option \<Rightarrow> NotificationSentPayload \<Rightarrow> 'w \<Rightarrow> 'w" where
  "PublishSent clock bus payload w =
     (case bus of None \<Rightarrow> w
      | Some publish \<Rightarrow>
          (let (p, w1) = (if IsZero (ns_Timestamp payload)
                          then (case clock w of (t, w1) \<Rightarrow> (payload\<lparr>ns_Timestamp := t\<rparr>, w1)) else (payload, w))
           in snd (publish \<lparr>be_Topic = TopicNotificationSent, be_Payload = SentPayload p,
                     be_Metadata = [(''event_id'', ns_EventID p), (''event_type'', ns_EventType p)]\<rparr> w1)))"

definition PublishFailed ::
  "('w \<Rightarrow> Time \<times> 'w) \<Rightarrow> (bus_event \<Rightarrow> 'w \<Rightarrow> error option \<times> 'w) option \<Rightarrow> NotificationFailedPayload \<Rightarrow> 'w \<Rightarrow> 'w" where
  "PublishFailed clock bus payload w =
     (case bus of None \<Rightarrow> w
      | Some publish \<Rightarrow>
          (let (p, w1) = (if IsZero (nf_Timestamp payload)
                          then (case clock w of (t, w1) \<Rightarrow> (payload\<lparr>nf_Timestamp := t\<rparr>, w1)) else (payload, w))
           in snd (publish \<lparr>be_Topic = TopicNotificationFailed, be_Payload = FailedPayload p,
                     be_Metadata = [(''event_id'', nf_EventID p), (''event_type'', nf_EventType p)]\<rparr> w1)))"

definition PublishAssigned ::
  "('w \<Rightarrow> Time \<times> 'w) \<Rightarrow> (bus_event \<Rightarrow> 'w \<Rightarrow> error option \<times> 'w) option \<Rightarrow> ExperimentAssignedPayload \<Rightarrow> 'w \<Rightarrow> 'w" where
  "PublishAssigned clock bus payload w =
     (case bus of None \<Rightarrow> w
      | Some publish \<Rightarrow>
          (let (p, w1) = (if IsZero (ea_Timestamp payload)
                          then (case clock w of (t, w1) \<Rightarrow> (payload\<lparr>ea_Timestamp := t\<rparr>, w1)) else (payload, w))
           in snd (publish \<lparr>be_Topic = TopicExperimentAssigned, be_Payload = AssignedPayload p,
                     be_Metadata = [(''user_id'', ea_UserID p), (''experiment_id'', ea_ExperimentID p),
                                    (''variant_id'', ea_VariantID p)]\<rparr> w1)))"

section \<open>The steps of the pipeline\<close>

definition svc_skip ::
  "'w notificationService \<Rightarrow> ProcessingResult \<Rightarrow> Time \<Rightarrow> string \<Rightarrow> 'w \<Rightarrow> ProcessingResult \<times> 'w" where
  "svc_skip s result startTime reason w =
     (let (t, w1) = sv_clock s w;
          r = result\<lparr>pr_Skipped := True, pr_SkipReason := reason, pr_Duration := time_sub t startTime\<rparr>
      in (r, (case sv_metrics s of
                Some m \<Rightarrow> if sc_EnableMetrics (sv_config s) then me_IncEventsSkipped m reason w1 else w1
              | None \<Rightarrow> w1)))"

fun add_platform_counts :: "(Platform, int) gomap \<Rightarrow> (Platform, int) gomap \<Rightarrow> (Platform, int) gomap" where
  "add_platform_counts dst [] = dst"
| "add_platform_counts dst ((platform, cnt) # src) = add_platform_counts (bump platform cnt dst) src"

definition mergeDispatchResult :: "DispatchResult \<Rightarrow> DispatchResult \<Rightarrow> DispatchResult" where
  "mergeDispatchResult dst src =
     (add_counts dst src)\<lparr>
        dr_SuccessByPlatform := add_platform_counts (dr_SuccessByPlatform dst) (dr_SuccessByPlatform src),
        dr_FailureByPlatform := add_platform_counts (dr_FailureByPlatform dst) (dr_FailureByPlatform src)\<rparr>"

fun send_batches ::
  "'w notificationService \<Rightarrow> Message \<Rightarrow> Device list list \<Rightarrow> DispatchResult \<Rightarrow> error option \<Rightarrow> 'w \<Rightarrow>
   (DispatchResult \<times> error option) go \<times> 'w" where
  "send_batches s msg [] aggregated lastErr w = (Ret (aggregated, lastErr), w)"
| "send_batches s msg (batch # batches) aggregated lastErr w =
     (case pd_Send (sv_dispatcher s) batch msg w of
        (Panic p, w1) \<Rightarrow> (Panic p, w1)
      | (Ret (batchResult, err), w1) \<Rightarrow>
          send_batches s msg batches (mergeDispatchResult aggregated batchResult)
            (case err of None \<Rightarrow> lastErr | Some e \<Rightarrow> Some e) w1)"

text \<open>
  \<^verbatim>\<open>dispatchToDevices\<close> and \<^verbatim>\<open>dispatch\<close> also return the \<open>DeviceCount\<close> they store through the
  result pointer (\<open>None\<close>: left as it was).
\<close>

definition dispatchToDevices ::
  "'w notificationService \<Rightarrow> Device list \<Rightarrow> Message \<Rightarrow> 'w \<Rightarrow>
   (DispatchResult \<times> error option) go \<times> int \<times> 'w" where
  "dispatchToDevices s devices0 msg w =
     (let devices = (if sc_EnableDeviceDeduplication (sv_config s) then Deduplicate devices0 else devices0);
          n = int (length devices)
      in if length devices = 0 then (Ret (zero_result, None), n, w)
         else if \<not> sc_EnforceBatching (sv_config s) \<or> sc_MaxDevicesPerBatch (sv_config s) \<le> 0
           then (case pd_Send (sv_dispatcher s) devices msg w of (r, w1) \<Rightarrow> (r, n, w1))
         else (case Split devices (sc_MaxDevicesPerBatch (sv_config s)) of
                 Panic p \<Rightarrow> (Panic p, n, w)
               | Ret batches \<Rightarrow>
                   (case send_batches s msg batches zero_result None w of (r, w1) \<Rightarrow> (r, n, w1))))"

definition svc_dispatch ::
  "'w notificationService \<Rightarrow> Event \<Rightarrow> Message \<Rightarrow> 'w \<Rightarrow> (DispatchResult \<times> error option) go \<times> int option \<times> 'w" where
  "svc_dispatch s event msg w =
     (let to_devices = (\<lambda>devices w. case dispatchToDevices s devices msg w of (r, n, w1) \<Rightarrow> (r, Some n, w1));
          resolve_devices = (case resolveDevicesForEvent (sv_deviceStore s) event w of
                               (Inl err, w1) \<Rightarrow> (Ret (zero_result, Some err), None, w1)
                             | (Inr devices, w1) \<Rightarrow> to_devices devices w1)
      in (case sv_ResolveTarget s of
            None \<Rightarrow> resolve_devices
          | Some resolve \<Rightarrow>
              (if \<not> sc_EnableTopicRouting (sv_config s) then resolve_devices
               else (case resolve event w of
                       (Inl err, w1) \<Rightarrow> (Ret (zero_result, Some err), None, w1)
                     | (Inr target, w1) \<Rightarrow>
                         (if IsTopicBased target
                          then (case pd_SendToTopic (sv_dispatcher s) (GetTopicName target) msg w1 of
                                  (Some err, w2) \<Rightarrow>
                                    (Ret (zero_result\<lparr>dr_FailureCount := 1, dr_Errors := [err]\<rparr>, Some err), None, w2)
                                | (None, w2) \<Rightarrow> (Ret (zero_result\<lparr>dr_SuccessCount := 1\<rparr>, None), None, w2))
                          else to_devices (GetDevices target) w1)))))"

fun mark_fids :: "'w notificationService \<Rightarrow> string list \<Rightarrow> 'w \<Rightarrow> 'w" where
  "mark_fids s [] w = w"
| "mark_fids s (fid # fids) w = mark_fids s fids (snd (ds_MarkInvalid (sv_deviceStore s) fid w))"

definition markInvalidFIDs :: "'w notificationService \<Rightarrow> DispatchResult \<Rightarrow> 'w \<Rightarrow> 'w" where
  "markInvalidFIDs s dispatchResult w =
     (if length (dr_InvalidFIDs dispatchResult) = 0 then w else mark_fids s (dr_InvalidFIDs dispatchResult) w)"

fun joinDispatchErrors :: "error list \<Rightarrow> string" where
  "joinDispatchErrors [] = ''dispatch failed''"
| "joinDispatchErrors (e # es) =
     (if length (e # es) > 1
      then error_text e @ '' (and '' @ show_nat (length (e # es) - 1) @ '' more)''
      else error_text e)"

definition unresolved :: "DispatchResult \<Rightarrow> int" where
  "unresolved r = dr_FailureCount r - int (length (dr_InvalidFIDs r))"

definition publishToDLQIfUnresolved :: "'w notificationService \<Rightarrow> Event \<Rightarrow> DispatchResult \<Rightarrow> 'w \<Rightarrow> 'w" where
  "publishToDLQIfUnresolved s event dispatchResult w =
     (case sv_PublishToDLQ s of
        None \<Rightarrow> w
      | Some publish \<Rightarrow>
          (if \<not> sc_EnableDLQ (sv_config s) then w
           else if unresolved dispatchResult \<le> 0 then w
           else snd (publish event (joinDispatchErrors (dr_Errors dispatchResult)) w)))"

fun metrics_sent :: "'w Metrics \<Rightarrow> EventType \<Rightarrow> Duration \<Rightarrow> (Platform, int) gomap \<Rightarrow> 'w \<Rightarrow> 'w" where
  "metrics_sent m t d [] w = w"
| "metrics_sent m t d ((platform, cnt) # rest) w =
     metrics_sent m t d rest
       (if cnt > 0 then me_ObserveDispatchLatency m t platform d (me_IncNotificationsSent m t platform cnt w) else w)"

fun metrics_failed :: "'w Metrics \<Rightarrow> EventType \<Rightarrow> (Platform, int) gomap \<Rightarrow> 'w \<Rightarrow> 'w" where
  "metrics_failed m t [] w = w"
| "metrics_failed m t ((platform, cnt) # rest) w =
     metrics_failed m t rest (if cnt > 0 then me_IncNotificationsFailed m t platform cnt w else w)"

definition recordMetrics :: "'w notificationService \<Rightarrow> Event \<Rightarrow> DispatchResult \<Rightarrow> Duration \<Rightarrow> 'w \<Rightarrow> 'w" where
  "recordMetrics s event dispatchResult dispatchDuration w =
     (case sv_metrics s of
        None \<Rightarrow> w
      | Some m \<Rightarrow>
          (if \<not> sc_EnableMetrics (sv_config s) then w
           else metrics_failed m (ev_Type event) (dr_FailureByPlatform dispatchResult)
                  (metrics_sent m (ev_Type event) dispatchDuration (dr_SuccessByPlatform dispatchResult)
                     (me_IncNotificationsProcessed m w))))"

definition publishLifecycleEvent :: "'w notificationService \<Rightarrow> Event \<Rightarrow> DispatchResult \<Rightarrow> 'w \<Rightarrow> 'w" where
  "publishLifecycleEvent s event dispatchResult w =
     (if \<not> sc_EnableEventBus (sv_config s) then w
      else if dr_SuccessCount dispatchResult > 0 then
        PublishSent (sv_clock s) (sv_bus s)
          \<lparr>ns_EventID = ev_EventID event, ns_UserID = ev_UserID event, ns_AnonymousID = ev_AnonymousID event,
           ns_EventType = ev_Type event, ns_SuccessCount = dr_SuccessCount dispatchResult,
           ns_FailureCount = dr_FailureCount dispatchResult, ns_Timestamp = zero_time\<rparr> w
      else if dr_FailureCount dispatchResult > 0 then
        PublishFailed (sv_clock s) (sv_bus s)
          \<lparr>nf_EventID = ev_EventID event, nf_UserID = ev_UserID event, nf_AnonymousID = ev_AnonymousID event,
           nf_EventType = ev_Type event, nf_FailureCount = dr_FailureCount dispatchResult,
           nf_Reason = joinDispatchErrors (dr_Errors dispatchResult), nf_Timestamp = zero_time\<rparr> w
      else w)"

section \<open>The pipeline\<close>

text \<open>The part after a successful dispatch: prune, dead-letter, metrics, lifecycle, mark, latency.\<close>

definition finish_event ::
  "'w notificationService \<Rightarrow> Event \<Rightarrow> Time \<Rightarrow> ProcessingResult \<Rightarrow> DispatchResult \<Rightarrow> Duration \<Rightarrow> 'w \<Rightarrow>
   ProcessingResult \<times> 'w" where
  "finish_event s event startTime result dispatchResult dispatchDuration w =
     (let w1 = markInvalidFIDs s dispatchResult w;
          w2 = publishToDLQIfUnresolved s event dispatchResult w1;
          w3 = recordMetrics s event dispatchResult dispatchDuration w2;
          w4 = publishLifecycleEvent s event dispatchResult w3;
          w5 = snd (is_MarkProcessed (sv_idempotency s) (ev_EventID event) (sc_IdempotencyTTL (sv_config s)) w4);
          (t, w6) = sv_clock s w5;
          r = result\<lparr>pr_DispatchResult := dispatchResult, pr_Duration := time_sub t startTime\<rparr>
      in (r, (case sv_metrics s of
                Some m \<Rightarrow> if sc_EnableMetrics (sv_config s) then me_ObserveProcessingLatency m (pr_Duration r) w6 else w6
              | None \<Rightarrow> w6)))"

text \<open>From the rendering of the message on.\<close>

definition build_and_dispatch ::
  "'w notificationService \<Rightarrow> Event \<Rightarrow> Time \<Rightarrow> ProcessingResult \<Rightarrow> 'w \<Rightarrow>
   (ProcessingResult \<times> error option) go \<times> 'w" where
  "build_and_dispatch s event startTime result w =
     (case sv_BuildMessage s event w of
        (Inl err, w1) \<Rightarrow> (Ret (result, Some err), w1)
      | (Inr msg, w1) \<Rightarrow>
          (let (dispatchStart, w2) = sv_clock s w1 in
           case svc_dispatch s event msg w2 of
             (Panic p, n, w3) \<Rightarrow> (Panic p, w3)
           | (Ret (dispatchResult, dispatchErr), n, w3) \<Rightarrow>
               (let (t, w4) = sv_clock s w3;
                    result1 = (case n of None \<Rightarrow> result | Some k \<Rightarrow> result\<lparr>pr_DeviceCount := k\<rparr>)
                in if pr_DeviceCount result1 = 0 \<and> TotalCount dispatchResult = 0 \<and> dispatchErr = None
                   then (let w5 = snd (is_MarkProcessed (sv_idempotency s) (ev_EventID event)
                                        (sc_IdempotencyTTL (sv_config s)) w4);
                             (r, w6) = svc_skip s result1 startTime ''no_active_devices'' w5
                         in (Ret (r, None), w6))
                   else (let (r, w5) = finish_event s event startTime result1 dispatchResult
                                         (time_sub t dispatchStart) w4
                         in (Ret (r, None), w5)))))"

definition init_result :: "Event \<Rightarrow> Time \<Rightarrow> ProcessingResult" where
  "init_result event startTime =
     \<lparr>pr_EventID = ev_EventID event, pr_UserID = GetTargetID event, pr_DeviceCount = 0,
      pr_DispatchResult = zero_result, pr_ProcessedAt = startTime, pr_Duration = 0,
      pr_Skipped = False, pr_SkipReason = []\<rparr>"

definition processEvent ::
  "'w notificationService \<Rightarrow> Event \<Rightarrow> 'w \<Rightarrow> (ProcessingResult \<times> error option) go \<times> 'w" where
  "processEvent s event w =
     (let (startTime, w1) = sv_clock s w; result = init_result event startTime
      in case event_Validate event of
           Some err \<Rightarrow>
             (if sc_SkipInvalidEvents (sv_config s)
              then (let (r, w2) = svc_skip s result startTime (''invalid_event: '' @ error_text err) w1
                    in (Ret (r, None), w2))
              else (Ret (result, Some err), w1))
         | None \<Rightarrow>
             (case is_IsProcessed (sv_idempotency s) (ev_EventID event) w1 of
                (Inl err, w2) \<Rightarrow> (Ret (result, Some err), w2)
              | (Inr processed, w2) \<Rightarrow>
                  (if processed
                   then (let (r, w3) = svc_skip s result startTime ''already_processed'' w2
                         in (Ret (r, None), w3))
                   else (case sv_ShouldSend s of
                           None \<Rightarrow> build_and_dispatch s event startTime result w2
                         | Some should \<Rightarrow>
                             (if sc_EnablePreferencesFilter (sv_config s) \<and> IsAuthenticated event
                              then (case should event w2 of
                                      ((shouldSend, skipReason, prefErr), w3) \<Rightarrow>
                                        (if prefErr = None \<and> \<not> shouldSend
                                         then (let (r, w4) = svc_skip s result startTime
                                                     (''preferences_'' @ skipReason) w3
                                               in (Ret (r, None), w4))
                                         else build_and_dispatch s event startTime result w3))
                              else build_and_dispatch s event startTime result w2)))))"

text \<open>The exported methods, on a service that is open or closed.\<close>

definition zero_processing :: ProcessingResult where
  "zero_processing = \<lparr>pr_EventID = [], pr_UserID = [], pr_DeviceCount = 0, pr_DispatchResult = zero_result,
     pr_ProcessedAt = zero_time, pr_Duration = 0, pr_Skipped = False, pr_SkipReason = []\<rparr>"

definition ProcessEvent ::
  "'w notificationService \<Rightarrow> bool \<Rightarrow> Event \<Rightarrow> 'w \<Rightarrow> (ProcessingResult \<times> error option) go \<times> 'w" where
  "ProcessEvent s is_closed event w =
     (if is_closed then (Ret (zero_processing, Some (Sentinel ErrClosed)), w) else processEvent s event w)"

text \<open>\<^verbatim>\<open>Submit\<close> when no other goroutine runs between its check of \<^verbatim>\<open>closed\<close> and its use of the pool.\<close>

definition svc_Submit ::
  "'w notificationService \<Rightarrow> bool \<Rightarrow> Event \<Rightarrow> Event WorkerPool option \<times> 'w \<Rightarrow>
   error option go \<times> Event WorkerPool option \<times> 'w" where
  "svc_Submit s is_closed event st =
     (if is_closed then (Ret (Some (Sentinel ErrClosed)), st)
      else (case st of
              (Some pool, w) \<Rightarrow> (case pool_Submit event pool of (r, pool') \<Rightarrow> (r, Some pool', w))
            | (None, w) \<Rightarrow>
                (case processEvent s event w of
                   (Panic p, w') \<Rightarrow> (Panic p, None, w')
                 | (Ret (r, err), w') \<Rightarrow> (Ret err, None, w'))))"

section \<open>Submit and Close interleaved\<close>

text \<open>
  The service with backpressure: the \<^verbatim>\<open>closed\<close> flag, the pool, and the submitters that have
  read the flag as false but not yet reached the channel.  \<open>stop_pool\<close> is the first half of
  \<^verbatim>\<open>workerPool.Stop\<close>, which \<^verbatim>\<open>Close\<close> calls after it set the flag.
\<close>

record svc_sys =
  ss_closed :: bool
  ss_pool :: "Event WorkerPool"
  ss_checked :: "Event multiset"

inductive svc_step :: "svc_sys \<Rightarrow> svc_sys \<Rightarrow> bool" where
  check: "\<not> ss_closed s \<Longrightarrow> svc_step s (s\<lparr>ss_checked := add_mset event (ss_checked s)\<rparr>)"
| enter: "event \<in># ss_checked s \<Longrightarrow> pool_Submit event (ss_pool s) = (Ret r, pool') \<Longrightarrow>
     svc_step s (s\<lparr>ss_pool := pool', ss_checked := ss_checked s - {#event#}\<rparr>)"
| set_closed: "svc_step s (s\<lparr>ss_closed := True\<rparr>)"
| stop_pool: "ss_closed s \<Longrightarrow> wp_stop (ss_pool s) = Running \<Longrightarrow>
     svc_step s (s\<lparr>ss_pool := (ss_pool s)\<lparr>wp_queue_closed := True, wp_stop := Draining\<rparr>\<rparr>)"
| work: "pool_step (ss_pool s) pool' \<Longrightarrow> wp_queue_closed pool' = wp_queue_closed (ss_pool s) \<Longrightarrow>
     svc_step s (s\<lparr>ss_pool := pool'\<rparr>)"

inductive svc_reach :: "svc_sys \<Rightarrow> bool" where
  start: "NewWorkerPool config True m = Inr wp \<Longrightarrow>
     svc_reach \<lparr>ss_closed = False, ss_pool = Start wp, ss_checked = {#}\<rparr>"
| step: "svc_reach s \<Longrightarrow> svc_step s t \<Longrightarrow> svc_reach t"

section \<open>What the operations keep\<close>

text \<open>
  \<open>svc_keeps s I\<close>: every operation of every collaborator keeps \<open>I\<close>, except the three that are
  named separately, \<^verbatim>\<open>MarkInvalid\<close>, \<^verbatim>\<open>PublishToDLQ\<close> and \<^verbatim>\<open>MarkProcessed\<close>.
\<close>

definition metrics_keep :: "'w Metrics \<Rightarrow> ('w \<Rightarrow> bool) \<Rightarrow> bool" where
  "metrics_keep m I \<longleftrightarrow>
     (\<forall>w. I w \<longrightarrow> I (me_IncNotificationsProcessed m w)) \<and>
     (\<forall>t p n w. I w \<longrightarrow> I (me_IncNotificationsSent m t p n w)) \<and>
     (\<forall>t p n w. I w \<longrightarrow> I (me_IncNotificationsFailed m t p n w)) \<and>
     (\<forall>r w. I w \<longrightarrow> I (me_IncEventsSkipped m r w)) \<and>
     (\<forall>t p d w. I w \<longrightarrow> I (me_ObserveDispatchLatency m t p d w)) \<and>
     (\<forall>d w. I w \<longrightarrow> I (me_ObserveProcessingLatency m d w))"

definition svc_keeps :: "'w notificationService \<Rightarrow> ('w \<Rightarrow> bool) \<Rightarrow> bool" where
  "svc_keeps s I \<longleftrightarrow>
     (\<forall>w. I w \<longrightarrow> I (snd (sv_clock s w))) \<and>
     (\<forall>i w. I w \<longrightarrow> I (snd (is_IsProcessed (sv_idempotency s) i w))) \<and>
     (\<forall>f e w. sv_ShouldSend s = Some f \<longrightarrow> I w \<longrightarrow> I (snd (f e w))) \<and>
     (\<forall>e w. I w \<longrightarrow> I (snd (sv_BuildMessage s e w))) \<and>
     (\<forall>f e w. sv_ResolveTarget s = Some f \<longrightarrow> I w \<longrightarrow> I (snd (f e w))) \<and>
     (\<forall>u w. I w \<longrightarrow> I (snd (ds_GetActiveDevices (sv_deviceStore s) u w))) \<and>
     (\<forall>a w. I w \<longrightarrow> I (snd (ds_GetActiveDevicesByAnonymousID (sv_deviceStore s) a w))) \<and>
     (\<forall>ds m w. I w \<longrightarrow> I (snd (pd_Send (sv_dispatcher s) ds m w))) \<and>
     (\<forall>t m w. I w \<longrightarrow> I (snd (pd_SendToTopic (sv_dispatcher s) t m w))) \<and>
     (\<forall>f b w. sv_bus s = Some f \<longrightarrow> I w \<longrightarrow> I (snd (f b w))) \<and>
     (\<forall>m. sv_metrics s = Some m \<longrightarrow> metrics_keep m I)"

definition prune_keeps :: "'w notificationService \<Rightarrow> ('w \<Rightarrow> bool) \<Rightarrow> bool" where
  "prune_keeps s I \<longleftrightarrow> (\<forall>fid w. I w \<longrightarrow> I (snd (ds_MarkInvalid (sv_deviceStore s) fid w)))"

definition dlq_keeps :: "'w notificationService \<Rightarrow> ('w \<Rightarrow> bool) \<Rightarrow> bool" where
  "dlq_keeps s I \<longleftrightarrow> (\<forall>f e r w. sv_PublishToDLQ s = Some f \<longrightarrow> I w \<longrightarrow> I (snd (f e r w)))"

definition mark_keeps :: "'w notificationService \<Rightarrow> ('w \<Rightarrow> bool) \<Rightarrow> bool" where
  "mark_keeps s I \<longleftrightarrow> (\<forall>i t w. I w \<longrightarrow> I (snd (is_MarkProcessed (sv_idempotency s) i t w)))"

text \<open>
  Two worlds of one call: whatever the operations of \<^const>\<open>svc_keeps\<close> keep carries over from the first to the second.
\<close>

definition keeps_from :: "'w notificationService \<Rightarrow> 'w \<Rightarrow> 'w \<Rightarrow> bool" where
  "keeps_from s w w' \<longleftrightarrow> (\<forall>I. svc_keeps s I \<longrightarrow> I w \<longrightarrow> I w')"

lemma keeps_fromI: "(\<And>I. svc_keeps s I \<Longrightarrow> I w \<Longrightarrow> I w') \<Longrightarrow> keeps_from s w w'"
  unfolding keeps_from_def by (intro allI impI)

lemma keeps_fromD: "keeps_from s w w' \<Longrightarrow> svc_keeps s I \<Longrightarrow> I w \<Longrightarrow> I w'"
  unfolding keeps_from_def by blast

lemma keeps_from_trans: "keeps_from s w w' \<Longrightarrow> keeps_from s w' w'' \<Longrightarrow> keeps_from s w w''"
  unfolding keeps_from_def by blast

lemma keeps_clock: "svc_keeps s I \<Longrightarrow> I w \<Longrightarrow> sv_clock s w = (t, w') \<Longrightarrow> I w'"
  unfolding svc_keeps_def by (metis snd_conv)

lemma keeps_lookup:
  "svc_keeps s I \<Longrightarrow> I w \<Longrightarrow> is_IsProcessed (sv_idempotency s) i w = (y, w') \<Longrightarrow> I w'"
  unfolding svc_keeps_def by (metis snd_conv)

lemma keeps_build: "svc_keeps s I \<Longrightarrow> I w \<Longrightarrow> sv_BuildMessage s e w = (y, w') \<Longrightarrow> I w'"
  unfolding svc_keeps_def by (metis snd_conv)

lemma keeps_filter: "svc_keeps s I \<Longrightarrow> sv_ShouldSend s = Some f \<Longrightarrow> I w \<Longrightarrow> f e w = (y, w') \<Longrightarrow> I w'"
  unfolding svc_keeps_def by (metis snd_conv)

lemma keeps_skip: "svc_keeps s I \<Longrightarrow> I w \<Longrightarrow> svc_skip s r t reason w = (r', w') \<Longrightarrow> I w'"
  by (auto simp: svc_skip_def Let_def metrics_keep_def svc_keeps_def split: prod.splits option.splits if_splits)

lemma keeps_send_batches:
  assumes "svc_keeps s I"
  shows "I w \<Longrightarrow> I (snd (send_batches s msg batches agg e w))"
proof (induction batches arbitrary: agg e w)
  case (Cons b bs)
  obtain x w1 where "pd_Send (sv_dispatcher s) b msg w = (x, w1)" by fastforce
  moreover from this assms Cons.prems have "I w1" unfolding svc_keeps_def by (metis snd_conv)
  ultimately show ?case using Cons.IH by (cases x) (auto split: prod.splits)
qed simp

lemma keeps_dispatchToDevices:
  assumes "svc_keeps s I" "I w" "dispatchToDevices s ds msg w = (x, n, w')"
  shows "I w'"
proof -
  have send: "I (snd (pd_Send (sv_dispatcher s) d msg w))" for d
    using assms(1,2) unfolding svc_keeps_def by blast
  have batches: "I (snd (send_batches s msg bs zero_result None w))" for bs
    by (rule keeps_send_batches [OF assms(1,2)])
  show ?thesis using assms(2,3) send batches
    by (auto simp: dispatchToDevices_def Let_def split: if_splits go.splits prod.splits) (metis snd_conv)+
qed

lemma keeps_resolve:
  "svc_keeps s I \<Longrightarrow> I w \<Longrightarrow> resolveDevicesForEvent (sv_deviceStore s) ev w = (x, w') \<Longrightarrow> I w'"
  unfolding svc_keeps_def resolveDevicesForEvent_def by (auto split: if_splits) (metis snd_conv)+

lemma keeps_to_devices:
  assumes "svc_keeps s I" "I w"
    "(case dispatchToDevices s ds msg w of (r, n, w1) \<Rightarrow> (r, Some n, w1)) = (x, n', w')"
  shows "I w'"
  using keeps_dispatchToDevices [OF assms(1,2)] assms(3) by (auto split: prod.splits)

lemma keeps_dispatch_devices:
  assumes "svc_keeps s I" "I w"
    "(case resolveDevicesForEvent (sv_deviceStore s) ev w of
        (Inl err, w1) \<Rightarrow> (Ret (zero_result, Some err), None, w1)
      | (Inr devices, w1) \<Rightarrow>
          (case dispatchToDevices s devices msg w1 of (r, n, w2) \<Rightarrow> (r, Some n, w2))) = (x, n, w')"
  shows "I w'"
proof -
  obtain y w1 where r: "resolveDevicesForEvent (sv_deviceStore s) ev w = (y, w1)" by fastforce
  have "I w1" by (rule keeps_resolve [OF assms(1,2) r])
  with assms(3) r keeps_to_devices [OF assms(1)] show ?thesis by (cases y) auto
qed

lemma keeps_dispatch_target:
  assumes "svc_keeps s I" "I w"
    "(if IsTopicBased target
      then (case pd_SendToTopic (sv_dispatcher s) (GetTopicName target) msg w of
              (Some err, w2) \<Rightarrow> (Ret (zero_result\<lparr>dr_FailureCount := 1, dr_Errors := [err]\<rparr>, Some err), None, w2)
            | (None, w2) \<Rightarrow> (Ret (zero_result\<lparr>dr_SuccessCount := 1\<rparr>, None), None, w2))
      else (case dispatchToDevices s (GetDevices target) msg w of (r, n, w2) \<Rightarrow> (r, Some n, w2))) = (x, n, w')"
  shows "I w'"
proof (cases "IsTopicBased target")
  case True
  obtain y w2 where t: "pd_SendToTopic (sv_dispatcher s) (GetTopicName target) msg w = (y, w2)" by fastforce
  have "I w2" using assms(1,2) t unfolding svc_keeps_def by (metis snd_conv)
  with True t assms(3) show ?thesis by (cases y) auto
next
  case False
  with assms(3) keeps_to_devices [OF assms(1,2)] show ?thesis by simp
qed

lemma keeps_dispatch:
  assumes "svc_keeps s I" "I w" "svc_dispatch s ev msg w = (x, n, w')"
  shows "I w'"
proof (cases "sv_ResolveTarget s")
  case None
  with assms(3) show ?thesis
    by (intro keeps_dispatch_devices [OF assms(1,2)]) (simp add: svc_dispatch_def)
next
  case (Some f)
  show ?thesis
  proof (cases "sc_EnableTopicRouting (sv_config s)")
    case False
    with Some assms(3) show ?thesis
      by (intro keeps_dispatch_devices [OF assms(1,2)]) (simp add: svc_dispatch_def)
  next
    case True
    obtain y w1 where r: "f ev w = (y, w1)" by fastforce
    have "I w1" using assms(1,2) Some r unfolding svc_keeps_def by (metis snd_conv)
    show ?thesis
    proof (cases y)
      case (Inl err)
      with True Some r assms(3) \<open>I w1\<close> show ?thesis by (simp add: svc_dispatch_def)
    next
      case (Inr target)
      with True Some r assms(3) show ?thesis
        by (intro keeps_dispatch_target [OF assms(1) \<open>I w1\<close>]) (simp add: svc_dispatch_def Let_def)
    qed
  qed
qed

lemma keeps_mark_fids:
  assumes "prune_keeps s I"
  shows "I w \<Longrightarrow> I (mark_fids s fids w)"
proof (induction fids arbitrary: w)
  case (Cons f fids)
  have "I (snd (ds_MarkInvalid (sv_deviceStore s) f w))"
    using assms Cons.prems by (simp add: prune_keeps_def)
  with Cons.IH show ?case by simp
qed simp

lemma keeps_metrics_sent: "metrics_keep m I \<Longrightarrow> I w \<Longrightarrow> I (metrics_sent m t d kvs w)"
proof (induction m t d kvs w rule: metrics_sent.induct)
  case (2 m t d platform cnt rest w)
  then show ?case by (auto simp: metrics_keep_def)
qed simp

lemma keeps_metrics_failed: "metrics_keep m I \<Longrightarrow> I w \<Longrightarrow> I (metrics_failed m t kvs w)"
proof (induction m t kvs w rule: metrics_failed.induct)
  case (2 m t platform cnt rest w)
  then show ?case by (auto simp: metrics_keep_def)
qed simp

lemma keeps_recordMetrics:
  assumes "svc_keeps s I" "I w"
  shows "I (recordMetrics s ev r d w)"
proof (cases "sv_metrics s")
  case (Some m)
  with assms have "metrics_keep m I" by (simp add: svc_keeps_def)
  moreover from this assms(2) have "I (me_IncNotificationsProcessed m w)" by (simp add: metrics_keep_def)
  ultimately show ?thesis using Some assms(2)
    by (simp add: recordMetrics_def keeps_metrics_sent keeps_metrics_failed)
qed (simp add: recordMetrics_def assms(2))

lemma keeps_lifecycle:
  assumes "svc_keeps s I" "I w"
  shows "I (publishLifecycleEvent s ev r w)"
proof -
  have bus: "I (snd (f b w1))" if "sv_bus s = Some f" "I w1" for f b w1
    using assms(1) that unfolding svc_keeps_def by blast
  obtain t w1 where c: "sv_clock s w = (t, w1)" by fastforce
  have "I w1" using keeps_clock [OF assms c] .
  with bus assms(2) c show ?thesis
    by (simp add: publishLifecycleEvent_def PublishSent_def PublishFailed_def IsZero_def split: option.split)
qed

lemma keeps_dlq: "dlq_keeps s I \<Longrightarrow> I w \<Longrightarrow> I (publishToDLQIfUnresolved s ev r w)"
  by (simp add: dlq_keeps_def publishToDLQIfUnresolved_def split: option.split)

text \<open>The clock reading and the latency metric after the event was marked.\<close>

lemma keeps_observe:
  "svc_keeps s I \<Longrightarrow> I w \<Longrightarrow>
   I (case sv_metrics s of Some m \<Rightarrow> if b then me_ObserveProcessingLatency m d w else w | None \<Rightarrow> w)"
  by (auto simp: svc_keeps_def metrics_keep_def split: option.split)

lemma svc_skip_result:
  "svc_skip s r t reason w = (r', w') \<Longrightarrow>
     pr_Skipped r' \<and> pr_SkipReason r' = reason \<and> pr_DispatchResult r' = pr_DispatchResult r \<and>
     pr_DeviceCount r' = pr_DeviceCount r"
  by (auto simp: svc_skip_def Let_def split: prod.splits)

lemma finish_event_result:
  "finish_event s ev t r dr d w = (r', w') \<Longrightarrow>
     pr_Skipped r' = pr_Skipped r \<and> pr_DispatchResult r' = dr \<and> pr_DeviceCount r' = pr_DeviceCount r"
  by (auto simp: finish_event_def Let_def split: prod.splits)

text \<open>What holds when the event has been marked still holds when \<open>finish_event\<close> returns.\<close>

lemma finish_event_tail:
  assumes "svc_keeps s I" "finish_event s ev t r dr d w = (r', w')"
    and "I (snd (is_MarkProcessed (sv_idempotency s) (ev_EventID ev) (sc_IdempotencyTTL (sv_config s))
              (publishLifecycleEvent s ev dr (recordMetrics s ev dr d
                (publishToDLQIfUnresolved s ev dr (markInvalidFIDs s dr w))))))"
      (is "I ?w5")
  shows "I w'"
proof -
  obtain t' w6 where c: "sv_clock s ?w5 = (t', w6)" by fastforce
  have "I w6" by (rule keeps_clock [OF assms(1,3) c])
  moreover have "w' = (case sv_metrics s of
      Some m \<Rightarrow> if sc_EnableMetrics (sv_config s) then me_ObserveProcessingLatency m
        (pr_Duration (r\<lparr>pr_DispatchResult := dr, pr_Duration := time_sub t' t\<rparr>)) w6 else w6
    | None \<Rightarrow> w6)"
    using assms(2) c by (simp add: finish_event_def Let_def)
  ultimately show ?thesis using keeps_observe [OF assms(1)] by simp
qed

lemma finish_event_marks:
  assumes "svc_keeps s I" "\<And>t w. I (snd (is_MarkProcessed (sv_idempotency s) (ev_EventID ev) t w))"
    "finish_event s ev t r dr d w = (r', w')"
  shows "I w'"
  by (rule finish_event_tail [OF assms(1,3,2)])

text \<open>What holds after the dead-lettering still holds at the end.\<close>

lemma finish_event_from_dlq:
  assumes keeps: "svc_keeps s I" "mark_keeps s I" and fin: "finish_event s ev t r dr d w = (r', w')"
    and w: "I (publishToDLQIfUnresolved s ev dr (markInvalidFIDs s dr w))"
  shows "I w'"
  using keeps_lifecycle [OF keeps(1) keeps_recordMetrics [OF keeps(1) w]] keeps(2)
  by (intro finish_event_tail [OF keeps(1) fin]) (simp add: mark_keeps_def)

lemma finish_event_dead_letters:
  assumes keeps: "svc_keeps s I" "mark_keeps s I" and f: "sv_PublishToDLQ s = Some f" "sc_EnableDLQ (sv_config s)"
    and pub: "I (snd (f ev (joinDispatchErrors (dr_Errors dr)) (markInvalidFIDs s dr w)))" and u: "unresolved dr > 0"
    and fin: "finish_event s ev t r dr d w = (r', w')"
  shows "I w'"
  using u by (intro finish_event_from_dlq [OF keeps fin]) (simp add: publishToDLQIfUnresolved_def f pub)

lemma keeps_markInvalidFIDs:
  "prune_keeps s I \<or> dr_InvalidFIDs dr = [] \<Longrightarrow> I w \<Longrightarrow> I (markInvalidFIDs s (dr :: DispatchResult) w)"
  by (auto simp: markInvalidFIDs_def keeps_mark_fids)

text \<open>Without an unresolved failure the DLQ is not called.\<close>

lemma finish_event_keeps:
  assumes keeps: "svc_keeps s I" "mark_keeps s I" and prune: "prune_keeps s I \<or> dr_InvalidFIDs dr = []"
    and u: "unresolved dr \<le> 0" and w: "I w"
    and fin: "finish_event s ev t r dr d w = (r', w')"
  shows "I w'"
proof (rule finish_event_from_dlq [OF keeps fin])
  show "I (publishToDLQIfUnresolved s ev dr (markInvalidFIDs s dr w))"
    using keeps_markInvalidFIDs [OF prune w] u
    by (simp add: publishToDLQIfUnresolved_def split: option.split)
qed

text \<open>The whole pipeline keeps what every collaborator keeps, whichever way it ends.\<close>

lemma build_and_dispatch_keeps:
  assumes keeps: "svc_keeps s I" "mark_keeps s I" "dlq_keeps s I" "prune_keeps s I" and w: "I w"
  shows "I (snd (build_and_dispatch s ev st r0 w))"
proof -
  obtain y w1 where b: "sv_BuildMessage s ev w = (y, w1)" by (rule prod.exhaust)
  have w1: "I w1" by (rule keeps_build [OF keeps(1) w b])
  show ?thesis
  proof (cases y)
    case (Inl err)
    with b w1 show ?thesis by (simp add: build_and_dispatch_def)
  next
    case (Inr msg)
    obtain d0 w2 where c0: "sv_clock s w1 = (d0, w2)" by (rule prod.exhaust)
    obtain x n w3 where d: "svc_dispatch s ev msg w2 = (x, n, w3)" by (rule prod_cases3)
    have w3: "I w3" by (rule keeps_dispatch [OF keeps(1) keeps_clock [OF keeps(1) w1 c0] d])
    obtain d1 w4 where c1: "sv_clock s w3 = (d1, w4)" by (rule prod.exhaust)
    have w4: "I w4" by (rule keeps_clock [OF keeps(1) w3 c1])
    have mark: "I (snd (is_MarkProcessed (sv_idempotency s) i t w4))" for i t
      using keeps(2) w4 by (simp add: mark_keeps_def)
    have skip: "I (snd (svc_skip s r t reason w5))" if "I w5" for r t reason w5
      by (rule keeps_skip [OF keeps(1) that surjective_pairing])
    have fin: "I (snd (finish_event s ev t r dr d w4))" for t r dr d
      by (rule finish_event_from_dlq [OF keeps(1,2) surjective_pairing
            keeps_dlq [OF keeps(3) keeps_markInvalidFIDs [OF disjI1, OF keeps(4) w4]]])
    show ?thesis using b Inr c0 d c1 w3 skip [OF mark] fin
      by (cases x) (simp_all add: build_and_dispatch_def Let_def split_beta)
  qed
qed

lemma processEvent_keeps:
  assumes keeps: "svc_keeps s I" "mark_keeps s I" "dlq_keeps s I" "prune_keeps s I" and w: "I w"
  shows "I (snd (processEvent s ev w))"
proof -
  obtain t w1 where c: "sv_clock s w = (t, w1)" by (rule prod.exhaust)
  have w1: "I w1" by (rule keeps_clock [OF keeps(1) w c])
  obtain y w2 where i: "is_IsProcessed (sv_idempotency s) (ev_EventID ev) w1 = (y, w2)" by (rule prod.exhaust)
  have w2: "I w2" by (rule keeps_lookup [OF keeps(1) w1 i])
  have skip: "I (snd (svc_skip s r t reason w5))" if "I w5" for r t reason w5
    by (rule keeps_skip [OF keeps(1) that surjective_pairing])
  have should: "I (snd (f ev w2))" if "sv_ShouldSend s = Some f" for f
    using keeps(1) w2 that by (simp add: svc_keeps_def)
  note rest = build_and_dispatch_keeps [OF keeps]
  consider (invalid) "event_Validate ev \<noteq> None" | (failed) err where "event_Validate ev = None" "y = Inl err"
    | (seen) "event_Validate ev = None" "y = Inr True"
    | (filtered) f where "event_Validate ev = None" "y = Inr False" "sv_ShouldSend s = Some f"
        "sc_EnablePreferencesFilter (sv_config s)" "IsAuthenticated ev"
    | (plain) "event_Validate ev = None" "y = Inr False"
        "\<not> (sc_EnablePreferencesFilter (sv_config s) \<and> IsAuthenticated ev) \<or> sv_ShouldSend s = None"
    by (cases y) (auto, metis (full_types) option.exhaust)
  then show ?thesis
  proof cases
    case invalid
    with c skip [OF w1] w1 show ?thesis by (auto simp: processEvent_def Let_def split_beta)
  next
    case filtered
    obtain should' reason pe w3 where z: "f ev w2 = ((should', reason, pe), w3)" by (metis surj_pair)
    have "I w3" using should [OF filtered(3)] z by simp
    with filtered c i z skip rest show ?thesis by (simp add: processEvent_def Let_def split_beta)
  next
    case plain
    with c i w2 rest show ?thesis by (auto simp: processEvent_def Let_def split: option.split)
  qed (use c i w2 skip in \<open>simp_all add: processEvent_def Let_def split_beta\<close>)
qed

text \<open>The two ways in which the part after the checks returns without error.\<close>

lemma build_and_dispatch_cases:
  assumes "build_and_dispatch s ev st r0 w = (Ret (r, None), w')"
  obtains (none) r1 w4 w5 msg w1 d0 w2 dr n w3 where "w5 = snd (is_MarkProcessed (sv_idempotency s) (ev_EventID ev)
            (sc_IdempotencyTTL (sv_config s)) w4)"
          "svc_skip s r1 st ''no_active_devices'' w5 = (r, w')" "sv_BuildMessage s ev w = (Inr msg, w1)"
          "sv_clock s w1 = (d0, w2)" "svc_dispatch s ev msg w2 = (Ret (dr, None), n, w3)" "TotalCount dr = 0"
    | (sent) msg w1 d0 w2 dr de n w3 d1 w4 where "sv_BuildMessage s ev w = (Inr msg, w1)"
          "sv_clock s w1 = (d0, w2)" "svc_dispatch s ev msg w2 = (Ret (dr, de), n, w3)" "sv_clock s w3 = (d1, w4)"
          "finish_event s ev st (case n of None \<Rightarrow> r0 | Some k \<Rightarrow> r0\<lparr>pr_DeviceCount := k\<rparr>) dr (time_sub d1 d0) w4 = (r, w')"
proof -
  obtain y w1 where b: "sv_BuildMessage s ev w = (y, w1)" by fastforce
  with assms obtain msg where y: "y = Inr msg" by (cases y) (auto simp: build_and_dispatch_def)
  obtain d0 w2 where c0: "sv_clock s w1 = (d0, w2)" by fastforce
  obtain x n w3 where d: "svc_dispatch s ev msg w2 = (x, n, w3)" by (metis surj_pair)
  with assms b y c0 obtain dr de where x: "x = Ret (dr, de)"
    by (cases x) (auto simp: build_and_dispatch_def)
  obtain d1 w4 where c1: "sv_clock s w3 = (d1, w4)" by fastforce
  let ?r1 = "case n of None \<Rightarrow> r0 | Some k \<Rightarrow> r0\<lparr>pr_DeviceCount := k\<rparr>"
  let ?w5 = "snd (is_MarkProcessed (sv_idempotency s) (ev_EventID ev) (sc_IdempotencyTTL (sv_config s)) w4)"
  show thesis
  proof (cases "pr_DeviceCount ?r1 = 0 \<and> TotalCount dr = 0 \<and> de = None")
    case True
    with assms b y c0 d x c1 have "svc_skip s ?r1 st ''no_active_devices'' ?w5 = (r, w')"
      by (simp add: build_and_dispatch_def Let_def split: prod.splits)
    then show thesis using none [OF refl _ b [unfolded y] c0] d x True by blast
  next
    case False
    have "finish_event s ev st ?r1 dr (time_sub d1 d0) w4 = (r, w')"
      using assms b y c0 d x c1 False by (simp add: build_and_dispatch_def Let_def split: prod.splits if_splits)
    with b y c0 d x c1 show thesis using sent by blast
  qed
qed

lemma build_and_dispatch_marks:
  assumes "svc_keeps s I" "\<And>t w. I (snd (is_MarkProcessed (sv_idempotency s) (ev_EventID ev) t w))"
    "build_and_dispatch s ev st r0 w = (Ret (r, None), w')"
  shows "I w'"
  using assms(3)
proof (cases rule: build_and_dispatch_cases)
  case none
  then show ?thesis using keeps_skip [OF assms(1)] assms(2) by blast
next
  case sent
  then show ?thesis using finish_event_marks [OF assms(1,2)] by blast
qed

text \<open>A call that returned without error and did not stop at a check went through the rest.\<close>

lemma processEvent_passed:
  assumes "processEvent s ev w = (Ret (r, None), w')" "event_Validate ev = None"
    "pr_Skipped r \<longrightarrow> pr_SkipReason r = ''no_active_devices''"
  shows "\<exists>st r0 w1. pr_DispatchResult r0 = zero_result \<and> \<not> pr_Skipped r0 \<and> keeps_from s w w1 \<and>
           build_and_dispatch s ev st r0 w1 = (Ret (r, None), w')"
proof -
  obtain st w1 where c: "sv_clock s w = (st, w1)" by fastforce
  let ?r0 = "init_result ev st"
  have r0: "pr_DispatchResult ?r0 = zero_result" "\<not> pr_Skipped ?r0" by (simp_all add: init_result_def)
  have skip: "svc_skip s ?r0 st reason w2 \<noteq> (r, w')" if "reason \<noteq> ''no_active_devices''" for reason w2
    using svc_skip_result [of s ?r0 st reason w2 r w'] assms(3) that by blast
  obtain y w2 where i: "is_IsProcessed (sv_idempotency s) (ev_EventID ev) w1 = (y, w2)" by fastforce
  have w2: "keeps_from s w w2"
    by (rule keeps_fromI) (rule keeps_lookup [OF _ keeps_clock [OF _ _ c] i])
  have "y = Inr False"
  proof (cases y)
    case (Inr b)
    then show ?thesis using assms(1,2) c i skip [of "''already_processed''" w2]
      by (cases b) (auto simp: processEvent_def Let_def split: prod.splits)
  qed (use assms(1,2) c i in \<open>simp add: processEvent_def\<close>)
  show ?thesis
  proof (cases "\<exists>f. sv_ShouldSend s = Some f \<and> sc_EnablePreferencesFilter (sv_config s) \<and> IsAuthenticated ev")
    case False
    then have "build_and_dispatch s ev st ?r0 w2 = (Ret (r, None), w')"
      using assms(1,2) c i \<open>y = Inr False\<close> by (cases "sv_ShouldSend s") (auto simp: processEvent_def)
    then show ?thesis using r0 w2 by blast
  next
    case True
    then obtain f where f: "sv_ShouldSend s = Some f" "sc_EnablePreferencesFilter (sv_config s)" "IsAuthenticated ev"
      by blast
    obtain should reason pe w3 where p: "f ev w2 = ((should, reason, pe), w3)" by (metis surj_pair)
    have "\<not> (pe = None \<and> \<not> should)"
    proof
      assume no: "pe = None \<and> \<not> should"
      then have "svc_skip s ?r0 st (''preferences_'' @ reason) w3 = (r, w')"
        using assms(1,2) c i \<open>y = Inr False\<close> f p by (simp add: processEvent_def split: prod.splits)
      with skip [of "''preferences_'' @ reason" w3] show False by simp
    qed
    then have "build_and_dispatch s ev st ?r0 w3 = (Ret (r, None), w')"
      using assms(1,2) c i \<open>y = Inr False\<close> f p by (auto simp: processEvent_def Let_def split: if_splits)
    moreover have "keeps_from s w2 w3"
      by (rule keeps_fromI) (rule keeps_filter [OF _ f(1) _ p])
    ultimately show ?thesis using r0 keeps_from_trans [OF w2] by blast
  qed
qed

text \<open>A call that was not skipped ends with \<open>finish_event\<close>, and nothing was pruned, marked or dead-lettered before.\<close>

lemma processEvent_finish:
  assumes "processEvent s ev w = (Ret (r, None), w')" "event_Validate ev = None" "\<not> pr_Skipped r"
  obtains st r1 d w4 where "keeps_from s w w4" "finish_event s ev st r1 (pr_DispatchResult r) d w4 = (r, w')"
proof -
  from processEvent_passed [OF assms(1,2)] assms(3) obtain st r0 w1
    where w1: "keeps_from s w w1" and b: "build_and_dispatch s ev st r0 w1 = (Ret (r, None), w')" by blast
  from b show thesis
  proof (cases rule: build_and_dispatch_cases)
    case none
    with svc_skip_result [OF none(2)] assms(3) show ?thesis by simp
  next
    case (sent msg w2 d0 w3 dr de n w4 d1 w5)
    have "keeps_from s w1 w5"
      by (rule keeps_fromI)
        (rule keeps_clock [OF _ keeps_dispatch [OF _ keeps_clock [OF _ keeps_build [OF _ _ sent(1)] sent(2)] sent(3)] sent(4)])
    moreover from finish_event_result [OF sent(5)] have "pr_DispatchResult r = dr" by blast
    ultimately show ?thesis using that [OF keeps_from_trans [OF w1]] sent(5) by simp
  qed
qed

text \<open>
  A call that returned an error has not gone past the rendering of the message: nothing was pruned, marked or
  dead-lettered, so the event can be processed again.
\<close>

lemma build_and_dispatch_error:
  assumes "build_and_dispatch s ev st r0 w = (Ret (r, Some err), w')"
  shows "sv_BuildMessage s ev w = (Inl err, w')"
proof -
  obtain y w1 where b: "sv_BuildMessage s ev w = (y, w1)" by fastforce
  show ?thesis
  proof (cases y)
    case (Inr msg)
    obtain d0 w2 where c0: "sv_clock s w1 = (d0, w2)" by fastforce
    obtain x n w3 where d: "svc_dispatch s ev msg w2 = (x, n, w3)" by (metis surj_pair)
    with assms b Inr c0 show ?thesis
      by (cases x) (auto simp: build_and_dispatch_def Let_def split: prod.splits if_splits)
  qed (use assms b in \<open>simp add: build_and_dispatch_def\<close>)
qed

lemma processEvent_error:
  assumes "processEvent s ev w = (Ret (r, Some err), w')"
  shows "keeps_from s w w'"
proof -
  obtain st w1 where c: "sv_clock s w = (st, w1)" by fastforce
  have w1: "keeps_from s w w1" by (rule keeps_fromI) (rule keeps_clock [OF _ _ c])
  obtain y w2 where i: "is_IsProcessed (sv_idempotency s) (ev_EventID ev) w1 = (y, w2)" by fastforce
  have w2: "keeps_from s w w2"
    by (rule keeps_fromI) (rule keeps_lookup [OF _ keeps_clock [OF _ _ c] i])
  have build: "keeps_from s w w'" if "keeps_from s w v" "build_and_dispatch s ev st r0 v = (Ret (r, Some err), w')" for v r0
    by (rule keeps_from_trans [OF that(1)]) (rule keeps_fromI, rule keeps_build [OF _ _ build_and_dispatch_error [OF that(2)]])
  have filter: "keeps_from s w v" if "sv_ShouldSend s = Some f" "f ev w2 = (z, v)" for f z v
    by (rule keeps_from_trans [OF w2]) (rule keeps_fromI, rule keeps_filter [OF _ that(1) _ that(2)])
  show ?thesis
    using assms c i w1 w2 build filter
    by (simp add: processEvent_def Let_def split: option.splits sum.splits if_splits prod.splits) blast+
qed

text \<open>A call panics only if its dispatch does.\<close>

lemma processEvent_returns:
  assumes "svc_keeps s I" "I w" "\<And>msg v. I v \<Longrightarrow> \<exists>x n v'. svc_dispatch s ev msg v = (Ret x, n, v')"
  shows "\<exists>r e w'. processEvent s ev w = (Ret (r, e), w')"
proof -
  have build: "\<exists>r e w'. build_and_dispatch s ev st r0 v = (Ret (r, e), w')" if v: "I v" for st r0 v
  proof -
    obtain y v1 where b: "sv_BuildMessage s ev v = (y, v1)" by fastforce
    obtain d0 v2 where c0: "sv_clock s v1 = (d0, v2)" by fastforce
    have "I v2" by (rule keeps_clock [OF assms(1) keeps_build [OF assms(1) v b] c0])
    note d = assms(3) [OF this]
    show ?thesis
    proof (cases y)
      case (Inr msg)
      from d [of msg] obtain x n v' where "svc_dispatch s ev msg v2 = (Ret x, n, v')" by blast
      with b c0 Inr show ?thesis
        by (cases x) (simp add: build_and_dispatch_def Let_def split_beta)
    qed (use b in \<open>simp add: build_and_dispatch_def\<close>)
  qed
  obtain st w1 where c: "sv_clock s w = (st, w1)" by fastforce
  obtain y w2 where i: "is_IsProcessed (sv_idempotency s) (ev_EventID ev) w1 = (y, w2)" by fastforce
  have w2: "I w2" by (rule keeps_lookup [OF assms(1) keeps_clock [OF assms(1,2) c] i])
  have filter: "I v" if "sv_ShouldSend s = Some f" "f ev w2 = (z, v)" for f z v
    by (rule keeps_filter [OF assms(1) that(1) w2 that(2)])
  show ?thesis using c i build [OF w2] build [OF filter]
    by (simp add: processEvent_def Let_def split: option.splits sum.splits if_splits prod.splits)
qed

text \<open>An event whose mark is found is skipped after one lookup, whatever the rest of the service does.\<close>

lemma processEvent_marked:
  assumes "event_Validate ev = None" "sv_clock s w = (st, w1)"
    "is_IsProcessed (sv_idempotency s) (ev_EventID ev) w1 = (Inr True, w2)"
  shows "processEvent s ev w =
     (case svc_skip s (init_result ev st) st ''already_processed'' w2 of (r, w3) \<Rightarrow> (Ret (r, None), w3))"
  using assms by (simp add: processEvent_def)

section \<open>The contract of a push dispatcher\<close>

text \<open>
  What the service relies on: a send to distinct devices returns a result that accounts for
  each of them.  \<open>ok\<close> says what the implementation needs of its own set-up \<open>'d\<close>.
\<close>

locale push_dispatcher =
  fixes ok :: "'d \<Rightarrow> bool"
    and send :: "'d \<Rightarrow> Device list \<Rightarrow> Message \<Rightarrow> 'w \<Rightarrow> (DispatchResult \<times> error option) go \<times> 'w"
  assumes send_accounts: "ok d \<Longrightarrow> devices \<noteq> [] \<Longrightarrow> distinct (map dev_FID devices) \<Longrightarrow>
      int (length devices) + FCMMaxBatchSize \<le> max_int64 \<Longrightarrow>
      \<exists>r e w'. send d devices msg w = (Ret (r, e), w') \<and> accounts devices r"
begin

lemma send_batches_accounts:
  assumes "pd_Send (sv_dispatcher s) = send d" "ok d" "accounts sent agg"
    "\<And>b. b \<in> set batches \<Longrightarrow> b \<noteq> [] \<and> distinct (map dev_FID b) \<and> int (length b) + FCMMaxBatchSize \<le> max_int64"
  shows "\<exists>r e' w'. send_batches s msg batches agg e w = (Ret (r, e'), w') \<and> accounts (sent @ concat batches) r"
  using assms(3,4)
proof (induction batches arbitrary: sent agg e w)
  case (Cons b bs)
  from Cons.prems(2) [of b] send_accounts [OF assms(2), of b msg w]
  obtain r e1 w1 where b: "send d b msg w = (Ret (r, e1), w1)" "accounts b r" by auto
  have "accounts (sent @ b) (mergeDispatchResult agg r)"
    using accounts_append [OF Cons.prems(1) b(2)] by (simp add: mergeDispatchResult_def)
  from Cons.IH [OF this, of "case e1 of None \<Rightarrow> e | Some x \<Rightarrow> Some x" w1] Cons.prems(2) b(1) assms(1)
  show ?case by simp
qed simp

lemma dispatchToDevices_accounts:
  assumes "pd_Send (sv_dispatcher s) = send d" "ok d" "sc_EnableDeviceDeduplication (sv_config s) \<or> distinct (map dev_FID devices)"
    "devices \<noteq> []" "int (length devices) + FCMMaxBatchSize \<le> max_int64"
    "int (length devices) + sc_MaxDevicesPerBatch (sv_config s) \<le> max_int64"
  shows "\<exists>r e w'. dispatchToDevices s devices msg w = (Ret (r, e), int (card (dev_FID ` set devices)), w') \<and>
           accounts (Deduplicate devices) r"
proof -
  let ?D = "Deduplicate devices"
  let ?m = "sc_MaxDevicesPerBatch (sv_config s)"
  have dedup: "(if sc_EnableDeviceDeduplication (sv_config s) then ?D else devices) = ?D"
    using assms(3) by (auto simp: Deduplicate_eq first_per_fid_id)
  have ne: "?D \<noteq> []" using assms(4) by simp
  have len: "length ?D = card (dev_FID ` set devices)" by (rule Deduplicate_length)
  have "length ?D \<le> length devices" unfolding len by (metis card_image_le card_length finite_set le_trans)
  then have bound: "int (length ?D) + FCMMaxBatchSize \<le> max_int64" "int (length ?D) + ?m \<le> max_int64"
    using assms(5,6) by linarith+
  show ?thesis
  proof (cases "\<not> sc_EnforceBatching (sv_config s) \<or> ?m \<le> 0")
    case True
    with send_accounts [OF assms(2) ne Deduplicate_distinct bound(1), of msg w] assms(1) ne len show ?thesis
      by (auto simp: dispatchToDevices_def dedup Let_def)
  next
    case False
    with Split_Ret [of ?m ?D] ne bound(2) have sp: "Split ?D ?m = Ret (chunks (nat ?m) ?D)" by simp
    have each: "b \<noteq> [] \<and> distinct (map dev_FID b) \<and> int (length b) + FCMMaxBatchSize \<le> max_int64"
      if inb: "b \<in> set (chunks (nat ?m) ?D)" for b
    proof -
      obtain us vs where "chunks (nat ?m) ?D = us @ b # vs" using split_list [OF inb] by blast
      with Split_concat [OF sp] have D: "?D = concat us @ b @ concat vs" by simp
      have "distinct (map dev_FID b)" using Deduplicate_distinct [of devices] unfolding D by simp
      moreover have "length b \<le> length ?D" unfolding D by simp
      ultimately show ?thesis using Split_nonempty [OF sp ne inb] bound(1) by linarith
    qed
    have "\<exists>r e' w'. send_batches s msg (chunks (nat ?m) ?D) zero_result None w = (Ret (r, e'), w') \<and>
        accounts ([] @ concat (chunks (nat ?m) ?D)) r"
      by (rule send_batches_accounts [OF assms(1,2) accounts_Nil each])
    then obtain r e' w' where "send_batches s msg (chunks (nat ?m) ?D) zero_result None w = (Ret (r, e'), w')"
      "accounts (concat (chunks (nat ?m) ?D)) r" by auto
    with False sp ne len Split_concat [OF sp] show ?thesis
      by (simp add: dispatchToDevices_def dedup Let_def)
  qed
qed

end

interpretation fcm: push_dispatcher
  "\<lambda>(d, order). disp_ok d \<and> (\<forall>gs. mset (order gs) = mset gs)" "\<lambda>(d, order). fcm_Send d order"
proof unfold_locales
  fix dd :: "'a fcmDispatcher \<times> ((string \<times> Device list) list \<Rightarrow> (string \<times> Device list) list)"
    and devices :: "Device list" and msg and w :: "'a dstate"
  obtain d order where dd: "dd = (d, order)" by (cases dd)
  assume ok: "case dd of (d, order) \<Rightarrow> disp_ok d \<and> (\<forall>gs. mset (order gs) = mset gs)"
    and ne: "devices \<noteq> []" and dist: "distinct (map dev_FID devices)"
    and bound: "int (length devices) + FCMMaxBatchSize \<le> max_int64"
  show "\<exists>r e w'. (case dd of (d, order) \<Rightarrow> fcm_Send d order) devices msg w = (Ret (r, e), w') \<and> accounts devices r"
  proof (cases "ValidateSize msg")
    case None
    have card: "card (dev_FID ` set devices) = length devices"
      using dist by (metis distinct_card length_map set_map)
    from ok dd have o: "disp_ok d" "\<forall>gs. mset (order gs) = mset gs" by auto
    from fcm_Send_accounts [OF o None ne bound, of w] obtain r w'
      where "fcm_Send d order devices msg w = (Ret (r, None), w')" "accounts (Deduplicate devices) r" by blast
    moreover have "Deduplicate devices = devices" using dist by (simp add: Deduplicate_eq first_per_fid_id)
    ultimately show ?thesis by (simp add: dd)
  next
    case (Some err)
    with ne show ?thesis by (simp add: dd fcm_Send_def accounts_all_failed del: accounts_errors)
  qed
qed

section \<open>Properties\<close>

text \<open>
  What is assumed of the idempotency store in the properties below: \<open>marked w i\<close> says that the
  event id \<open>i\<close> is recorded and not expired in the world \<open>w\<close>; a lookup answers it, a mark
  establishes it, and no other operation of the service's collaborators undoes it.
\<close>

definition idempotency_ok :: "'w notificationService \<Rightarrow> ('w \<Rightarrow> string \<Rightarrow> bool) \<Rightarrow> string \<Rightarrow> bool" where
  "idempotency_ok s marked i \<longleftrightarrow>
     (\<forall>w. fst (is_IsProcessed (sv_idempotency s) i w) = Inr (marked w i)) \<and>
     (\<forall>t w. marked (snd (is_MarkProcessed (sv_idempotency s) i t w)) i) \<and>
     svc_keeps s (\<lambda>w. marked w i) \<and> dlq_keeps s (\<lambda>w. marked w i) \<and> mark_keeps s (\<lambda>w. marked w i) \<and>
     prune_keeps s (\<lambda>w. marked w i)"

text \<open>The outcome of a duplicate: one clock reading, one lookup, and the skip.\<close>

definition skipped_as_duplicate ::
  "'w notificationService \<Rightarrow> Event \<Rightarrow> 'w \<Rightarrow> (ProcessingResult \<times> error option) go \<times> 'w \<Rightarrow> bool" where
  "skipped_as_duplicate s ev w out \<longleftrightarrow>
     (\<exists>t w1 w2 r w3. sv_clock s w = (t, w1) \<and>
        is_IsProcessed (sv_idempotency s) (ev_EventID ev) w1 = (Inr True, w2) \<and>
        svc_skip s (init_result ev t) t ''already_processed'' w2 = (r, w3) \<and> out = (Ret (r, None), w3))"

lemma marked_is_duplicate:
  assumes "event_Validate ev = None" "idempotency_ok s marked (ev_EventID ev)" "marked w (ev_EventID ev)"
  shows "skipped_as_duplicate s ev w (processEvent s ev w)"
proof -
  obtain t w1 where c: "sv_clock s w = (t, w1)" by fastforce
  have "marked w1 (ev_EventID ev)"
    using assms(2,3) keeps_clock [of s "\<lambda>w. marked w (ev_EventID ev)", OF _ _ c] by (simp add: idempotency_ok_def)
  with assms(2) obtain w2 where i: "is_IsProcessed (sv_idempotency s) (ev_EventID ev) w1 = (Inr True, w2)"
    unfolding idempotency_ok_def by (metis prod.collapse)
  obtain r w3 where "svc_skip s (init_result ev t) t ''already_processed'' w2 = (r, w3)" by fastforce
  with processEvent_marked [OF assms(1) c i] c i show ?thesis
    unfolding skipped_as_duplicate_def by auto
qed

text \<open>
  C2. An event is dispatched at most once while its mark lives: whenever \<^verbatim>\<open>processEvent\<close> got past
  its checks and returned without error, processing the same event again (from the resulting
  world or any later one in which the mark is still there) does nothing but look the mark up and
  report \<^verbatim>\<open>already_processed\<close>: no preferences check, no rendering, no send.
\<close>

theorem processEvent_at_most_once:
  assumes "event_Validate ev = None" and "idempotency_ok s marked (ev_EventID ev)"
    and "processEvent s ev w = (Ret (r, None), w1)"
    and "pr_Skipped r \<longrightarrow> pr_SkipReason r = ''no_active_devices''"
  shows "marked w1 (ev_EventID ev) \<and>
         (\<forall>w2. marked w2 (ev_EventID ev) \<longrightarrow> skipped_as_duplicate s ev w2 (processEvent s ev w2))"
proof -
  from processEvent_passed [OF assms(3,1,4)] obtain st r0 w0
    where b: "build_and_dispatch s ev st r0 w0 = (Ret (r, None), w1)" by blast
  have "marked w1 (ev_EventID ev)"
    using build_and_dispatch_marks [of s "\<lambda>w. marked w (ev_EventID ev)" ev, OF _ _ b] assms(2)
    by (simp add: idempotency_ok_def)
  with marked_is_duplicate [OF assms(1,2)] show ?thesis by blast
qed

text \<open>
  An unresolved failure is dead-lettered: if the dispatch ended with more failures than invalid
  FIDs and the DLQ is enabled, the event has been published to it when \<^verbatim>\<open>processEvent\<close> returns
  (\<open>dead w\<close> is whatever the publication establishes and the other operations keep).
\<close>

theorem unresolved_failure_dead_lettered:
  assumes "event_Validate ev = None" and "processEvent s ev w = (Ret (r, None), w1)" and "\<not> pr_Skipped r"
    and "sv_PublishToDLQ s = Some f" and "sc_EnableDLQ (sv_config s)" and "unresolved (pr_DispatchResult r) > 0"
    and "svc_keeps s dead" and "mark_keeps s dead" and "\<forall>reason w. dead (snd (f ev reason w))"
  shows "dead w1"
proof -
  obtain st r1 d w4 where fin: "finish_event s ev st r1 (pr_DispatchResult r) d w4 = (r, w1)"
    by (rule processEvent_finish [OF assms(2,1,3)])
  show ?thesis by (rule finish_event_dead_letters [OF assms(7,8,4,5) _ assms(6) fin]) (simp add: assms(9))
qed


text \<open>
  C37. A device lookup that fails loses the event silently: \<^verbatim>\<open>processEvent\<close> returns no error and no
  skip, its result counts no device at all, nothing was published to the DLQ (\<open>same\<close> is any property of the world
  that all operations but the publication keep), and the event is marked as processed, so
  its redelivery is dropped as a duplicate.
\<close>

theorem lookup_failure_drops_event:
  assumes "event_Validate ev = None" and "\<not> HasDirectFIDs ev" and "IsAuthenticated ev"
    and "sv_ShouldSend s = None" and "sv_ResolveTarget s = None"
    and "\<forall>w. fst (sv_BuildMessage s ev w) = Inr msg"
    and "\<forall>w. fst (ds_GetActiveDevices (sv_deviceStore s) (ev_UserID ev) w) = Inl err"
    and "idempotency_ok s marked (ev_EventID ev)" and "\<not> marked (snd (sv_clock s w)) (ev_EventID ev)"
    and "svc_keeps s same" and "mark_keeps s same" and "same w"
  shows "\<exists>r w1. processEvent s ev w = (Ret (r, None), w1) \<and> \<not> pr_Skipped r \<and>
           TotalCount (pr_DispatchResult r) = 0 \<and> same w1 \<and> marked w1 (ev_EventID ev) \<and>
           skipped_as_duplicate s ev w1 (processEvent s ev w1)"
proof -
  note keeps = assms(10) [unfolded svc_keeps_def]
  obtain t w1 where c1: "sv_clock s w = (t, w1)" by fastforce
  obtain w2 where i: "is_IsProcessed (sv_idempotency s) (ev_EventID ev) w1 = (Inr False, w2)"
    using assms(8,9) c1 unfolding idempotency_ok_def by (metis prod.collapse snd_conv)
  obtain w3 where b: "sv_BuildMessage s ev w2 = (Inr msg, w3)" using assms(6) by (metis prod.collapse)
  obtain d0 w4 where c2: "sv_clock s w3 = (d0, w4)" by fastforce
  obtain w5 where g: "ds_GetActiveDevices (sv_deviceStore s) (ev_UserID ev) w4 = (Inl err, w5)"
    using assms(7) by (metis prod.collapse)
  obtain d1 w6 where c3: "sv_clock s w5 = (d1, w6)" by fastforce
  obtain r w7 where f: "finish_event s ev t (init_result ev t) zero_result (time_sub d1 d0) w6 = (r, w7)" by fastforce
  have run: "processEvent s ev w = (Ret (r, None), w7)"
    using assms(1-5) c1 i b c2 g c3 f
    by (simp add: processEvent_def build_and_dispatch_def svc_dispatch_def resolveDevicesForEvent_def)
  have "same w6" using assms(12) c1 i b c2 g c3 keeps by (metis snd_conv)
  then have "same w7" using finish_event_keeps [OF assms(10,11) _ _ _ f] by (simp add: unresolved_def)
  moreover have m: "marked w7 (ev_EventID ev)"
    using finish_event_marks [of s "\<lambda>w. marked w (ev_EventID ev)" ev, OF _ _ f] assms(8)
    by (simp add: idempotency_ok_def)
  moreover have "\<not> pr_Skipped r" "TotalCount (pr_DispatchResult r) = 0"
    using finish_event_result [OF f] by (simp_all add: init_result_def)
  ultimately show ?thesis using run marked_is_duplicate [OF assms(1,8) m] by blast
qed

text \<open>
  With device deduplication on, or devices whose FIDs are distinct, the count the service reports is the number of distinct FIDs,
  and the dispatch result accounts for each of them, whatever \<^verbatim>\<open>EnforceBatching\<close> and
  \<^verbatim>\<open>MaxDevicesPerBatch\<close> are: no batch boundary loses or repeats a device, and the number of
  unresolved failures that decides on the DLQ is never negative.
\<close>

theorem dispatchToDevices_conserves:
  assumes "pd_Send (sv_dispatcher s) = fcm_Send d order" and "disp_ok d" and "\<forall>gs. mset (order gs) = mset gs"
    and "sc_EnableDeviceDeduplication (sv_config s) \<or> distinct (map dev_FID devices)" and "devices \<noteq> []"
    and "int (length devices) + FCMMaxBatchSize \<le> max_int64"
    and "int (length devices) + sc_MaxDevicesPerBatch (sv_config s) \<le> max_int64"
  shows "\<exists>r e w'. dispatchToDevices s devices msg w = (Ret (r, e), int (card (dev_FID ` set devices)), w') \<and>
           TotalCount r = int (card (dev_FID ` set devices)) \<and> 0 \<le> unresolved r \<and>
           dr_RetryableErrors r \<le> unresolved r \<and> set (dr_InvalidFIDs r) \<subseteq> dev_FID ` set devices"
proof -
  have send: "pd_Send (sv_dispatcher s) = (case (d, order) of (d, order) \<Rightarrow> fcm_Send d order)"
    using assms(1) by simp
  have ok: "case (d, order) of (d, order) \<Rightarrow> disp_ok d \<and> (\<forall>gs. mset (order gs) = mset gs)"
    using assms(2,3) by simp
  from fcm.dispatchToDevices_accounts [OF send ok assms(4-7), of msg w] obtain r e w' where
    r: "dispatchToDevices s devices msg w = (Ret (r, e), int (card (dev_FID ` set devices)), w')"
      "accounts (Deduplicate devices) r" by blast
  from r(2) have "TotalCount r = int (card (dev_FID ` set devices))" "0 \<le> unresolved r"
    "dr_RetryableErrors r \<le> unresolved r" "set (dr_InvalidFIDs r) \<subseteq> dev_FID ` set devices"
    unfolding accounts_def unresolved_def Deduplicate_length Deduplicate_fids by linarith+
  with r(1) show ?thesis by blast
qed

text \<open>
  A service for the witnesses: its world is the list of marked events, the list of
  dead-lettered events and the number of sends.  \<open>demo_svc fails\<close> has a device store that fails
  or knows one device, and a dispatcher that always fails with a retryable error.
\<close>

record demo_world =
  dw_marked :: "string list"
  dw_dead :: "string list"
  dw_sends :: nat

definition demo_svc :: "bool \<Rightarrow> demo_world notificationService" where
  "demo_svc fails = \<lparr>
     sv_deviceStore =
       \<lparr>ds_GetActiveDevices = (\<lambda>u w. (if fails then Inl (Opaque ''down'') else Inr [demo_device], w)),
        ds_GetActiveDevicesByAnonymousID = (\<lambda>a w. (Inr [], w)), ds_MarkInvalid = (\<lambda>f w. (None, w))\<rparr>,
     sv_dispatcher =
       \<lparr>pd_Send = (\<lambda>ds m w. (Ret (zero_result\<lparr>dr_FailureCount := int (length ds)\<rparr>, None), w\<lparr>dw_sends := dw_sends w + 1\<rparr>)),
        pd_SendToTopic = (\<lambda>t m w. (None, w))\<rparr>,
     sv_BuildMessage = (\<lambda>e w. (Inr demo_msg, w)),
     sv_idempotency =
       \<lparr>is_IsProcessed = (\<lambda>i w. (Inr (i \<in> set (dw_marked w)), w)),
        is_MarkProcessed = (\<lambda>i t w. (None, w\<lparr>dw_marked := i # dw_marked w\<rparr>))\<rparr>,
     sv_ShouldSend = None, sv_ResolveTarget = None,
     sv_PublishToDLQ = Some (\<lambda>e r w. (None, w\<lparr>dw_dead := ev_EventID e # dw_dead w\<rparr>)),
     sv_bus = None, sv_metrics = None, sv_clock = (\<lambda>w. (0, w)), sv_config = DefaultServiceConfig\<rparr>"

definition demo_w0 :: demo_world where
  "demo_w0 = \<lparr>dw_marked = [], dw_dead = [], dw_sends = 0\<rparr>"

lemma demo_event_valid: "event_Validate demo_event = None" "ev_EventID demo_event = ''e1''"
  "\<not> HasDirectFIDs demo_event" "IsAuthenticated demo_event" "ev_UserID demo_event = ''u1''"
  by (simp_all add: event_Validate_def demo_event_def eventtype_IsValid_def priority_IsValid_def
      HasDirectFIDs_def IsAuthenticated_def)

lemma demo_svc_idempotency: "idempotency_ok (demo_svc fails) (\<lambda>w i. i \<in> set (dw_marked w)) ''e1''"
  by (simp add: idempotency_ok_def svc_keeps_def dlq_keeps_def mark_keeps_def prune_keeps_def demo_svc_def)

lemma demo_svc_run:
  "processEvent (demo_svc False) demo_event demo_w0 =
     (Ret ((init_result demo_event 0)\<lparr>pr_DeviceCount := 1, pr_DispatchResult := zero_result\<lparr>dr_FailureCount := 1\<rparr>\<rparr>, None),
      \<lparr>dw_marked = [''e1''], dw_dead = [''e1''], dw_sends = 1\<rparr>)"
  by (simp add: processEvent_def build_and_dispatch_def svc_dispatch_def resolveDevicesForEvent_def
      dispatchToDevices_def finish_event_def markInvalidFIDs_def publishToDLQIfUnresolved_def unresolved_def
      recordMetrics_def publishLifecycleEvent_def demo_event_valid demo_svc_def demo_w0_def
      DefaultServiceConfig_def TotalCount_def init_result_def time_sub_def min_int64_def max_int64_def Let_def)

theorem processEvent_at_most_once_witness:
  "skipped_as_duplicate (demo_svc False) demo_event \<lparr>dw_marked = [''e1''], dw_dead = [''e1''], dw_sends = 1\<rparr>
     (processEvent (demo_svc False) demo_event \<lparr>dw_marked = [''e1''], dw_dead = [''e1''], dw_sends = 1\<rparr>)"
  using processEvent_at_most_once [OF demo_event_valid(1), of "demo_svc False" "\<lambda>w i. i \<in> set (dw_marked w)",
      OF _ demo_svc_run] demo_svc_idempotency [of False]
  by (simp add: demo_event_valid init_result_def)

theorem unresolved_failure_dead_lettered_witness:
  "''e1'' \<in> set (dw_dead (snd (processEvent (demo_svc False) demo_event demo_w0)))"
proof -
  have "svc_keeps (demo_svc False) (\<lambda>w. ''e1'' \<in> set (dw_dead w))"
    "mark_keeps (demo_svc False) (\<lambda>w. ''e1'' \<in> set (dw_dead w))"
    by (simp_all add: svc_keeps_def mark_keeps_def demo_svc_def)
  from unresolved_failure_dead_lettered [OF demo_event_valid(1) demo_svc_run _ _ _ _ this] demo_svc_run
  show ?thesis
    by (simp add: demo_svc_def DefaultServiceConfig_def unresolved_def init_result_def demo_event_valid)
qed

theorem lookup_failure_drops_event_witness:
  "\<exists>r w1. processEvent (demo_svc True) demo_event demo_w0 = (Ret (r, None), w1) \<and> \<not> pr_Skipped r \<and>
     dw_sends w1 = 0 \<and> dw_dead w1 = [] \<and> ''e1'' \<in> set (dw_marked w1)"
proof -
  let ?same = "\<lambda>w. dw_dead w = []"
  have "fst (sv_BuildMessage (demo_svc True) demo_event w) = Inr demo_msg"
    "fst (ds_GetActiveDevices (sv_deviceStore (demo_svc True)) ''u1'' w) = Inl (Opaque ''down'')" for w
    by (simp_all add: demo_svc_def)
  moreover have "svc_keeps (demo_svc True) ?same" "mark_keeps (demo_svc True) ?same" "?same demo_w0"
    by (simp_all add: svc_keeps_def mark_keeps_def demo_svc_def demo_w0_def)
  ultimately obtain r w1 where r: "processEvent (demo_svc True) demo_event demo_w0 = (Ret (r, None), w1)"
    "\<not> pr_Skipped r" "?same w1" "''e1'' \<in> set (dw_marked w1)"
    using lookup_failure_drops_event [of demo_event "demo_svc True" demo_msg "Opaque ''down''"
        "\<lambda>w i. i \<in> set (dw_marked w)" demo_w0 ?same] demo_svc_idempotency [of True] demo_event_valid
    by (auto simp: demo_svc_def demo_w0_def)
  have "dw_sends w1 = 0"
    using r(1) demo_event_valid
    by (auto simp: processEvent_def build_and_dispatch_def svc_dispatch_def resolveDevicesForEvent_def
        finish_event_def markInvalidFIDs_def publishToDLQIfUnresolved_def unresolved_def
        recordMetrics_def publishLifecycleEvent_def demo_svc_def demo_w0_def DefaultServiceConfig_def Let_def)
  with r show ?thesis by blast
qed

text \<open>The FCM dispatcher as the service's collaborator, with batches of two devices.\<close>

definition demo_fcm_svc :: "string list list dstate notificationService" where
  "demo_fcm_svc = \<lparr>
     sv_deviceStore =
       \<lparr>ds_GetActiveDevices = (\<lambda>u w. (Inr demo_devices, w)),
        ds_GetActiveDevicesByAnonymousID = (\<lambda>a w. (Inr [], w)), ds_MarkInvalid = (\<lambda>f w. (None, w))\<rparr>,
     sv_dispatcher = \<lparr>pd_Send = fcm_Send demo_dispatcher (\<lambda>gs. gs), pd_SendToTopic = SendToTopic demo_dispatcher\<rparr>,
     sv_BuildMessage = (\<lambda>e w. (Inr demo_msg, w)),
     sv_idempotency = \<lparr>is_IsProcessed = (\<lambda>i w. (Inr False, w)), is_MarkProcessed = (\<lambda>i t w. (None, w))\<rparr>,
     sv_ShouldSend = None, sv_ResolveTarget = None, sv_PublishToDLQ = None,
     sv_bus = None, sv_metrics = None, sv_clock = (\<lambda>w. (0, w)),
     sv_config = DefaultServiceConfig\<lparr>sc_EnableDeviceDeduplication := True, sc_EnforceBatching := True,
       sc_MaxDevicesPerBatch := 2\<rparr>\<rparr>"

theorem dispatchToDevices_conserves_witness:
  "\<exists>r e w'. dispatchToDevices demo_fcm_svc demo_devices demo_msg \<lparr>ds_cb = None, ds_w = []\<rparr> = (Ret (r, e), 3, w') \<and>
     TotalCount r = 3 \<and> 0 \<le> unresolved r"
  using dispatchToDevices_conserves [of demo_fcm_svc demo_dispatcher "\<lambda>gs. gs" demo_devices demo_msg
      "\<lparr>ds_cb = None, ds_w = []\<rparr>", OF _ demo_dispatcher_ok]
  by (auto simp: demo_fcm_svc_def demo_devices_def direct_fid_def DefaultServiceConfig_def FCMMaxBatchSize_def
      max_int64_def)

section \<open>Submit and Close\<close>

definition svc_inv :: "svc_sys \<Rightarrow> bool" where
  "svc_inv s \<longleftrightarrow> (wp_queue_closed (ss_pool s) \<longrightarrow> ss_closed s)"

lemma pool_Submit_closed: "pool_Submit e p = (r, p') \<Longrightarrow> wp_queue_closed p' = wp_queue_closed p"
  by (auto simp: pool_Submit_def split: if_splits)

lemma svc_step_inv: "svc_step s t \<Longrightarrow> svc_inv s \<Longrightarrow> svc_inv t"
  by (induction rule: svc_step.induct) (auto simp: svc_inv_def dest: pool_Submit_closed)

lemma svc_reach_inv: "svc_reach s \<Longrightarrow> svc_inv s"
proof (induction rule: svc_reach.induct)
  case (start config m wp)
  then show ?case by (auto simp: svc_inv_def NewWorkerPool_def Start_def Let_def)
qed (rule svc_step_inv)

text \<open>
  A \<^verbatim>\<open>Submit\<close> that finds the service open and reaches the queue before \<^verbatim>\<open>Close\<close> sets the flag
  never panics: in every reachable state in which the flag is still unset, the queue is open.
\<close>

theorem submit_safe_while_open:
  assumes "svc_reach s" and "\<not> ss_closed s"
  shows "\<exists>r pool'. pool_Submit event (ss_pool s) = (Ret r, pool')"
  using svc_reach_inv [OF assms(1)] assms(2) by (auto simp: svc_inv_def pool_Submit_def)

definition demo_queue :: "Event WorkerPool" where
  "demo_queue = \<lparr>wp_workers = 1, wp_cap = 1, wp_queue = [], wp_queue_closed = False,
     wp_ctx_canceled = False, wp_threads = [], wp_stop = Running, wp_has_metrics = False, wp_skipped = 0,
     wp_accepted = [], wp_taken = [], wp_handled = []\<rparr>"

lemma demo_svc_start: "svc_reach \<lparr>ss_closed = False, ss_pool = Start demo_queue, ss_checked = {#}\<rparr>"
  by (rule svc_reach.start [of "\<lparr>wpc_Workers = 1, wpc_QueueSize = 1\<rparr>" False]) (simp add: NewWorkerPool_def demo_queue_def)

theorem submit_safe_while_open_witness:
  "\<exists>r pool'. pool_Submit demo_event (Start demo_queue) = (Ret r, pool')"
  using submit_safe_while_open [OF demo_svc_start, of demo_event] by simp

text \<open>
  \<^verbatim>\<open>Submit\<close> and \<^verbatim>\<open>Close\<close> are not safe to run concurrently: there is a reachable state in which a
  \<^verbatim>\<open>Submit\<close> that saw the service open is about to send on the queue that \<^verbatim>\<open>Close\<close> has closed in the
  meantime, and that send panics.
\<close>

theorem submit_races_with_close:
  "\<exists>s. svc_reach s \<and> demo_event \<in># ss_checked s \<and>
       fst (pool_Submit demo_event (ss_pool s)) = Panic ''send on closed channel''"
proof -
  let ?s0 = "\<lparr>ss_closed = False, ss_pool = Start demo_queue, ss_checked = {#}\<rparr>"
  let ?s1 = "?s0\<lparr>ss_checked := {#demo_event#}\<rparr>"
  let ?s2 = "?s1\<lparr>ss_closed := True\<rparr>"
  let ?s3 = "?s2\<lparr>ss_pool := (Start demo_queue)\<lparr>wp_queue_closed := True, wp_stop := Draining\<rparr>\<rparr>"
  have "svc_step ?s0 ?s1" using svc_step.check [of ?s0 demo_event] by simp
  then have "svc_reach ?s1" by (rule svc_reach.step [OF demo_svc_start])
  then have "svc_reach ?s2" by (rule svc_reach.step) (rule svc_step.set_closed)
  moreover have "svc_step ?s2 ?s3"
    using svc_step.stop_pool [of ?s2] by (simp add: Start_def demo_queue_def)
  ultimately have "svc_reach ?s3" by (rule svc_reach.step)
  then show ?thesis by (intro exI [of _ ?s3]) (simp add: pool_Submit_def)
qed

end
