(* ===== verification/Grnoti_Experiment.thy ===== *)
theory Grnoti_Experiment
  imports Grnoti_Service
begin

text \<open>
  A/B experiments: the variant types (\<^verbatim>\<open>types.go\<close>), the deterministic choice of a variant and the
  engine with an in-process assignment cache (\<^verbatim>\<open>experiment.go\<close>), and the in-memory store of experiment
  definitions (\<^verbatim>\<open>memory.go\<close>).  The MD5 digest is a parameter: nothing below depends on which
  function of its input it is.
\<close>

section \<open>Types\<close>

record ExperimentVariant =
  xv_ID :: string
  xv_Name :: string
  xv_Weight :: int
  xv_Payload :: strmap

record Experiment =
  ex_ID :: string
  ex_Name :: string
  ex_Variants :: "ExperimentVariant list"
  ex_Enabled :: bool
  ex_CreatedAt :: Time
  ex_UpdatedAt :: Time

record 'w AnalyticsPublisher =
  ap_PublishImpression :: "string \<Rightarrow> string \<Rightarrow> string \<Rightarrow> 'w \<Rightarrow> error option \<times> 'w"
  ap_PublishConversion :: "string \<Rightarrow> string \<Rightarrow> 'w \<Rightarrow> error option \<times> 'w"

section \<open>The deterministic choice\<close>

definition assignmentKey :: "string \<Rightarrow> string \<Rightarrow> string" where
  "assignmentKey userID experimentID = userID @ '':'' @ experimentID"

definition variant_weight :: "ExperimentVariant \<Rightarrow> int" where
  "variant_weight v = (if xv_Weight v \<le> 0 then 1 else xv_Weight v)"

fun total_loop :: "int \<Rightarrow> ExperimentVariant list \<Rightarrow> int" where
  "total_loop totalWeight [] = totalWeight"
| "total_loop totalWeight (v # vs) = total_loop (wrap64 (totalWeight + variant_weight v)) vs"

fun bucket_loop :: "int \<Rightarrow> int \<Rightarrow> ExperimentVariant list \<Rightarrow> ExperimentVariant option" where
  "bucket_loop bucket cumulative [] = None"
| "bucket_loop bucket cumulative (v # vs) =
     (let cumulative' = wrap64 (cumulative + variant_weight v)
      in if bucket < cumulative' then Some v else bucket_loop bucket cumulative' vs)"

text \<open>The variant of a bucket, with the fallback to the last one after the loop.\<close>

definition pick_bucket :: "int \<Rightarrow> Experiment \<Rightarrow> ExperimentVariant" where
  "pick_bucket bucket experiment =
     (case bucket_loop bucket 0 (ex_Variants experiment) of
        Some v \<Rightarrow> v
      | None \<Rightarrow> last (ex_Variants experiment))"

text \<open>\<^verbatim>\<open>binary.BigEndian.Uint32(h[:4])\<close>\<close>

definition BigEndian_Uint32 :: "string \<Rightarrow> int" where
  "BigEndian_Uint32 h = foldl (\<lambda>n c. 256 * n + of_char c) 0 (take 4 h)"

text \<open>The remainder by \<^verbatim>\<open>uint32(totalWeight)\<close> panics when that is zero.\<close>

definition deterministicPick :: "(string \<Rightarrow> string) \<Rightarrow> string \<Rightarrow> Experiment \<Rightarrow> ExperimentVariant go" where
  "deterministicPick md5_Sum userID experiment =
     (let totalWeight = total_loop 0 (ex_Variants experiment);
          h = md5_Sum (userID @ '':'' @ ex_ID experiment)
      in if to_uint32 totalWeight = 0 then Panic ''integer divide by zero''
         else Ret (pick_bucket (BigEndian_Uint32 h mod to_uint32 totalWeight) experiment))"

section \<open>The engine\<close>

record 'w deterministicExperimentEngine =
  de_assignments :: "(string, ExperimentVariant) gomap"
  de_analytics :: "'w AnalyticsPublisher option"
  de_bus :: "(bus_event \<Rightarrow> 'w \<Rightarrow> error option \<times> 'w) option"

definition NewDeterministicExperimentEngine ::
  "'w AnalyticsPublisher option \<Rightarrow> (bus_event \<Rightarrow> 'w \<Rightarrow> error option \<times> 'w) option \<Rightarrow> 'w deterministicExperimentEngine" where
  "NewDeterministicExperimentEngine analytics bus =
     \<lparr>de_assignments = [], de_analytics = analytics, de_bus = bus\<rparr>"

definition de_GetVariant :: "string \<Rightarrow> string \<Rightarrow> 'w deterministicExperimentEngine \<Rightarrow> ExperimentVariant option" where
  "de_GetVariant userID experimentID e = map_of (de_assignments e) (assignmentKey userID experimentID)"

definition assigned_payload :: "string \<Rightarrow> Experiment \<Rightarrow> ExperimentVariant \<Rightarrow> ExperimentAssignedPayload" where
  "assigned_payload userID experiment variant =
     \<lparr>ea_UserID = userID, ea_ExperimentID = ex_ID experiment, ea_VariantID = xv_ID variant, ea_Timestamp = zero_time\<rparr>"

text \<open>
  \<^verbatim>\<open>AssignVariant\<close>.  The check, the choice and the write happen under one hold of the write lock, so
  concurrent calls are a sequence of these steps; a nil experiment is \<open>None\<close>.
\<close>

definition de_AssignVariant ::
  "(string \<Rightarrow> string) \<Rightarrow> ('w \<Rightarrow> Time \<times> 'w) \<Rightarrow> string \<Rightarrow> Experiment option \<Rightarrow>
     'w deterministicExperimentEngine \<times> 'w \<Rightarrow>
     (error + ExperimentVariant) go \<times> 'w deterministicExperimentEngine \<times> 'w" where
  "de_AssignVariant md5_Sum clock userID experiment = (\<lambda>(e, w).
     (case experiment of
        None \<Rightarrow> (Ret (Inl (Sentinel ErrExperimentHasNoVariants)), e, w)
      | Some x \<Rightarrow>
          if length (ex_Variants x) = 0 then (Ret (Inl (Sentinel ErrExperimentHasNoVariants)), e, w)
          else (let key = assignmentKey userID (ex_ID x)
                in case map_of (de_assignments e) key of
                     Some v \<Rightarrow> (Ret (Inr v), e, w)
                   | None \<Rightarrow>
                       (case deterministicPick md5_Sum userID x of
                          Panic p \<Rightarrow> (Panic p, e, w)
                        | Ret variant \<Rightarrow>
                            (let e' = e\<lparr>de_assignments := AList.update key variant (de_assignments e)\<rparr>;
                                 w' = PublishAssigned clock (de_bus e) (assigned_payload userID x variant) w
                             in (Ret (Inr variant), e', w'))))))"

definition TrackImpression ::
  "'w AnalyticsPublisher option \<Rightarrow> string \<Rightarrow> string \<Rightarrow> string \<Rightarrow> 'w \<Rightarrow> error option \<times> 'w" where
  "TrackImpression analytics userID experimentID variantID w =
     (case analytics of
        None \<Rightarrow> (None, w)
      | Some a \<Rightarrow> ap_PublishImpression a userID experimentID variantID w)"

definition TrackConversion ::
  "'w AnalyticsPublisher option \<Rightarrow> string \<Rightarrow> string \<Rightarrow> 'w \<Rightarrow> error option \<times> 'w" where
  "TrackConversion analytics userID experimentID w =
     (case analytics of
        None \<Rightarrow> (None, w)
      | Some a \<Rightarrow> ap_PublishConversion a userID experimentID w)"

section \<open>The in-memory store of definitions\<close>

text \<open>
  \<^verbatim>\<open>CreateExperiment\<close> and \<^verbatim>\<open>UpdateExperiment\<close> write the time stamps through the caller's pointer, so the
  experiment is part of their result.
\<close>

record memoryExperimentStore =
  mes_experiments :: "(string, Experiment) gomap"

definition NewMemoryExperimentStore :: memoryExperimentStore where
  "NewMemoryExperimentStore = \<lparr>mes_experiments = []\<rparr>"

definition mem_CreateExperiment ::
  "Time \<Rightarrow> Experiment \<Rightarrow> memoryExperimentStore \<Rightarrow> error option \<times> Experiment \<times> memoryExperimentStore" where
  "mem_CreateExperiment now experiment s =
     (let x = experiment\<lparr>ex_CreatedAt := now, ex_UpdatedAt := now\<rparr>
      in (None, x, s\<lparr>mes_experiments := AList.update (ex_ID x) x (mes_experiments s)\<rparr>))"

definition mem_GetExperiment :: "string \<Rightarrow> memoryExperimentStore \<Rightarrow> error + Experiment" where
  "mem_GetExperiment experimentID s =
     (case map_of (mes_experiments s) experimentID of
        None \<Rightarrow> Inl (Sentinel ErrExperimentNotFound)
      | Some e \<Rightarrow> Inr e)"

definition mem_UpdateExperiment ::
  "Time \<Rightarrow> Experiment \<Rightarrow> memoryExperimentStore \<Rightarrow> error option \<times> Experiment \<times> memoryExperimentStore" where
  "mem_UpdateExperiment now experiment s =
     (case map_of (mes_experiments s) (ex_ID experiment) of
        None \<Rightarrow> (Some (Sentinel ErrExperimentNotFound), experiment, s)
      | Some existing \<Rightarrow>
          (let x = experiment\<lparr>ex_CreatedAt := ex_CreatedAt existing, ex_UpdatedAt := now\<rparr>
           in (None, x, s\<lparr>mes_experiments := AList.update (ex_ID x) x (mes_experiments s)\<rparr>)))"

definition mem_DeleteExperiment :: "string \<Rightarrow> memoryExperimentStore \<Rightarrow> memoryExperimentStore" where
  "mem_DeleteExperiment experimentID s = s\<lparr>mes_experiments := AList.delete experimentID (mes_experiments s)\<rparr>"

definition mem_ListExperiments :: "memoryExperimentStore \<Rightarrow> Experiment list" where
  "mem_ListExperiments s = sort_key ex_ID (map snd (mes_experiments s))"

section \<open>Lemmas on the choice\<close>

lemma variant_weight_pos: "0 < variant_weight v"
  by (simp add: variant_weight_def)

definition weight_sum :: "ExperimentVariant list \<Rightarrow> int" where
  "weight_sum vs = sum_list (map variant_weight vs)"

lemma weight_sum_simps [simp]: "weight_sum [] = 0" "weight_sum (v # vs) = variant_weight v + weight_sum vs"
  by (simp_all add: weight_sum_def)

lemma weight_sum_nonneg: "0 \<le> weight_sum vs"
  using variant_weight_pos by (induction vs) (auto simp: less_imp_le intro: add_nonneg_nonneg)

lemma total_loop_sum: "0 \<le> acc \<Longrightarrow> acc + weight_sum vs < 2 ^ 32 \<Longrightarrow> total_loop acc vs = acc + weight_sum vs"
proof (induction vs arbitrary: acc)
  case (Cons v vs)
  have "wrap64 (acc + variant_weight v) = acc + variant_weight v"
    using Cons.prems variant_weight_pos [of v] weight_sum_nonneg [of vs]
    by (intro wrap64_id) (simp_all add: min_int64_def max_int64_def)
  then show ?case using Cons.IH [of "acc + variant_weight v"] Cons.prems variant_weight_pos [of v] by simp
qed simp

text \<open>The buckets of the \<open>i\<close>-th variant: an interval as long as its weight.\<close>

definition buckets_of :: "ExperimentVariant list \<Rightarrow> nat \<Rightarrow> int set" where
  "buckets_of vs i = {weight_sum (take i vs) ..< weight_sum (take (Suc i) vs)}"

lemma weight_sum_take_Suc: "i < length vs \<Longrightarrow> weight_sum (take (Suc i) vs) = weight_sum (take i vs) + variant_weight (vs ! i)"
  by (simp add: weight_sum_def take_Suc_conv_app_nth)

lemma card_buckets_of: "i < length vs \<Longrightarrow> int (card (buckets_of vs i)) = variant_weight (vs ! i)"
  using variant_weight_pos [of "vs ! i"] by (simp add: buckets_of_def weight_sum_take_Suc)

lemma bucket_loop_at:
  assumes "0 \<le> acc" "acc + weight_sum vs < 2 ^ 32" "i < length vs" "b - acc \<in> buckets_of vs i"
  shows "bucket_loop b acc vs = Some (vs ! i)"
  using assms
proof (induction vs arbitrary: acc i)
  case (Cons v vs)
  have wrap: "wrap64 (acc + variant_weight v) = acc + variant_weight v"
    using Cons.prems(1,2) variant_weight_pos [of v] weight_sum_nonneg [of vs]
    by (intro wrap64_id) (simp_all add: min_int64_def max_int64_def)
  show ?case
  proof (cases i)
    case 0
    then show ?thesis using Cons.prems(4) by (simp add: wrap buckets_of_def)
  next
    case (Suc j)
    have "\<not> b < acc + variant_weight v"
      using Cons.prems(4) Suc weight_sum_nonneg [of "take j vs"] by (simp add: buckets_of_def)
    moreover have "bucket_loop b (acc + variant_weight v) vs = Some (vs ! j)"
      by (rule Cons.IH) (use Cons.prems Suc variant_weight_pos [of v] in \<open>auto simp: buckets_of_def\<close>)
    ultimately show ?thesis by (simp add: wrap Suc)
  qed
qed simp

lemma buckets_cover:
  assumes "0 \<le> b" "b < weight_sum vs"
  shows "\<exists>i < length vs. b \<in> buckets_of vs i"
  using assms
proof (induction vs rule: rev_induct)
  case (snoc v vs)
  show ?case
  proof (cases "b < weight_sum vs")
    case True
    then obtain i where "i < length vs" "b \<in> buckets_of vs i" using snoc by blast
    then show ?thesis by (intro exI [of _ i]) (simp add: buckets_of_def)
  next
    case False
    then show ?thesis using snoc.prems
      by (intro exI [of _ "length vs"]) (simp add: buckets_of_def weight_sum_def)
  qed
qed simp

lemma pick_bucket_at:
  "weight_sum (ex_Variants x) < 2 ^ 32 \<Longrightarrow> i < length (ex_Variants x) \<Longrightarrow> b \<in> buckets_of (ex_Variants x) i \<Longrightarrow>
     pick_bucket b x = ex_Variants x ! i"
  using bucket_loop_at [of 0 "ex_Variants x" i b] by (simp add: pick_bucket_def)

lemma pick_bucket_preimage:
  assumes small: "weight_sum (ex_Variants x) < 2 ^ 32" and i: "i < length (ex_Variants x)"
    and dist: "distinct (ex_Variants x)"
  shows "{b. 0 \<le> b \<and> b < weight_sum (ex_Variants x) \<and> pick_bucket b x = ex_Variants x ! i} = buckets_of (ex_Variants x) i"
    (is "?L = _")
proof (intro equalityI subsetI)
  fix b assume b: "b \<in> ?L"
  then obtain j where j: "j < length (ex_Variants x)" "b \<in> buckets_of (ex_Variants x) j"
    using buckets_cover by blast
  then have "ex_Variants x ! j = ex_Variants x ! i" using b pick_bucket_at [OF small j] by simp
  then show "b \<in> buckets_of (ex_Variants x) i" using j i dist by (simp add: nth_eq_iff_index_eq)
next
  fix b assume b: "b \<in> buckets_of (ex_Variants x) i"
  have "weight_sum (ex_Variants x) = weight_sum (take (Suc i) (ex_Variants x)) + weight_sum (drop (Suc i) (ex_Variants x))"
    unfolding weight_sum_def sum_list_append [symmetric] map_append [symmetric] by simp
  then show "b \<in> ?L" using b pick_bucket_at [OF small i b] weight_sum_nonneg [of "take i (ex_Variants x)"]
      weight_sum_nonneg [of "drop (Suc i) (ex_Variants x)"]
    by (simp add: buckets_of_def)
qed

lemma weight_sum_pos: "vs \<noteq> [] \<Longrightarrow> 0 < weight_sum vs"
  using variant_weight_pos [of "hd vs"] weight_sum_nonneg [of "tl vs"] by (cases vs) simp_all

lemma deterministicPick_bucket:
  assumes "ex_Variants x \<noteq> []" "weight_sum (ex_Variants x) < 2 ^ 32"
  shows "deterministicPick md5 u x = Ret (pick_bucket (BigEndian_Uint32 (md5 (assignmentKey u (ex_ID x))) mod weight_sum (ex_Variants x)) x)"
  using total_loop_sum [of 0 "ex_Variants x"] weight_sum_pos [OF assms(1)] assms(2)
  by (simp add: deterministicPick_def Let_def to_uint32_id assignmentKey_def)

section \<open>Sequences of assignments\<close>

text \<open>
  The calls of concurrent clients in the order in which they take the lock.
\<close>

fun assign_all ::
  "(string \<Rightarrow> string) \<Rightarrow> ('w \<Rightarrow> Time \<times> 'w) \<Rightarrow> (string \<times> Experiment) list \<Rightarrow>
     'w deterministicExperimentEngine \<times> 'w \<Rightarrow>
     (error + ExperimentVariant) go list \<times> 'w deterministicExperimentEngine \<times> 'w" where
  "assign_all md5 clock [] st = ([], st)"
| "assign_all md5 clock ((u, x) # calls) st =
     (case de_AssignVariant md5 clock u (Some x) st of (r, st1) \<Rightarrow>
        (case assign_all md5 clock calls st1 of (rs, st2) \<Rightarrow> (r # rs, st2)))"

abbreviation assigned_at :: "'w deterministicExperimentEngine \<times> 'w \<Rightarrow> string \<Rightarrow> ExperimentVariant option" where
  "assigned_at st k \<equiv> map_of (de_assignments (fst st)) k"

fun call_key :: "string \<times> Experiment \<Rightarrow> string" where
  "call_key (u, x) = assignmentKey u (ex_ID x)"

fun assigned_key :: "bus_event \<Rightarrow> string" where
  "assigned_key ev = (case be_Payload ev of
     AssignedPayload p \<Rightarrow> assignmentKey (ea_UserID p) (ea_ExperimentID p) | _ \<Rightarrow> [])"

text \<open>The bus appends what it is given to a record that nothing else touches.\<close>

definition bus_logs ::
  "('w \<Rightarrow> Time \<times> 'w) \<Rightarrow> (bus_event \<Rightarrow> 'w \<Rightarrow> error option \<times> 'w) \<Rightarrow> ('w \<Rightarrow> bus_event list) \<Rightarrow> bool" where
  "bus_logs clock publish published \<longleftrightarrow>
     (\<forall>ev w. published (snd (publish ev w)) = published w @ [ev]) \<and> (\<forall>w. published (snd (clock w)) = published w)"

lemma PublishAssigned_log:
  assumes "bus_logs clock publish published"
  shows "map assigned_key (published (PublishAssigned clock (Some publish) (assigned_payload u x v) w)) =
    map assigned_key (published w) @ [assignmentKey u (ex_ID x)]"
  using assms by (cases "clock w")
    (auto simp: PublishAssigned_def assigned_payload_def bus_logs_def IsZero_def Let_def dest: spec [of _ w])

lemma assign_cases:
  assumes "de_AssignVariant md5 clock u (Some x) st = (r, st')"
  obtains (kept) "st' = st" "\<And>v. r = Ret (Inr v) \<Longrightarrow> assigned_at st (assignmentKey u (ex_ID x)) = Some v"
    | (fresh) v where "r = Ret (Inr v)" "assigned_at st (assignmentKey u (ex_ID x)) = None"
      "de_assignments (fst st') = AList.update (assignmentKey u (ex_ID x)) v (de_assignments (fst st))"
      "de_bus (fst st') = de_bus (fst st)"
      "snd st' = PublishAssigned clock (de_bus (fst st)) (assigned_payload u x v) (snd st)"
  using assms
  by (cases st) (auto simp: de_AssignVariant_def Let_def split: if_splits option.splits go.splits)

lemma assign_known:
  "assigned_at st (assignmentKey u (ex_ID x)) = Some v \<Longrightarrow> ex_Variants x \<noteq> [] \<Longrightarrow>
     de_AssignVariant md5 clock u (Some x) st = (Ret (Inr v), st)"
  by (cases st) (simp add: de_AssignVariant_def Let_def)

lemma assign_persists:
  "de_AssignVariant md5 clock u (Some x) st = (r, st') \<Longrightarrow> assigned_at st k = Some v \<Longrightarrow> assigned_at st' k = Some v"
  by (erule assign_cases) auto

lemma assign_returns:
  "de_AssignVariant md5 clock u (Some x) st = (Ret (Inr v), st') \<Longrightarrow> assigned_at st' (assignmentKey u (ex_ID x)) = Some v"
  by (erule assign_cases) auto

lemma assign_all_known:
  assumes "assign_all md5 clock calls st = (rs, st')" "assigned_at st k = Some v"
    and "j < length calls" "call_key (calls ! j) = k" "ex_Variants (snd (calls ! j)) \<noteq> []"
  shows "rs ! j = Ret (Inr v)"
  using assms
proof (induction calls arbitrary: st rs j)
  case (Cons c calls)
  obtain u x where c: "c = (u, x)" by (cases c)
  obtain r st1 where r: "de_AssignVariant md5 clock u (Some x) st = (r, st1)" by (rule prod.exhaust)
  obtain rs' where rs: "assign_all md5 clock calls st1 = (rs', st')" "rs = r # rs'"
    using Cons.prems(1) r by (auto simp: c split: prod.splits)
  show ?case
  proof (cases j)
    case 0
    then show ?thesis using assign_known [of st u x v] Cons.prems(2,4,5) r by (simp add: c rs)
  next
    case (Suc j')
    then show ?thesis
      using Cons.IH [OF rs(1) assign_persists [OF r Cons.prems(2)], of j'] Cons.prems by (simp add: rs)
  qed
qed simp

lemma assign_all_stable:
  assumes "assign_all md5 clock calls st = (rs, st')" "i < j" "j < length calls"
    and "call_key (calls ! i) = call_key (calls ! j)" "ex_Variants (snd (calls ! j)) \<noteq> []"
    and "rs ! i = Ret (Inr v)"
  shows "rs ! j = Ret (Inr v)"
  using assms
proof (induction calls arbitrary: st rs i j)
  case (Cons c calls)
  obtain u x where c: "c = (u, x)" by (cases c)
  obtain r st1 where r: "de_AssignVariant md5 clock u (Some x) st = (r, st1)" by (rule prod.exhaust)
  obtain rs' where rs: "assign_all md5 clock calls st1 = (rs', st')" "rs = r # rs'"
    using Cons.prems(1) r by (auto simp: c split: prod.splits)
  obtain j' where j: "j = Suc j'" using Cons.prems(2) by (cases j) auto
  show ?case
  proof (cases i)
    case 0
    then have "assigned_at st1 (call_key c) = Some v" using assign_returns r Cons.prems(6) by (simp add: c rs)
    then show ?thesis using assign_all_known [OF rs(1), of "call_key c" v j'] Cons.prems 0 by (simp add: j rs)
  next
    case (Suc i')
    then show ?thesis using Cons.IH [OF rs(1), of i' j'] Cons.prems by (simp add: j rs)
  qed
qed simp

definition log_matches :: "('w \<Rightarrow> bus_event list) \<Rightarrow> 'w deterministicExperimentEngine \<times> 'w \<Rightarrow> bool" where
  "log_matches published st \<longleftrightarrow> distinct (map assigned_key (published (snd st))) \<and>
     set (map assigned_key (published (snd st))) = {k. assigned_at st k \<noteq> None}"

lemma assign_log:
  assumes logs: "bus_logs clock publish published" and bus: "de_bus (fst st) = Some publish"
    and r: "de_AssignVariant md5 clock u (Some x) st = (r, st')" and m: "log_matches published st"
  shows "log_matches published st' \<and> de_bus (fst st') = Some publish"
  using r
proof (cases rule: assign_cases)
  case kept
  then show ?thesis using m bus by simp
next
  case (fresh v)
  have "map assigned_key (published (snd st')) = map assigned_key (published (snd st)) @ [assignmentKey u (ex_ID x)]"
    using PublishAssigned_log [OF logs] fresh(5) bus by simp
  moreover have "{k. assigned_at st' k \<noteq> None} = insert (assignmentKey u (ex_ID x)) {k. assigned_at st k \<noteq> None}"
    using fresh(3) by auto
  moreover have "assignmentKey u (ex_ID x) \<notin> {k. assigned_at st k \<noteq> None}" using fresh(2) by simp
  ultimately show ?thesis using m bus fresh(4) by (simp add: log_matches_def del: set_map)
qed

lemma assign_all_log:
  assumes logs: "bus_logs clock publish published" and "de_bus (fst st) = Some publish"
    and "assign_all md5 clock calls st = (rs, st')" and "log_matches published st"
  shows "log_matches published st'"
  using assms(2-)
proof (induction calls arbitrary: st rs)
  case (Cons c calls)
  obtain u x where c: "c = (u, x)" by (cases c)
  obtain r st1 where r: "de_AssignVariant md5 clock u (Some x) st = (r, st1)" by (rule prod.exhaust)
  obtain rs' where rs: "assign_all md5 clock calls st1 = (rs', st')"
    using Cons.prems(2) r by (auto simp: c split: prod.splits)
  show ?case using Cons.IH [OF _ rs] assign_log [OF logs Cons.prems(1) r Cons.prems(3)] by blast
qed simp

section \<open>Properties\<close>

text \<open>
  C35. The choice of a variant is total and proportional: for at least one variant and a total weight
  below \<open>2 ^ 32\<close> it returns the variant of the bucket that the hash falls into, and of the
  buckets from 0 up to the total weight exactly as many belong to a variant as its weight, where a
  weight of zero or less counts as one.
\<close>

theorem deterministicPick_proportional:
  assumes "ex_Variants x \<noteq> []" "distinct (ex_Variants x)" "weight_sum (ex_Variants x) < 2 ^ 32"
  shows "deterministicPick md5 u x =
      Ret (pick_bucket (BigEndian_Uint32 (md5 (u @ '':'' @ ex_ID x)) mod weight_sum (ex_Variants x)) x) \<and>
    (\<forall>i < length (ex_Variants x).
      int (card {b. 0 \<le> b \<and> b < weight_sum (ex_Variants x) \<and> pick_bucket b x = ex_Variants x ! i})
        = (if xv_Weight (ex_Variants x ! i) \<le> 0 then 1 else xv_Weight (ex_Variants x ! i)))"
proof -
  have "int (card (buckets_of (ex_Variants x) i)) =
      (if xv_Weight (ex_Variants x ! i) \<le> 0 then 1 else xv_Weight (ex_Variants x ! i))"
    if "i < length (ex_Variants x)" for i
    using card_buckets_of [OF that] by (simp add: variant_weight_def)
  then show ?thesis
    using deterministicPick_bucket [OF assms(1,3), of md5 u] pick_bucket_preimage [OF assms(3) _ assms(2)]
    by (simp add: assignmentKey_def)
qed

definition demo_variant :: "string \<Rightarrow> int \<Rightarrow> ExperimentVariant" where
  "demo_variant i n = \<lparr>xv_ID = i, xv_Name = i, xv_Weight = n, xv_Payload = []\<rparr>"

definition demo_experiment :: "string \<Rightarrow> ExperimentVariant list \<Rightarrow> Experiment" where
  "demo_experiment i vs = \<lparr>ex_ID = i, ex_Name = i, ex_Variants = vs, ex_Enabled = True,
     ex_CreatedAt = zero_time, ex_UpdatedAt = zero_time\<rparr>"

lemmas demo_experiment_defs = demo_experiment_def demo_variant_def

theorem deterministicPick_proportional_witness:
  "int (card {b. 0 \<le> b \<and> b < 4 \<and>
     pick_bucket b (demo_experiment ''x'' [demo_variant ''a'' 0, demo_variant ''b'' 3]) = demo_variant ''b'' 3}) = 3"
  using deterministicPick_proportional
    [of "demo_experiment ''x'' [demo_variant ''a'' 0, demo_variant ''b'' 3]" "\<lambda>s. s" "''u''"]
  by (auto simp: demo_experiment_defs variant_weight_def dest!: spec [of _ "1::nat"])


definition demo_bus :: "bus_event \<Rightarrow> bus_event list \<Rightarrow> error option \<times> bus_event list" where
  "demo_bus ev w = (None, w @ [ev])"


lemma single_variant:
  "deterministicPick md5 u (demo_experiment i [demo_variant n 1]) = Ret (demo_variant n 1)"
  using deterministicPick_bucket [of "demo_experiment i [demo_variant n 1]" md5 u]
  by (simp add: demo_experiment_defs variant_weight_def pick_bucket_def wrap64_id min_int64_def max_int64_def)

text \<open>
  The key of an assignment does not determine the user and the experiment: a user id with a colon
  shares the key of another pair, and the second pair is given the variant of the first one's
  experiment, whatever the hash.
\<close>

theorem assignment_keys_collide:
  "fst (assign_all md5 (\<lambda>w. (7, w))
      [(''a:b'', demo_experiment ''c'' [demo_variant ''v1'' 1]), (''a'', demo_experiment ''b:c'' [demo_variant ''v2'' 1])]
      (NewDeterministicExperimentEngine None (Some demo_bus), []))
    = [Ret (Inr (demo_variant ''v1'' 1)), Ret (Inr (demo_variant ''v1'' 1))]"
  by (simp add: de_AssignVariant_def single_variant NewDeterministicExperimentEngine_def Let_def)
    (simp add: demo_experiment_def assignmentKey_def)

text \<open>
  When the weights add up to a multiple of \<open>2 ^ 32\<close> the conversion of the total to 32 bits is zero
  and the choice panics for every user, although every weight is positive.
\<close>

theorem deterministicPick_panics:
  "deterministicPick md5 u (demo_experiment i [demo_variant ''a'' (2 ^ 31), demo_variant ''b'' (2 ^ 31)]) =
     Panic ''integer divide by zero''"
  by (simp add: deterministicPick_def demo_experiment_defs variant_weight_def wrap64_id min_int64_def max_int64_def
      to_uint32_def)

end
