(* ===== verification/Grnoti_Postgres.thy ===== *)
theory Grnoti_Postgres
  imports Grnoti_Backend Grnoti_Devices Grnoti_Preferences Grnoti_Experiment
begin

text \<open>
  The Postgres backends of devices, preferences and experiments (\<^verbatim>\<open>devicestore.postgres.go\<close>,
  \<^verbatim>\<open>preferences.postgres.go\<close>, \<^verbatim>\<open>experimentstore.postgres.go\<close>) over the statements of
  \<^verbatim>\<open>internal/postgresdb\<close>.  Each \<^verbatim>\<open>sql_\<close> definition is the effect of one SQL text on the table; the stores
  are shown to keep the contracts that the in-memory ones keep.
\<close>

section \<open>Devices\<close>

record GrnotiDevice =
  gd_Fid :: string
  gd_Platform :: string
  gd_UserID :: string
  gd_AnonymousID :: string
  gd_DeviceID :: string
  gd_AppVersion :: string
  gd_IsActive :: bool
  gd_CreatedAt :: Timestamptz
  gd_UpdatedAt :: Timestamptz

definition sql_GetActiveDevicesByUserID :: "string \<Rightarrow> (string, GrnotiDevice) gomap \<Rightarrow> GrnotiDevice list" where
  "sql_GetActiveDevicesByUserID userID rows =
     filter (\<lambda>r. gd_UserID r = userID \<and> gd_IsActive r) (map snd rows)"

definition sql_GetActiveDevicesByUserIDs :: "string list \<Rightarrow> (string, GrnotiDevice) gomap \<Rightarrow> GrnotiDevice list" where
  "sql_GetActiveDevicesByUserIDs userIDs rows =
     filter (\<lambda>r. gd_UserID r \<in> set userIDs \<and> gd_IsActive r) (map snd rows)"

definition sql_GetActiveDevicesByAnonymousID :: "string \<Rightarrow> (string, GrnotiDevice) gomap \<Rightarrow> GrnotiDevice list" where
  "sql_GetActiveDevicesByAnonymousID anonymousID rows =
     filter (\<lambda>r. gd_AnonymousID r = anonymousID \<and> gd_IsActive r) (map snd rows)"

text \<open>The number of rows affected is part of the result.\<close>

definition sql_MarkDeviceInvalid ::
  "string \<Rightarrow> Timestamptz \<Rightarrow> (string, GrnotiDevice) gomap \<Rightarrow> int \<times> (string, GrnotiDevice) gomap" where
  "sql_MarkDeviceInvalid fid updatedAt rows =
     (case map_of rows fid of
        None \<Rightarrow> (0, rows)
      | Some r \<Rightarrow> (1, AList.update fid (r\<lparr>gd_IsActive := False, gd_UpdatedAt := updatedAt\<rparr>) rows))"

definition sql_UpsertDevice ::
  "GrnotiDevice \<Rightarrow> (string, GrnotiDevice) gomap \<Rightarrow> unit \<times> (string, GrnotiDevice) gomap" where
  "sql_UpsertDevice new rows =
     (case map_of rows (gd_Fid new) of
        None \<Rightarrow> ((), AList.update (gd_Fid new) new rows)
      | Some old \<Rightarrow> ((), AList.update (gd_Fid new)
          (old\<lparr>gd_Platform := gd_Platform new, gd_UserID := gd_UserID new, gd_AnonymousID := gd_AnonymousID new,
               gd_DeviceID := gd_DeviceID new, gd_AppVersion := gd_AppVersion new, gd_IsActive := True,
               gd_UpdatedAt := gd_UpdatedAt new\<rparr>) rows))"

definition sql_DeleteDevice :: "string \<Rightarrow> (string, GrnotiDevice) gomap \<Rightarrow> int \<times> (string, GrnotiDevice) gomap" where
  "sql_DeleteDevice fid rows =
     ((case map_of rows fid of None \<Rightarrow> 0 | Some r \<Rightarrow> 1), AList.delete fid rows)"

type_synonym postgresDeviceStore = "GrnotiDevice backend"

definition deviceRowToDomain :: "GrnotiDevice \<Rightarrow> Device" where
  "deviceRowToDomain r = \<lparr>dev_FID = gd_Fid r, dev_Platform = gd_Platform r, dev_UserID = gd_UserID r,
     dev_AnonymousID = gd_AnonymousID r, dev_DeviceID = gd_DeviceID r, dev_AppVersion = gd_AppVersion r,
     dev_IsActive = gd_IsActive r, dev_CreatedAt = pgTime (gd_CreatedAt r), dev_UpdatedAt = pgTime (gd_UpdatedAt r)\<rparr>"

definition pg_GetActiveDevices ::
  "string \<Rightarrow> postgresDeviceStore \<Rightarrow> (error + Device list) \<times> postgresDeviceStore" where
  "pg_GetActiveDevices userID s =
     (if db_closed s then (Inl (Sentinel ErrClosed), s)
      else case db_query (sql_GetActiveDevicesByUserID userID) s of
        (Inl err, s') \<Rightarrow> (Inl (backend_error (''grnoti/postgres: get active devices for '' @ userID) err), s')
      | (Inr rows, s') \<Rightarrow> (Inr (map deviceRowToDomain rows), s'))"

fun pg_batch_loop :: "(string, Device list) gomap \<Rightarrow> GrnotiDevice list \<Rightarrow> (string, Device list) gomap" where
  "pg_batch_loop out [] = out"
| "pg_batch_loop out (r # rows) =
     pg_batch_loop (AList.update (gd_UserID r)
       ((case map_of out (gd_UserID r) of None \<Rightarrow> [] | Some ds \<Rightarrow> ds) @ [deviceRowToDomain r]) out) rows"

definition pg_GetActiveDevicesBatch ::
  "string list \<Rightarrow> postgresDeviceStore \<Rightarrow> (error + (string, Device list) gomap) \<times> postgresDeviceStore" where
  "pg_GetActiveDevicesBatch userIDs s =
     (if db_closed s then (Inl (Sentinel ErrClosed), s)
      else case db_query (sql_GetActiveDevicesByUserIDs userIDs) s of
        (Inl err, s') \<Rightarrow> (Inl (backend_error ''grnoti/postgres: get active devices batch'' err), s')
      | (Inr rows, s') \<Rightarrow> (Inr (pg_batch_loop [] rows), s'))"

definition pg_GetActiveDevicesByAnonymousID ::
  "string \<Rightarrow> postgresDeviceStore \<Rightarrow> (error + Device list) \<times> postgresDeviceStore" where
  "pg_GetActiveDevicesByAnonymousID anonymousID s =
     (if db_closed s then (Inl (Sentinel ErrClosed), s)
      else case db_query (sql_GetActiveDevicesByAnonymousID anonymousID) s of
        (Inl err, s') \<Rightarrow>
          (Inl (backend_error (''grnoti/postgres: get active devices for anonymous '' @ anonymousID) err), s')
      | (Inr rows, s') \<Rightarrow> (Inr (map deviceRowToDomain rows), s'))"

definition pg_MarkInvalid :: "Time \<Rightarrow> string \<Rightarrow> postgresDeviceStore \<Rightarrow> error option \<times> postgresDeviceStore" where
  "pg_MarkInvalid now fid s =
     (if db_closed s then (Some (Sentinel ErrClosed), s)
      else case db_exec (sql_MarkDeviceInvalid fid (pgTimestamptz now)) s of
        (Inl err, s') \<Rightarrow> (Some (backend_error (''grnoti/postgres: mark invalid '' @ fid) err), s')
      | (Inr affected, s') \<Rightarrow> (None, s'))"

definition device_row :: "Time \<Rightarrow> Device \<Rightarrow> GrnotiDevice" where
  "device_row now device = \<lparr>gd_Fid = dev_FID device, gd_Platform = dev_Platform device, gd_UserID = dev_UserID device,
     gd_AnonymousID = dev_AnonymousID device, gd_DeviceID = dev_DeviceID device, gd_AppVersion = dev_AppVersion device,
     gd_IsActive = True, gd_CreatedAt = pgTimestamptz now, gd_UpdatedAt = pgTimestamptz now\<rparr>"

definition pg_SaveDevice :: "Time \<Rightarrow> Device \<Rightarrow> postgresDeviceStore \<Rightarrow> error option \<times> postgresDeviceStore" where
  "pg_SaveDevice now device s =
     (if db_closed s then (Some (Sentinel ErrClosed), s)
      else case device_Validate device of
        Some err \<Rightarrow> (Some err, s)
      | None \<Rightarrow>
          (case db_exec (sql_UpsertDevice (device_row now device)) s of
             (Inl err, s') \<Rightarrow> (Some (backend_error ''grnoti/postgres: save device'' err), s')
           | (Inr u, s') \<Rightarrow> (None, s')))"

definition pg_DeleteDevice :: "string \<Rightarrow> postgresDeviceStore \<Rightarrow> error option \<times> postgresDeviceStore" where
  "pg_DeleteDevice fid s =
     (if db_closed s then (Some (Sentinel ErrClosed), s)
      else case db_exec (sql_DeleteDevice fid) s of
        (Inl err, s') \<Rightarrow> (Some (backend_error (''grnoti/postgres: delete device '' @ fid) err), s')
      | (Inr affected, s') \<Rightarrow> (None, s'))"

section \<open>Preferences\<close>

record GrnotiPreference =
  gp_UserID :: string
  gp_GlobalEnabled :: bool
  gp_QuietHoursEnabled :: bool
  gp_QuietHoursStart :: string
  gp_QuietHoursEnd :: string
  gp_Timezone :: string
  gp_Locale :: string
  gp_EventTypeSettings :: string
  gp_CreatedAt :: Timestamptz
  gp_UpdatedAt :: Timestamptz

definition sql_UpsertPreferences ::
  "GrnotiPreference \<Rightarrow> (string, GrnotiPreference) gomap \<Rightarrow> unit \<times> (string, GrnotiPreference) gomap" where
  "sql_UpsertPreferences new rows =
     (case map_of rows (gp_UserID new) of
        None \<Rightarrow> ((), AList.update (gp_UserID new) new rows)
      | Some old \<Rightarrow> ((), AList.update (gp_UserID new) (new\<lparr>gp_CreatedAt := gp_CreatedAt old\<rparr>) rows))"

type_synonym settings_codec = "(EventType, bool) gomap codec"
type_synonym postgresPreferencesStore = "GrnotiPreference backend"

definition preferencesRowToDomain :: "settings_codec \<Rightarrow> GrnotiPreference \<Rightarrow> error + NotificationPreferences" where
  "preferencesRowToDomain J r =
     (case (if length (gp_EventTypeSettings r) > 0 then Unmarshal J (gp_EventTypeSettings r) else Some []) of
        None \<Rightarrow> Inl (json_error (''grnoti/postgres: decode event type settings for '' @ gp_UserID r))
      | Some settings \<Rightarrow>
          Inr \<lparr>np_UserID = gp_UserID r, np_GlobalEnabled = gp_GlobalEnabled r,
               np_QuietHoursEnabled = gp_QuietHoursEnabled r, np_QuietHoursStart = gp_QuietHoursStart r,
               np_QuietHoursEnd = gp_QuietHoursEnd r, np_Timezone = gp_Timezone r, np_Locale = gp_Locale r,
               np_EventTypeSettings = settings, np_CreatedAt = pgTime (gp_CreatedAt r),
               np_UpdatedAt = pgTime (gp_UpdatedAt r)\<rparr>)"

text \<open>A query for one row that finds none returns \<^verbatim>\<open>pgx.ErrNoRows\<close>.\<close>

definition sql_GetPreferences :: "string \<Rightarrow> (string, GrnotiPreference) gomap \<Rightarrow> GrnotiPreference option" where
  [simp]: "sql_GetPreferences userID rows = map_of rows userID"

definition pg_GetPreferences ::
  "settings_codec \<Rightarrow> string \<Rightarrow> postgresPreferencesStore \<Rightarrow> (error + NotificationPreferences) \<times> postgresPreferencesStore" where
  "pg_GetPreferences J userID s =
     (if db_closed s then (Inl (Sentinel ErrClosed), s)
      else case db_query (sql_GetPreferences userID) s of
        (Inl err, s') \<Rightarrow> (Inl (backend_error (''grnoti/postgres: get preferences for '' @ userID) err), s')
      | (Inr None, s') \<Rightarrow> (Inl (Sentinel ErrPreferencesNotFound), s')
      | (Inr (Some row), s') \<Rightarrow> (preferencesRowToDomain J row, s'))"

definition pg_SavePreferences ::
  "settings_codec \<Rightarrow> Time \<Rightarrow> NotificationPreferences \<Rightarrow> postgresPreferencesStore \<Rightarrow> error option \<times> postgresPreferencesStore" where
  "pg_SavePreferences J now prefs s =
     (if db_closed s then (Some (Sentinel ErrClosed), s)
      else if np_UserID prefs = [] then (Some (Sentinel ErrPreferencesUserIDRequired), s)
      else case Marshal J (np_EventTypeSettings prefs) of
        None \<Rightarrow> (Some (json_error (''grnoti/postgres: encode event type settings for '' @ np_UserID prefs)), s)
      | Some settings \<Rightarrow>
          (case db_exec (sql_UpsertPreferences
              \<lparr>gp_UserID = np_UserID prefs, gp_GlobalEnabled = np_GlobalEnabled prefs,
               gp_QuietHoursEnabled = np_QuietHoursEnabled prefs, gp_QuietHoursStart = np_QuietHoursStart prefs,
               gp_QuietHoursEnd = np_QuietHoursEnd prefs, gp_Timezone = np_Timezone prefs, gp_Locale = np_Locale prefs,
               gp_EventTypeSettings = settings, gp_CreatedAt = pgTimestamptz now, gp_UpdatedAt = pgTimestamptz now\<rparr>) s of
             (Inl err, s') \<Rightarrow> (Some (backend_error (''grnoti/postgres: save preferences for '' @ np_UserID prefs) err), s')
           | (Inr u, s') \<Rightarrow> (None, s')))"

text \<open>The answer for one event type, from whatever the lookup of the preferences returns.\<close>

definition via_get_IsEventTypeEnabled ::
  "(string \<Rightarrow> 's \<Rightarrow> (error + NotificationPreferences) \<times> 's) \<Rightarrow> string \<Rightarrow> EventType \<Rightarrow> 's \<Rightarrow> (error + bool) \<times> 's" where
  "via_get_IsEventTypeEnabled get userID eventType s =
     (case get userID s of
        (Inl err, s') \<Rightarrow> (if errors_is err ErrPreferencesNotFound then (Inr True, s') else (Inl err, s'))
      | (Inr prefs, s') \<Rightarrow> (Inr (prefs_IsEventTypeEnabled prefs eventType), s'))"

definition pg_PreferencesStore ::
  "settings_codec \<Rightarrow> ('c \<Rightarrow> Time \<times> 'c) \<Rightarrow> (postgresPreferencesStore \<times> 'c) PreferencesStore" where
  "pg_PreferencesStore J clock =
     \<lparr>ps_GetPreferences = (\<lambda>u (s, c). case pg_GetPreferences J u s of (r, s') \<Rightarrow> (r, s', c)),
      ps_SavePreferences = (\<lambda>p (s, c). case clock c of (now, c') \<Rightarrow>
        (case pg_SavePreferences J now p s of (r, s') \<Rightarrow> (r, s', c'))),
      ps_IsEventTypeEnabled = via_get_IsEventTypeEnabled
        (\<lambda>u (s, c). case pg_GetPreferences J u s of (r, s') \<Rightarrow> (r, s', c))\<rparr>"

section \<open>Experiments\<close>

record GrnotiExperiment =
  ge_ID :: string
  ge_Name :: string
  ge_Variants :: string
  ge_Enabled :: bool
  ge_CreatedAt :: Timestamptz
  ge_UpdatedAt :: Timestamptz

type_synonym variants_codec = "ExperimentVariant list codec"
type_synonym postgresExperimentStore = "GrnotiExperiment backend"

text \<open>
  \<^verbatim>\<open>INSERT\<close> without a conflict clause: a primary key that is taken is a unique violation (code 23505), which the
  store turns into its own sentinel.  \<open>False\<close> in the result stands for the violation.
\<close>

definition sql_CreateExperiment ::
  "GrnotiExperiment \<Rightarrow> (string, GrnotiExperiment) gomap \<Rightarrow> bool \<times> (string, GrnotiExperiment) gomap" where
  "sql_CreateExperiment new rows =
     (case map_of rows (ge_ID new) of
        Some old \<Rightarrow> (False, rows)
      | None \<Rightarrow> (True, AList.update (ge_ID new) new rows))"

definition sql_UpdateExperiment ::
  "string \<Rightarrow> string \<Rightarrow> string \<Rightarrow> bool \<Rightarrow> Timestamptz \<Rightarrow> (string, GrnotiExperiment) gomap \<Rightarrow>
     int \<times> (string, GrnotiExperiment) gomap" where
  "sql_UpdateExperiment i name variants enabled updatedAt rows =
     (case map_of rows i of
        None \<Rightarrow> (0, rows)
      | Some r \<Rightarrow> (1, AList.update i (r\<lparr>ge_Name := name, ge_Variants := variants, ge_Enabled := enabled,
                                         ge_UpdatedAt := updatedAt\<rparr>) rows))"

definition sql_DeleteExperiment ::
  "string \<Rightarrow> (string, GrnotiExperiment) gomap \<Rightarrow> unit \<times> (string, GrnotiExperiment) gomap" where
  "sql_DeleteExperiment i rows = ((), AList.delete i rows)"

text \<open>The order of ids is that of their bytes, as in the C collation.\<close>

definition sql_ListExperiments :: "(string, GrnotiExperiment) gomap \<Rightarrow> GrnotiExperiment list" where
  "sql_ListExperiments rows = sort_key ge_ID (map snd rows)"

definition experimentRowToDomain :: "variants_codec \<Rightarrow> GrnotiExperiment \<Rightarrow> error + Experiment" where
  "experimentRowToDomain J r =
     (case (if length (ge_Variants r) > 0 then Unmarshal J (ge_Variants r) else Some []) of
        None \<Rightarrow> Inl (json_error (''grnoti/postgres: decode variants for '' @ ge_ID r))
      | Some variants \<Rightarrow>
          Inr \<lparr>ex_ID = ge_ID r, ex_Name = ge_Name r, ex_Variants = variants, ex_Enabled = ge_Enabled r,
               ex_CreatedAt = pgTime (ge_CreatedAt r), ex_UpdatedAt = pgTime (ge_UpdatedAt r)\<rparr>)"

text \<open>As in the in-memory store, the time stamps are written through the caller's pointer.\<close>

definition pg_CreateExperiment ::
  "variants_codec \<Rightarrow> Time \<Rightarrow> Experiment \<Rightarrow> postgresExperimentStore \<Rightarrow> error option \<times> Experiment \<times> postgresExperimentStore" where
  "pg_CreateExperiment J now experiment s =
     (if db_closed s then (Some (Sentinel ErrClosed), experiment, s)
      else case Marshal J (ex_Variants experiment) of
        None \<Rightarrow> (Some (json_error (''grnoti/postgres: encode variants for '' @ ex_ID experiment)), experiment, s)
      | Some variants \<Rightarrow>
          (case db_exec (sql_CreateExperiment
              \<lparr>ge_ID = ex_ID experiment, ge_Name = ex_Name experiment, ge_Variants = variants,
               ge_Enabled = ex_Enabled experiment, ge_CreatedAt = pgTimestamptz now, ge_UpdatedAt = pgTimestamptz now\<rparr>) s of
             (Inl err, s') \<Rightarrow>
               (Some (backend_error (''grnoti/postgres: create experiment '' @ ex_ID experiment) err), experiment, s')
           | (Inr created, s') \<Rightarrow>
               if \<not> created then (Some (Sentinel ErrExperimentAlreadyExists), experiment, s')
               else (None, experiment\<lparr>ex_CreatedAt := now, ex_UpdatedAt := now\<rparr>, s')))"

definition sql_GetExperiment :: "string \<Rightarrow> (string, GrnotiExperiment) gomap \<Rightarrow> GrnotiExperiment option" where
  [simp]: "sql_GetExperiment experimentID rows = map_of rows experimentID"

definition pg_GetExperiment ::
  "variants_codec \<Rightarrow> string \<Rightarrow> postgresExperimentStore \<Rightarrow> (error + Experiment) \<times> postgresExperimentStore" where
  "pg_GetExperiment J experimentID s =
     (if db_closed s then (Inl (Sentinel ErrClosed), s)
      else case db_query (sql_GetExperiment experimentID) s of
        (Inl err, s') \<Rightarrow> (Inl (backend_error (''grnoti/postgres: get experiment '' @ experimentID) err), s')
      | (Inr None, s') \<Rightarrow> (Inl (Sentinel ErrExperimentNotFound), s')
      | (Inr (Some row), s') \<Rightarrow> (experimentRowToDomain J row, s'))"

definition pg_UpdateExperiment ::
  "variants_codec \<Rightarrow> Time \<Rightarrow> Experiment \<Rightarrow> postgresExperimentStore \<Rightarrow> error option \<times> Experiment \<times> postgresExperimentStore" where
  "pg_UpdateExperiment J now experiment s =
     (if db_closed s then (Some (Sentinel ErrClosed), experiment, s)
      else case Marshal J (ex_Variants experiment) of
        None \<Rightarrow> (Some (json_error (''grnoti/postgres: encode variants for '' @ ex_ID experiment)), experiment, s)
      | Some variants \<Rightarrow>
          (case db_exec (sql_UpdateExperiment (ex_ID experiment) (ex_Name experiment) variants (ex_Enabled experiment)
                (pgTimestamptz now)) s of
             (Inl err, s') \<Rightarrow>
               (Some (backend_error (''grnoti/postgres: update experiment '' @ ex_ID experiment) err), experiment, s')
           | (Inr affected, s') \<Rightarrow>
               if affected = 0 then (Some (Sentinel ErrExperimentNotFound), experiment, s')
               else (None, experiment\<lparr>ex_UpdatedAt := now\<rparr>, s')))"

definition pg_DeleteExperiment :: "string \<Rightarrow> postgresExperimentStore \<Rightarrow> error option \<times> postgresExperimentStore" where
  "pg_DeleteExperiment experimentID s =
     (if db_closed s then (Some (Sentinel ErrClosed), s)
      else case db_exec (sql_DeleteExperiment experimentID) s of
        (Inl err, s') \<Rightarrow> (Some (backend_error (''grnoti/postgres: delete experiment '' @ experimentID) err), s')
      | (Inr u, s') \<Rightarrow> (None, s'))"

fun experiments_loop :: "variants_codec \<Rightarrow> GrnotiExperiment list \<Rightarrow> Experiment list \<Rightarrow> error + Experiment list" where
  "experiments_loop J [] out = Inr out"
| "experiments_loop J (row # rows) out =
     (case experimentRowToDomain J row of
        Inl err \<Rightarrow> Inl err
      | Inr e \<Rightarrow> experiments_loop J rows (out @ [e]))"

definition pg_ListExperiments ::
  "variants_codec \<Rightarrow> postgresExperimentStore \<Rightarrow> (error + Experiment list) \<times> postgresExperimentStore" where
  "pg_ListExperiments J s =
     (if db_closed s then (Inl (Sentinel ErrClosed), s)
      else case db_query sql_ListExperiments s of
        (Inl err, s') \<Rightarrow> (Inl (backend_error ''grnoti/postgres: list experiments'' err), s')
      | (Inr rows, s') \<Rightarrow> (experiments_loop J rows [], s'))"

section \<open>The device store keeps the contract\<close>

definition pg_dev_inv :: "postgresDeviceStore \<Rightarrow> bool" where
  "pg_dev_inv s \<longleftrightarrow> healthy s \<and> keyed gd_Fid (db_rows s)"

abbreviation pg_device_at :: "postgresDeviceStore \<Rightarrow> string \<Rightarrow> Device option" where
  "pg_device_at s fid \<equiv> map_option deviceRowToDomain (map_of (db_rows s) fid)"

lemma deviceRowToDomain_simps [simp]:
  "dev_FID (deviceRowToDomain r) = gd_Fid r" "dev_UserID (deviceRowToDomain r) = gd_UserID r"
  "dev_AnonymousID (deviceRowToDomain r) = gd_AnonymousID r" "dev_IsActive (deviceRowToDomain r) = gd_IsActive r"
  "dev_CreatedAt (deviceRowToDomain r) = pgTime (gd_CreatedAt r)"
  by (simp_all add: deviceRowToDomain_def)

lemmas pg_device_ops = pg_GetActiveDevices_def pg_GetActiveDevicesByAnonymousID_def pg_MarkInvalid_def
  pg_SaveDevice_def pg_DeleteDevice_def

lemmas sql_device_ops = sql_GetActiveDevicesByUserID_def sql_GetActiveDevicesByAnonymousID_def
  sql_MarkDeviceInvalid_def sql_UpsertDevice_def sql_DeleteDevice_def

lemma rows_image:
  assumes "keyed gd_Fid rows"
  shows "deviceRowToDomain ` {r \<in> snd ` set rows. Q (deviceRowToDomain r)} =
    {d. \<exists>fid. map_option deviceRowToDomain (map_of rows fid) = Some d \<and> Q d}"
  using keyed_set [OF assms] by (auto 0 3)

lemma rows_distinct: "keyed gd_Fid rows \<Longrightarrow> distinct (map gd_Fid (filter P (map snd rows)))"
  using keyed_distinct distinct_map_filter by blast

lemma device_row_domain:
  "deviceRowToDomain (device_row now d) = d\<lparr>dev_CreatedAt := micros now, dev_IsActive := True, dev_UpdatedAt := micros now\<rparr>"
  by (simp add: deviceRowToDomain_def device_row_def)

lemma pg_save_rows:
  assumes "healthy s" "device_Validate d = None"
  shows "pg_SaveDevice now d s = (None, s\<lparr>db_rows := snd (sql_UpsertDevice (device_row now d) (db_rows s))\<rparr>)"
  using assms by (simp add: pg_SaveDevice_def healthy_def)

interpretation pg_dev: device_store micros pg_dev_inv pg_device_at
  "\<lambda>u s. value_or [] (fst (pg_GetActiveDevices u s))" "\<lambda>a s. value_or [] (fst (pg_GetActiveDevicesByAnonymousID a s))"
  "\<lambda>now fid s. snd (pg_MarkInvalid now fid s)" pg_SaveDevice "\<lambda>fid s. snd (pg_DeleteDevice fid s)"
proof (unfold_locales, goal_cases)
  case (1 s fid d)
  then show ?case by (auto simp: pg_dev_inv_def keyed_def)
next
  case (2 s u)
  then show ?case using rows_image [of "db_rows s" "\<lambda>d. dev_UserID d = u \<and> dev_IsActive d"]
    by (simp add: pg_dev_inv_def healthy_def pg_device_ops sql_device_ops value_or_def)
next
  case (3 s a)
  then show ?case using rows_image [of "db_rows s" "\<lambda>d. dev_AnonymousID d = a \<and> dev_IsActive d"]
    by (simp add: pg_dev_inv_def healthy_def pg_device_ops sql_device_ops value_or_def)
next
  case (4 s u)
  then show ?case
    by (simp add: pg_dev_inv_def healthy_def pg_device_ops sql_device_ops value_or_def rows_distinct comp_def)
next
  case (5 s now fid)
  then show ?case
    by (auto simp: pg_dev_inv_def healthy_def pg_device_ops sql_device_ops keyed_def split: option.splits)
next
  case (6 s now fid g)
  then show ?case
    by (auto simp: pg_dev_inv_def healthy_def pg_device_ops sql_device_ops deviceRowToDomain_def split: option.splits)
next
  case (7 s now d)
  then show ?case
    by (cases "device_Validate d")
      (auto simp: pg_dev_inv_def healthy_def pg_device_ops sql_device_ops keyed_def device_row_def split: option.splits)
next
  case (8 s d e now)
  then show ?case by (simp add: pg_dev_inv_def healthy_def pg_SaveDevice_def)
next
  case (9 s d now)
  then show ?case by (simp add: pg_dev_inv_def pg_save_rows)
next
  case (10 s d now g)
  then show ?case
    by (auto simp: pg_dev_inv_def pg_save_rows sql_UpsertDevice_def device_row_domain split: option.splits)
      (auto simp: device_row_def deviceRowToDomain_def keyed_def)
next
  case (11 s fid)
  then show ?case by (auto simp: pg_dev_inv_def healthy_def pg_device_ops sql_device_ops keyed_def)
next
  case (12 s fid g)
  then show ?case by (auto simp: pg_dev_inv_def healthy_def pg_device_ops sql_device_ops)
next
  case (13 s a)
  then show ?case
    by (simp add: pg_dev_inv_def healthy_def pg_device_ops sql_device_ops value_or_def rows_distinct comp_def)
qed

section \<open>The preferences store keeps the contract\<close>

text \<open>
  The codec of event type settings: every map is encoded as a non-empty text that decodes to a map with the
  same entries.
\<close>

definition settings_ok :: "settings_codec \<Rightarrow> bool" where
  "settings_ok J \<longleftrightarrow>
     (\<forall>m. \<exists>raw m'. Marshal J m = Some raw \<and> raw \<noteq> [] \<and> Unmarshal J raw = Some m' \<and> map_of m' = map_of m)"

definition pg_prefs_at ::
  "settings_codec \<Rightarrow> postgresPreferencesStore \<Rightarrow> string \<Rightarrow> NotificationPreferences option" where
  "pg_prefs_at J s u = (case map_of (db_rows s) u of
     None \<Rightarrow> None
   | Some r \<Rightarrow> (case preferencesRowToDomain J r of Inl err \<Rightarrow> None | Inr p \<Rightarrow> Some p))"

definition pg_prefs_inv :: "settings_codec \<Rightarrow> postgresPreferencesStore \<Rightarrow> bool" where
  "pg_prefs_inv J s \<longleftrightarrow> healthy s \<and> settings_ok J \<and>
     (\<forall>u r. map_of (db_rows s) u = Some r \<longrightarrow> (\<exists>p. preferencesRowToDomain J r = Inr p))"

lemma pg_prefs_new: "settings_ok J \<Longrightarrow> pg_prefs_inv J new_backend \<and> pg_prefs_at J new_backend = (\<lambda>u. None)"
  by (simp add: pg_prefs_inv_def healthy_def new_backend_def pg_prefs_at_def fun_eq_iff)

lemma pg_get_prefs:
  assumes "pg_prefs_inv J s"
  shows "pg_GetPreferences J u s =
    ((case pg_prefs_at J s u of None \<Rightarrow> Inl (Sentinel ErrPreferencesNotFound) | Some p \<Rightarrow> Inr p), s)"
proof (cases "map_of (db_rows s) u")
  case None
  with assms show ?thesis by (simp add: pg_prefs_inv_def healthy_def pg_GetPreferences_def pg_prefs_at_def)
next
  case (Some r)
  with assms obtain p where "preferencesRowToDomain J r = Inr p" unfolding pg_prefs_inv_def by blast
  with assms Some show ?thesis by (simp add: pg_prefs_inv_def healthy_def pg_GetPreferences_def pg_prefs_at_def)
qed

lemma pg_save_prefs:
  assumes inv: "pg_prefs_inv J s" and uid: "np_UserID p \<noteq> []"
  obtains s' q where "pg_SavePreferences J now p s = (None, s')" "pg_prefs_inv J s'" "same_settings p q"
    "pg_prefs_at J s' = (pg_prefs_at J s)(np_UserID p \<mapsto> q)"
proof -
  from inv obtain raw m where raw: "Marshal J (np_EventTypeSettings p) = Some raw" "raw \<noteq> []"
    "Unmarshal J raw = Some m" "map_of m = map_of (np_EventTypeSettings p)"
    unfolding pg_prefs_inv_def settings_ok_def by meson
  obtain created where rows: "db_rows (snd (pg_SavePreferences J now p s)) = AList.update (np_UserID p)
      \<lparr>gp_UserID = np_UserID p, gp_GlobalEnabled = np_GlobalEnabled p, gp_QuietHoursEnabled = np_QuietHoursEnabled p,
       gp_QuietHoursStart = np_QuietHoursStart p, gp_QuietHoursEnd = np_QuietHoursEnd p, gp_Timezone = np_Timezone p,
       gp_Locale = np_Locale p, gp_EventTypeSettings = raw, gp_CreatedAt = created, gp_UpdatedAt = pgTimestamptz now\<rparr>
      (db_rows s)" (is "_ = AList.update _ ?row _")
    using inv uid raw(1)
    by (cases "map_of (db_rows s) (np_UserID p)")
      (auto simp: pg_prefs_inv_def healthy_def pg_SavePreferences_def sql_UpsertPreferences_def)
  let ?q = "p\<lparr>np_EventTypeSettings := m, np_CreatedAt := pgTime created, np_UpdatedAt := pgTime (pgTimestamptz now)\<rparr>"
  have dec: "preferencesRowToDomain J ?row = Inr ?q" using raw by (simp add: preferencesRowToDomain_def)
  show thesis
  proof (rule that [of "snd (pg_SavePreferences J now p s)" ?q])
    show "pg_SavePreferences J now p s = (None, snd (pg_SavePreferences J now p s))"
      using inv uid raw(1) by (simp add: pg_prefs_inv_def healthy_def pg_SavePreferences_def)
    have "healthy (snd (pg_SavePreferences J now p s))"
      using inv uid raw(1) by (simp add: pg_prefs_inv_def healthy_def pg_SavePreferences_def)
    then show "pg_prefs_inv J (snd (pg_SavePreferences J now p s))"
      using inv dec by (simp add: pg_prefs_inv_def rows)
    show "same_settings p ?q" using raw(4) by (simp add: same_settings_def)
    show "pg_prefs_at J (snd (pg_SavePreferences J now p s)) = (pg_prefs_at J s)(np_UserID p \<mapsto> ?q)"
      using dec by (simp add: fun_eq_iff pg_prefs_at_def rows)
  qed
qed

lemma pg_save_prefs_no_user:
  "pg_prefs_inv J s \<Longrightarrow> np_UserID p = [] \<Longrightarrow>
     pg_SavePreferences J now p s = (Some (Sentinel ErrPreferencesUserIDRequired), s)"
  by (simp add: pg_prefs_inv_def healthy_def pg_SavePreferences_def)

interpretation pg_prefs: preferences_store "pg_PreferencesStore J clock" "\<lambda>w. pg_prefs_inv J (fst w)"
  "\<lambda>w. pg_prefs_at J (fst w)" for J and clock :: "'c \<Rightarrow> Time \<times> 'c"
proof (unfold_locales, goal_cases)
  case (1 w u r w')
  then show ?case by (auto simp: pg_PreferencesStore_def pg_get_prefs split: prod.splits)
next
  case (2 w u r w')
  then show ?case by (auto simp: pg_PreferencesStore_def pg_get_prefs split: prod.splits)
next
  case (3 w p r w')
  obtain now c where c: "clock (snd w) = (now, c)" by fastforce
  show ?case
  proof (cases "np_UserID p = []")
    case True
    then show ?thesis using 3 c by (auto simp: pg_PreferencesStore_def pg_save_prefs_no_user split: prod.splits)
  next
    case False
    from pg_save_prefs [OF 3(1) False, of now] obtain s' where
      "pg_SavePreferences J now p (fst w) = (None, s')" "pg_prefs_inv J s'" by metis
    with 3(2) c show ?thesis by (auto simp: pg_PreferencesStore_def split: prod.splits)
  qed
next
  case (4 w p w')
  obtain now c where c: "clock (snd w) = (now, c)" by fastforce
  have uid: "np_UserID p \<noteq> []"
    using 4 c by (auto simp: pg_PreferencesStore_def pg_save_prefs_no_user split: prod.splits)
  from pg_save_prefs [OF 4(1) uid, of now] obtain s' q where
    "pg_SavePreferences J now p (fst w) = (None, s')" "same_settings p q"
    "pg_prefs_at J s' = (pg_prefs_at J (fst w))(np_UserID p \<mapsto> q)" by metis
  with 4(2) c show ?case by (auto simp: pg_PreferencesStore_def split: prod.splits)
next
  case (5 w p r w')
  obtain now c where c: "clock (snd w) = (now, c)" by fastforce
  show ?case
  proof (cases "np_UserID p = []")
    case True
    then show ?thesis using 5 c by (auto simp: pg_PreferencesStore_def pg_save_prefs_no_user split: prod.splits)
  next
    case False
    from pg_save_prefs [OF 5(1) False, of now] obtain s' where "pg_SavePreferences J now p (fst w) = (None, s')" by metis
    with 5(2) c False show ?thesis by (auto simp: pg_PreferencesStore_def split: prod.splits)
  qed
next
  case (6 w p err w')
  obtain now c where c: "clock (snd w) = (now, c)" by fastforce
  show ?case
  proof (cases "np_UserID p = []")
    case True
    then show ?thesis using 6 c by (auto simp: pg_PreferencesStore_def pg_save_prefs_no_user split: prod.splits)
  next
    case False
    from pg_save_prefs [OF 6(1) False, of now] obtain s' where "pg_SavePreferences J now p (fst w) = (None, s')" by metis
    with 6(2) c show ?thesis by (auto simp: pg_PreferencesStore_def split: prod.splits)
  qed
qed

section \<open>Properties\<close>

lemma experimentRow_roundtrip:
  "Marshal J vs = Some raw \<Longrightarrow> raw \<noteq> [] \<Longrightarrow> Unmarshal J raw = Some vs \<Longrightarrow>
     experimentRowToDomain J \<lparr>ge_ID = i, ge_Name = n, ge_Variants = raw, ge_Enabled = e, ge_CreatedAt = c, ge_UpdatedAt = u\<rparr> =
     Inr \<lparr>ex_ID = i, ex_Name = n, ex_Variants = vs, ex_Enabled = e, ex_CreatedAt = pgTime c, ex_UpdatedAt = pgTime u\<rparr>"
  by (simp add: experimentRowToDomain_def)

text \<open>
  An experiment created in Postgres reads back as it was written, its times cut to microseconds, and the lookup of any
  other id is unaffected; creating an id that exists reports it and changes nothing.
\<close>

theorem pg_experiment_roundtrip:
  assumes "healthy s" "Marshal J (ex_Variants x) = Some raw" "raw \<noteq> []" "Unmarshal J raw = Some (ex_Variants x)"
    and "pg_CreateExperiment J now x s = (r, x', s')"
  shows "case map_of (db_rows s) (ex_ID x) of
      None \<Rightarrow> r = None \<and>
        fst (pg_GetExperiment J i s') =
          (if i = ex_ID x then Inr (x\<lparr>ex_CreatedAt := micros now, ex_UpdatedAt := micros now\<rparr>)
           else fst (pg_GetExperiment J i s))
    | Some row \<Rightarrow> r = Some (Sentinel ErrExperimentAlreadyExists) \<and> s' = s"
proof -
  note row = experimentRow_roundtrip [OF assms(2-4)]
  show ?thesis
  proof (cases "map_of (db_rows s) (ex_ID x)")
    case None
    with assms(1,2,5) show ?thesis
      by (auto simp: pg_CreateExperiment_def sql_CreateExperiment_def healthy_def pg_GetExperiment_def row split: option.splits)
  next
    case (Some old)
    with assms(1,2,5) show ?thesis
      by (auto simp: pg_CreateExperiment_def sql_CreateExperiment_def healthy_def)
  qed
qed

theorem pg_experiment_roundtrip_witness:
  "fst (pg_GetExperiment (demo_codec [demo_variant ''a'' 1]) ''x''
     (snd (snd (pg_CreateExperiment (demo_codec [demo_variant ''a'' 1]) 5007 (demo_experiment ''x'' [demo_variant ''a'' 1]) new_backend))))
   = Inr ((demo_experiment ''x'' [demo_variant ''a'' 1])\<lparr>ex_CreatedAt := 5000, ex_UpdatedAt := 5000\<rparr>)"
proof -
  let ?x = "demo_experiment ''x'' [demo_variant ''a'' 1]" and ?J = "demo_codec [demo_variant ''a'' 1]"
  obtain r x' s' where run: "pg_CreateExperiment ?J 5007 ?x new_backend = (r, x', s')" by (rule prod_cases3)
  have "healthy new_backend" "Marshal ?J (ex_Variants ?x) = Some ''a''" "Unmarshal ?J ''a'' = Some (ex_Variants ?x)"
    by (simp_all add: healthy_def new_backend_def demo_codec_def demo_experiment_def)
  from pg_experiment_roundtrip [OF this(1,2) _ this(3) run, of "''x''"] run show ?thesis
    by (simp add: new_backend_def demo_experiment_def micros_def)
qed

end
