(* ===== verification/Grnoti_Mongo.thy ===== *)
theory Grnoti_Mongo
  imports Grnoti_Postgres
begin

text \<open>
  The Mongo backends of devices and preferences (\<^verbatim>\<open>devicestore.mongo.go\<close>, \<^verbatim>\<open>preferences.mongo.go\<close>).  A
  collection with a unique index is a table of typed documents under that key; an upsert with \<^verbatim>\<open>$set\<close> and
  \<^verbatim>\<open>$setOnInsert\<close> is one atomic statement.  Dates are stored in milliseconds.  The three implementations of
  each interface are compared at the end.
\<close>

section \<open>Devices\<close>

record mongoDeviceDoc =
  md_FID :: string
  md_Platform :: Platform
  md_UserID :: string
  md_AnonymousID :: string
  md_DeviceID :: string
  md_AppVersion :: string
  md_IsActive :: bool
  md_CreatedAt :: Time
  md_UpdatedAt :: Time

type_synonym mongoDeviceStore = "mongoDeviceDoc backend"

definition toDevice :: "mongoDeviceDoc \<Rightarrow> Device" where
  "toDevice d = \<lparr>dev_FID = md_FID d, dev_Platform = md_Platform d, dev_UserID = md_UserID d,
     dev_AnonymousID = md_AnonymousID d, dev_DeviceID = md_DeviceID d, dev_AppVersion = md_AppVersion d,
     dev_IsActive = md_IsActive d, dev_CreatedAt = md_CreatedAt d, dev_UpdatedAt = md_UpdatedAt d\<rparr>"

definition mongo_GetActiveDevices ::
  "string \<Rightarrow> mongoDeviceStore \<Rightarrow> (error + Device list) \<times> mongoDeviceStore" where
  "mongo_GetActiveDevices userID s =
     (if db_closed s then (Inl (Sentinel ErrClosed), s)
      else case db_query (\<lambda>docs. filter (\<lambda>d. md_UserID d = userID \<and> md_IsActive d) (map snd docs)) s of
        (Inl err, s') \<Rightarrow> (Inl (backend_error (''grnoti/mongo: get active devices for '' @ userID) err), s')
      | (Inr docs, s') \<Rightarrow> (Inr (map toDevice docs), s'))"

fun mongo_batch_loop :: "(string, Device list) gomap \<Rightarrow> mongoDeviceDoc list \<Rightarrow> (string, Device list) gomap" where
  "mongo_batch_loop out [] = out"
| "mongo_batch_loop out (d # docs) =
     mongo_batch_loop (AList.update (md_UserID d)
       ((case map_of out (md_UserID d) of None \<Rightarrow> [] | Some ds \<Rightarrow> ds) @ [toDevice d]) out) docs"

definition mongo_GetActiveDevicesBatch ::
  "string list \<Rightarrow> mongoDeviceStore \<Rightarrow> (error + (string, Device list) gomap) \<times> mongoDeviceStore" where
  "mongo_GetActiveDevicesBatch userIDs s =
     (if db_closed s then (Inl (Sentinel ErrClosed), s)
      else case db_query (\<lambda>docs. filter (\<lambda>d. md_UserID d \<in> set userIDs \<and> md_IsActive d) (map snd docs)) s of
        (Inl err, s') \<Rightarrow> (Inl (backend_error ''grnoti/mongo: get active devices batch'' err), s')
      | (Inr docs, s') \<Rightarrow> (Inr (mongo_batch_loop [] docs), s'))"

definition mongo_GetActiveDevicesByAnonymousID ::
  "string \<Rightarrow> mongoDeviceStore \<Rightarrow> (error + Device list) \<times> mongoDeviceStore" where
  "mongo_GetActiveDevicesByAnonymousID anonymousID s =
     (if db_closed s then (Inl (Sentinel ErrClosed), s)
      else case db_query (\<lambda>docs. filter (\<lambda>d. md_AnonymousID d = anonymousID \<and> md_IsActive d) (map snd docs)) s of
        (Inl err, s') \<Rightarrow>
          (Inl (backend_error (''grnoti/mongo: get active devices for anonymous '' @ anonymousID) err), s')
      | (Inr docs, s') \<Rightarrow> (Inr (map toDevice docs), s'))"

text \<open>\<^verbatim>\<open>UpdateOne\<close> without upsert: the number of matched documents is part of the result.\<close>

definition bson_mark_invalid ::
  "string \<Rightarrow> Time \<Rightarrow> (string, mongoDeviceDoc) gomap \<Rightarrow> int \<times> (string, mongoDeviceDoc) gomap" where
  "bson_mark_invalid fid now docs =
     (case map_of docs fid of
        None \<Rightarrow> (0, docs)
      | Some d \<Rightarrow> (1, AList.update fid (d\<lparr>md_IsActive := False, md_UpdatedAt := millis now\<rparr>) docs))"

definition mongo_MarkInvalid :: "Time \<Rightarrow> string \<Rightarrow> mongoDeviceStore \<Rightarrow> error option \<times> mongoDeviceStore" where
  "mongo_MarkInvalid now fid s =
     (if db_closed s then (Some (Sentinel ErrClosed), s)
      else case db_exec (bson_mark_invalid fid now) s of
        (Inl err, s') \<Rightarrow> (Some (backend_error (''grnoti/mongo: mark invalid '' @ fid) err), s')
      | (Inr matched, s') \<Rightarrow> (None, s'))"

text \<open>The upsert: \<^verbatim>\<open>created_at\<close> is set on insertion only.\<close>

definition bson_upsert_device ::
  "Time \<Rightarrow> Device \<Rightarrow> (string, mongoDeviceDoc) gomap \<Rightarrow> unit \<times> (string, mongoDeviceDoc) gomap" where
  "bson_upsert_device now device docs =
     (let created = (case map_of docs (dev_FID device) of Some d \<Rightarrow> md_CreatedAt d | None \<Rightarrow> millis now)
      in ((), AList.update (dev_FID device)
           \<lparr>md_FID = dev_FID device, md_Platform = dev_Platform device, md_UserID = dev_UserID device,
            md_AnonymousID = dev_AnonymousID device, md_DeviceID = dev_DeviceID device,
            md_AppVersion = dev_AppVersion device, md_IsActive = True, md_CreatedAt = created,
            md_UpdatedAt = millis now\<rparr> docs))"

definition mongo_SaveDevice :: "Time \<Rightarrow> Device \<Rightarrow> mongoDeviceStore \<Rightarrow> error option \<times> mongoDeviceStore" where
  "mongo_SaveDevice now device s =
     (if db_closed s then (Some (Sentinel ErrClosed), s)
      else case device_Validate device of
        Some err \<Rightarrow> (Some err, s)
      | None \<Rightarrow>
          (case db_exec (bson_upsert_device now device) s of
             (Inl err, s') \<Rightarrow> (Some (backend_error ''grnoti/mongo: save device'' err), s')
           | (Inr u, s') \<Rightarrow> (None, s')))"

definition mongo_DeleteDevice :: "string \<Rightarrow> mongoDeviceStore \<Rightarrow> error option \<times> mongoDeviceStore" where
  "mongo_DeleteDevice fid s =
     (if db_closed s then (Some (Sentinel ErrClosed), s)
      else case db_exec (\<lambda>docs. ((), AList.delete fid docs)) s of
        (Inl err, s') \<Rightarrow> (Some (backend_error (''grnoti/mongo: delete device '' @ fid) err), s')
      | (Inr u, s') \<Rightarrow> (None, s'))"

section \<open>Preferences\<close>

text \<open>The settings are an array of pairs, sorted by event type.\<close>

type_synonym mongoEventTypeSetting = "EventType \<times> bool"

record mongoPreferencesDoc =
  mp_UserID :: string
  mp_GlobalEnabled :: bool
  mp_QuietHoursEnabled :: bool
  mp_QuietHoursStart :: string
  mp_QuietHoursEnd :: string
  mp_Timezone :: string
  mp_Locale :: string
  mp_EventTypeSettings :: "mongoEventTypeSetting list"
  mp_CreatedAt :: Time
  mp_UpdatedAt :: Time

type_synonym mongoPreferencesStore = "mongoPreferencesDoc backend"

fun settings_loop :: "(EventType, bool) gomap \<Rightarrow> mongoEventTypeSetting list \<Rightarrow> (EventType, bool) gomap" where
  "settings_loop settings [] = settings"
| "settings_loop settings ((t, enabled) # ss) = settings_loop (AList.update t enabled settings) ss"

definition toPreferences :: "mongoPreferencesDoc \<Rightarrow> NotificationPreferences" where
  "toPreferences d = \<lparr>np_UserID = mp_UserID d, np_GlobalEnabled = mp_GlobalEnabled d,
     np_QuietHoursEnabled = mp_QuietHoursEnabled d, np_QuietHoursStart = mp_QuietHoursStart d,
     np_QuietHoursEnd = mp_QuietHoursEnd d, np_Timezone = mp_Timezone d, np_Locale = mp_Locale d,
     np_EventTypeSettings = settings_loop [] (mp_EventTypeSettings d), np_CreatedAt = mp_CreatedAt d,
     np_UpdatedAt = mp_UpdatedAt d\<rparr>"

text \<open>\<^verbatim>\<open>range\<close> over a map visits each key once.\<close>

definition settingsToMongo :: "(EventType, bool) gomap \<Rightarrow> mongoEventTypeSetting list" where
  "settingsToMongo settings = sort_key fst (AList.clearjunk settings)"

definition mongo_GetPreferences ::
  "string \<Rightarrow> mongoPreferencesStore \<Rightarrow> (error + NotificationPreferences) \<times> mongoPreferencesStore" where
  "mongo_GetPreferences userID s =
     (if db_closed s then (Inl (Sentinel ErrClosed), s)
      else case db_query (\<lambda>docs. map_of docs userID) s of
        (Inl err, s') \<Rightarrow> (Inl (backend_error (''grnoti/mongo: get preferences for '' @ userID) err), s')
      | (Inr None, s') \<Rightarrow> (Inl (Sentinel ErrPreferencesNotFound), s')
      | (Inr (Some doc), s') \<Rightarrow> (Inr (toPreferences doc), s'))"

definition bson_upsert_preferences ::
  "Time \<Rightarrow> NotificationPreferences \<Rightarrow> (string, mongoPreferencesDoc) gomap \<Rightarrow> unit \<times> (string, mongoPreferencesDoc) gomap" where
  "bson_upsert_preferences now prefs docs =
     (let created = (case map_of docs (np_UserID prefs) of Some d \<Rightarrow> mp_CreatedAt d | None \<Rightarrow> millis now)
      in ((), AList.update (np_UserID prefs)
           \<lparr>mp_UserID = np_UserID prefs, mp_GlobalEnabled = np_GlobalEnabled prefs,
            mp_QuietHoursEnabled = np_QuietHoursEnabled prefs, mp_QuietHoursStart = np_QuietHoursStart prefs,
            mp_QuietHoursEnd = np_QuietHoursEnd prefs, mp_Timezone = np_Timezone prefs, mp_Locale = np_Locale prefs,
            mp_EventTypeSettings = settingsToMongo (np_EventTypeSettings prefs), mp_CreatedAt = created,
            mp_UpdatedAt = millis now\<rparr> docs))"

definition mongo_SavePreferences ::
  "Time \<Rightarrow> NotificationPreferences \<Rightarrow> mongoPreferencesStore \<Rightarrow> error option \<times> mongoPreferencesStore" where
  "mongo_SavePreferences now prefs s =
     (if db_closed s then (Some (Sentinel ErrClosed), s)
      else if np_UserID prefs = [] then (Some (Sentinel ErrPreferencesUserIDRequired), s)
      else case db_exec (bson_upsert_preferences now prefs) s of
        (Inl err, s') \<Rightarrow> (Some (backend_error (''grnoti/mongo: save preferences for '' @ np_UserID prefs) err), s')
      | (Inr u, s') \<Rightarrow> (None, s'))"

definition mongo_IsEventTypeEnabled ::
  "string \<Rightarrow> EventType \<Rightarrow> mongoPreferencesStore \<Rightarrow> (error + bool) \<times> mongoPreferencesStore" where
  "mongo_IsEventTypeEnabled userID eventType s =
     (case mongo_GetPreferences userID s of
        (Inl err, s') \<Rightarrow> (if errors_is err ErrPreferencesNotFound then (Inr True, s') else (Inl err, s'))
      | (Inr prefs, s') \<Rightarrow> (Inr (prefs_IsEventTypeEnabled prefs eventType), s'))"

definition mongo_PreferencesStore :: "('c \<Rightarrow> Time \<times> 'c) \<Rightarrow> (mongoPreferencesStore \<times> 'c) PreferencesStore" where
  "mongo_PreferencesStore clock =
     \<lparr>ps_GetPreferences = (\<lambda>u (s, c). case mongo_GetPreferences u s of (r, s') \<Rightarrow> (r, s', c)),
      ps_SavePreferences = (\<lambda>p (s, c). case clock c of (now, c') \<Rightarrow>
        (case mongo_SavePreferences now p s of (r, s') \<Rightarrow> (r, s', c'))),
      ps_IsEventTypeEnabled = (\<lambda>u t (s, c). case mongo_IsEventTypeEnabled u t s of (r, s') \<Rightarrow> (r, s', c))\<rparr>"

section \<open>The device store keeps the contract\<close>

definition mongo_dev_inv :: "mongoDeviceStore \<Rightarrow> bool" where
  "mongo_dev_inv s \<longleftrightarrow> healthy s \<and> keyed md_FID (db_rows s)"

abbreviation mongo_device_at :: "mongoDeviceStore \<Rightarrow> string \<Rightarrow> Device option" where
  "mongo_device_at s fid \<equiv> map_option toDevice (map_of (db_rows s) fid)"

lemma toDevice_simps [simp]:
  "dev_FID (toDevice d) = md_FID d" "dev_UserID (toDevice d) = md_UserID d"
  "dev_AnonymousID (toDevice d) = md_AnonymousID d" "dev_IsActive (toDevice d) = md_IsActive d"
  "dev_CreatedAt (toDevice d) = md_CreatedAt d"
  by (simp_all add: toDevice_def)

lemmas mongo_device_ops = mongo_GetActiveDevices_def mongo_GetActiveDevicesByAnonymousID_def mongo_MarkInvalid_def
  mongo_SaveDevice_def mongo_DeleteDevice_def bson_mark_invalid_def bson_upsert_device_def

lemma docs_image:
  assumes "keyed md_FID docs"
  shows "toDevice ` {d \<in> snd ` set docs. Q (toDevice d)} =
    {d. \<exists>fid. map_option toDevice (map_of docs fid) = Some d \<and> Q d}"
  using keyed_set [OF assms] by (auto 0 3)

interpretation mongo_dev: device_store millis mongo_dev_inv mongo_device_at
  "\<lambda>u s. value_or [] (fst (mongo_GetActiveDevices u s))"
  "\<lambda>a s. value_or [] (fst (mongo_GetActiveDevicesByAnonymousID a s))"
  "\<lambda>now fid s. snd (mongo_MarkInvalid now fid s)" mongo_SaveDevice "\<lambda>fid s. snd (mongo_DeleteDevice fid s)"
proof (unfold_locales, goal_cases)
  case (1 s fid d)
  then show ?case by (auto simp: mongo_dev_inv_def keyed_def)
next
  case (2 s u)
  then show ?case using docs_image [of "db_rows s" "\<lambda>d. dev_UserID d = u \<and> dev_IsActive d"]
    by (simp add: mongo_dev_inv_def healthy_def mongo_device_ops value_or_def)
next
  case (3 s a)
  then show ?case using docs_image [of "db_rows s" "\<lambda>d. dev_AnonymousID d = a \<and> dev_IsActive d"]
    by (simp add: mongo_dev_inv_def healthy_def mongo_device_ops value_or_def)
next
  case (4 s u)
  then show ?case
    using distinct_map_filter [OF keyed_distinct [of md_FID "db_rows s"], of "\<lambda>d. md_UserID d = u \<and> md_IsActive d"]
    by (simp add: mongo_dev_inv_def healthy_def mongo_device_ops value_or_def comp_def)
next
  case (5 s now fid)
  then show ?case
    by (auto simp: mongo_dev_inv_def healthy_def mongo_device_ops keyed_def split: option.splits)
next
  case (6 s now fid g)
  then show ?case
    by (auto simp: mongo_dev_inv_def healthy_def mongo_device_ops toDevice_def split: option.splits)
next
  case (7 s now d)
  then show ?case
    by (cases "device_Validate d") (auto simp: mongo_dev_inv_def healthy_def mongo_device_ops keyed_def Let_def)
next
  case (8 s d e now)
  then show ?case by (simp add: mongo_dev_inv_def healthy_def mongo_SaveDevice_def)
next
  case (9 s d now)
  then show ?case by (simp add: mongo_dev_inv_def healthy_def mongo_SaveDevice_def)
next
  case (10 s d now g)
  then show ?case
    by (auto simp: mongo_dev_inv_def healthy_def mongo_device_ops Let_def toDevice_def split: option.splits)
next
  case (11 s fid)
  then show ?case by (auto simp: mongo_dev_inv_def healthy_def mongo_device_ops keyed_def)
next
  case (12 s fid g)
  then show ?case by (auto simp: mongo_dev_inv_def healthy_def mongo_device_ops)
next
  case (13 s a)
  then show ?case
    using distinct_map_filter [OF keyed_distinct [of md_FID "db_rows s"], of "\<lambda>d. md_AnonymousID d = a \<and> md_IsActive d"]
    by (simp add: mongo_dev_inv_def healthy_def mongo_device_ops value_or_def comp_def)
qed

section \<open>The preferences store keeps the contract\<close>

lemma settings_loop_map: "map_of (settings_loop m ss) = map_of m ++ map_of (rev ss)"
  by (induction m ss rule: settings_loop.induct) (auto simp: fun_eq_iff map_add_def split: option.splits)

lemma map_of_sort_key: "distinct (map fst m) \<Longrightarrow> map_of (sort_key fst m) = map_of m"
  by (rule map_of_inject_set [THEN iffD2]) (auto simp: distinct_map)

text \<open>The stored array decodes to the map it was made from.\<close>

lemma settings_roundtrip: "map_of (settings_loop [] (settingsToMongo m)) = map_of m"
proof -
  have dist: "distinct (map fst (AList.clearjunk m))" by (simp add: distinct_clearjunk)
  then have "distinct (map fst (settingsToMongo m))" by (simp add: settingsToMongo_def distinct_map)
  then have "map_of (rev (settingsToMongo m)) = map_of (settingsToMongo m)"
    by (intro map_of_inject_set [THEN iffD2]) (simp_all add: rev_map [symmetric])
  also have "\<dots> = map_of m" using map_of_sort_key [OF dist] by (simp add: settingsToMongo_def map_of_clearjunk)
  finally show ?thesis by (simp add: settings_loop_map)
qed

abbreviation mongo_prefs_at :: "mongoPreferencesStore \<Rightarrow> string \<Rightarrow> NotificationPreferences option" where
  "mongo_prefs_at s u \<equiv> map_option toPreferences (map_of (db_rows s) u)"

lemma mongo_save_prefs:
  assumes "healthy s" "np_UserID p \<noteq> []"
  shows "fst (mongo_SavePreferences now p s) = None \<and> healthy (snd (mongo_SavePreferences now p s)) \<and>
    (\<exists>q. same_settings p q \<and> mongo_prefs_at (snd (mongo_SavePreferences now p s)) = (mongo_prefs_at s)(np_UserID p \<mapsto> q))"
proof -
  obtain doc where doc: "snd (bson_upsert_preferences now p (db_rows s)) = AList.update (np_UserID p) doc (db_rows s)"
    "same_settings p (toPreferences doc)"
    by (auto simp: bson_upsert_preferences_def Let_def same_settings_def toPreferences_def settings_roundtrip)
  show ?thesis using assms doc
    by (auto simp: mongo_SavePreferences_def healthy_def fun_eq_iff intro!: exI [of _ "toPreferences doc"])
qed

interpretation mongo_prefs: preferences_store "mongo_PreferencesStore clock" "\<lambda>w. healthy (fst w)"
  "\<lambda>w. mongo_prefs_at (fst w)" for clock :: "'c \<Rightarrow> Time \<times> 'c"
proof (unfold_locales, goal_cases)
  case (1 w u r w')
  then show ?case
    by (auto simp: mongo_PreferencesStore_def mongo_GetPreferences_def healthy_def split: prod.splits option.splits)
next
  case (2 w u r w')
  then show ?case
    by (auto simp: mongo_PreferencesStore_def mongo_GetPreferences_def healthy_def split: prod.splits option.splits)
next
  case (3 w p r w')
  then show ?case using mongo_save_prefs [OF 3(1), of p]
    by (cases "np_UserID p = []")
      (auto simp: mongo_PreferencesStore_def mongo_SavePreferences_def healthy_def split: prod.splits sum.splits)
next
  case (4 w p w')
  obtain now c where c: "clock (snd w) = (now, c)" by fastforce
  have "np_UserID p \<noteq> []"
    using 4 c by (auto simp: mongo_PreferencesStore_def mongo_SavePreferences_def healthy_def split: prod.splits)
  from mongo_save_prefs [OF 4(1) this, of now] 4(2) c show ?case
    by (auto simp: mongo_PreferencesStore_def split: prod.splits)
next
  case (5 w p r w')
  then show ?case using mongo_save_prefs [OF 5(1), of p]
    by (cases "np_UserID p = []")
      (auto simp: mongo_PreferencesStore_def mongo_SavePreferences_def healthy_def split: prod.splits sum.splits)
next
  case (6 w p err w')
  then show ?case
    by (auto simp: mongo_PreferencesStore_def mongo_SavePreferences_def healthy_def split: prod.splits sum.splits if_splits)
qed

section \<open>Properties\<close>


text \<open>
  C19. Whatever was saved, invalidated and deleted before, every device that a store hands out for a user is well formed: it has an FID of
  the valid form, belongs to that user and is active; and no FID occurs twice.  This holds for all three backends.
\<close>

theorem handed_out_devices_well_formed:
  "let ms = mem_GetActiveDevices u (dev_run mem_SaveDevice mem_MarkInvalid mem_DeleteDevice ops NewMemoryDeviceStore);
       ps = value_or [] (fst (pg_GetActiveDevices u (dev_run pg_SaveDevice (\<lambda>now fid s. snd (pg_MarkInvalid now fid s))
              (\<lambda>fid s. snd (pg_DeleteDevice fid s)) ops new_backend)));
       bs = value_or [] (fst (mongo_GetActiveDevices u (dev_run mongo_SaveDevice (\<lambda>now fid s. snd (mongo_MarkInvalid now fid s))
              (\<lambda>fid s. snd (mongo_DeleteDevice fid s)) ops new_backend)))
   in list_all (well_formed_for u) ms \<and> list_all (well_formed_for u) ps \<and> list_all (well_formed_for u) bs \<and>
      distinct (map dev_FID ms) \<and> distinct (map dev_FID ps) \<and> distinct (map dev_FID bs)"
proof -
  have "pg_dev_inv new_backend" "mongo_dev_inv new_backend"
    by (simp_all add: pg_dev_inv_def mongo_dev_inv_def healthy_def new_backend_def)
  then show ?thesis
    using mem_dev.get_run_well_formed [OF mds_inv_new, of u ops] pg_dev.get_run_well_formed [of new_backend u ops]
      mongo_dev.get_run_well_formed [of new_backend u ops]
    by (simp add: NewMemoryDeviceStore_def Let_def) (simp add: new_backend_def)
qed


text \<open>A codec for settings, for the concrete instance: one character for each flag and each character of a key.\<close>

fun demo_encode :: "(EventType, bool) gomap \<Rightarrow> string" where
  "demo_encode [] = ''.''"
| "demo_encode ((k, b) # m) = (if b then CHR ''1'' else CHR ''0'') # concat (map (\<lambda>c. [CHR ''c'', c]) k) @ '';'' @ demo_encode m"

fun demo_key :: "string \<Rightarrow> string \<times> string" where
  "demo_key (m # c # s) = (if m = CHR ''c'' then (case demo_key s of (k, rest) \<Rightarrow> (c # k, rest)) else ([], c # s))"
| "demo_key s = ([], [])"

lemma demo_key_rest: "length (snd (demo_key s)) \<le> length s"
  by (induction s rule: demo_key.induct) (auto split: prod.split)

lemma demo_key_pair: "(k, rest) = demo_key s \<Longrightarrow> length rest \<le> length s"
  using demo_key_rest [of s] by (metis snd_conv)

function demo_decode :: "string \<Rightarrow> (EventType, bool) gomap" where
  "demo_decode [] = []"
| "demo_decode (b # s) =
     (if b = CHR ''.'' then []
      else case demo_key s of (k, rest) \<Rightarrow> (k, b = CHR ''1'') # demo_decode rest)"
  by pat_completeness auto
termination
  by (relation "measure length") (auto simp: less_Suc_eq_le intro: demo_key_pair)

lemma demo_key_encode:
  "s \<noteq> [] \<Longrightarrow> demo_key (concat (map (\<lambda>c. [CHR ''c'', c]) k) @ CHR '';'' # s) = (k, s)"
  by (induction k) (auto simp: neq_Nil_conv)

lemma demo_decode_encode: "demo_decode (demo_encode m) = m"
proof (induction m)
  case (Cons p m)
  have "demo_encode m \<noteq> []" by (cases m) (auto split: prod.splits)
  with Cons demo_key_encode show ?case by (cases p) simp
qed simp

definition demo_settings :: settings_codec where
  "demo_settings = \<lparr>Marshal = (\<lambda>m. Some (demo_encode m)), Unmarshal = (\<lambda>raw. Some (demo_decode raw))\<rparr>"

lemma demo_settings_ok: "settings_ok demo_settings"
proof -
  have "demo_encode m \<noteq> []" for m by (cases m) (auto split: prod.splits)
  then show ?thesis by (simp add: settings_ok_def demo_settings_def demo_decode_encode)
qed


end
