(* ===== verification/Grnoti_Connect.thy ===== *)
theory Grnoti_Connect
  imports Grnoti_Mongo Grnoti_DLQ_Mongo
begin

text \<open>
  How the backed stores are opened and closed: \<^verbatim>\<open>connectPostgres\<close> and the constructors of the Postgres stores
  (\<^verbatim>\<open>postgres.go\<close>, \<^verbatim>\<open>devicestore.postgres.go\<close>, \<^verbatim>\<open>preferences.postgres.go\<close>, \<^verbatim>\<open>experimentstore.postgres.go\<close>,
  \<^verbatim>\<open>dlq.postgres.go\<close>), the constructors of the Mongo stores (\<^verbatim>\<open>devicestore.mongo.go\<close>,
  \<^verbatim>\<open>preferences.mongo.go\<close>, \<^verbatim>\<open>dlq.mongo.go\<close>), and their \<^verbatim>\<open>Close\<close>.  Pools and clients are handles; what is kept of them is
  which ones are open, so that leaks and foreign closes are visible.
\<close>

section \<open>Handles\<close>

record handles =
  hd_next :: nat
  hd_open :: "nat set"

definition open_handle :: "handles \<Rightarrow> nat \<times> handles" where
  "open_handle hs = (hd_next hs, hs\<lparr>hd_next := hd_next hs + 1, hd_open := insert (hd_next hs) (hd_open hs)\<rparr>)"

definition close_handle :: "nat \<Rightarrow> handles \<Rightarrow> handles" where
  "close_handle x hs = hs\<lparr>hd_open := hd_open hs - {x}\<rparr>"

text \<open>Handles are numbered in the order they are opened.\<close>

definition handles_ok :: "handles \<Rightarrow> bool" where
  "handles_ok hs \<longleftrightarrow> (\<forall>x \<in> hd_open hs. x < hd_next hs)"

section \<open>Postgres\<close>

record PostgresConfig =
  pc_DSN :: string
  pc_Pool :: "nat option"
  pc_MaxConns :: int
  pc_MinConns :: int
  pc_MaxConnLifetime :: Duration
  pc_ConnectTimeout :: Duration

text \<open>The part of \<^verbatim>\<open>pgxpool\<close> the code calls; a pool configuration is its three fields.\<close>

record pool_config =
  po_MaxConns :: int
  po_MinConns :: int
  po_MaxConnLifetime :: Duration

record pgx =
  px_ParseConfig :: "string \<Rightarrow> error + pool_config"
  px_NewWithConfig :: "Duration \<Rightarrow> pool_config \<Rightarrow> error option"
  px_Ping :: "Duration \<Rightarrow> nat \<Rightarrow> error option"

definition defaultTimeout :: Duration where "defaultTimeout = 10 * Second"

definition tuned :: "PostgresConfig \<Rightarrow> pool_config \<Rightarrow> pool_config" where
  "tuned cfg po =
     \<lparr>po_MaxConns = (if pc_MaxConns cfg > 0 then pc_MaxConns cfg else po_MaxConns po),
      po_MinConns = (if pc_MinConns cfg > 0 then pc_MinConns cfg else po_MinConns po),
      po_MaxConnLifetime = (if pc_MaxConnLifetime cfg > 0 then pc_MaxConnLifetime cfg else po_MaxConnLifetime po)\<rparr>"

definition connectPostgres ::
  "pgx \<Rightarrow> PostgresConfig \<Rightarrow> string \<Rightarrow> handles \<Rightarrow> (error + nat \<times> bool) \<times> handles" where
  "connectPostgres X cfg component hs =
     (if (pc_DSN cfg = []) = (pc_Pool cfg = None)
      then (Inl (Opaque (''grnoti/postgres: exactly one of DSN or Pool is required for '' @ component)), hs)
      else case pc_Pool cfg of
        Some pool \<Rightarrow>
          (case px_Ping X defaultTimeout pool of
             Some err \<Rightarrow> (Inl (backend_error ''grnoti/postgres: ping'' err), hs)
           | None \<Rightarrow> (Inr (pool, False), hs))
      | None \<Rightarrow>
          (case px_ParseConfig X (pc_DSN cfg) of
             Inl err \<Rightarrow> (Inl (Wrap ''grnoti/postgres: parse DSN: '' err []), hs)
           | Inr po \<Rightarrow>
               (let timeout = (if pc_ConnectTimeout cfg \<le> 0 then defaultTimeout else pc_ConnectTimeout cfg) in
                case px_NewWithConfig X timeout (tuned cfg po) of
                  Some err \<Rightarrow> (Inl (backend_error ''grnoti/postgres: connect'' err), hs)
                | None \<Rightarrow>
                    (case open_handle hs of (pool, hs1) \<Rightarrow>
                       (case px_Ping X timeout pool of
                          Some err \<Rightarrow> (Inl (backend_error ''grnoti/postgres: ping'' err), close_handle pool hs1)
                        | None \<Rightarrow> (Inr (pool, True), hs1))))))"

text \<open>A store together with the handle it works through, and whether that handle is its own.\<close>

record 's connected =
  cn_store :: 's
  cn_handle :: nat
  cn_owns :: bool

text \<open>
  The four constructors differ in the name they report and in the store they build; \<open>db\<close> is what the database holds.
\<close>

definition open_postgres ::
  "string \<Rightarrow> 's \<Rightarrow> pgx \<Rightarrow> PostgresConfig \<Rightarrow> handles \<Rightarrow> (error + 's connected) \<times> handles" where
  "open_postgres component store X cfg hs =
     (case connectPostgres X cfg component hs of
        (Inl err, hs1) \<Rightarrow> (Inl err, hs1)
      | (Inr (pool, ownsPool), hs1) \<Rightarrow> (Inr \<lparr>cn_store = store, cn_handle = pool, cn_owns = ownsPool\<rparr>, hs1))"

definition NewPostgresDeviceStore ::
  "postgresDeviceStore \<Rightarrow> pgx \<Rightarrow> PostgresConfig \<Rightarrow> handles \<Rightarrow> (error + postgresDeviceStore connected) \<times> handles" where
  "NewPostgresDeviceStore db = open_postgres ''DeviceStore'' db"

definition NewPostgresPreferencesStore ::
  "postgresPreferencesStore \<Rightarrow> pgx \<Rightarrow> PostgresConfig \<Rightarrow> handles \<Rightarrow> (error + postgresPreferencesStore connected) \<times> handles" where
  "NewPostgresPreferencesStore db = open_postgres ''PreferencesStore'' db"

definition NewPostgresExperimentStore ::
  "postgresExperimentStore \<Rightarrow> pgx \<Rightarrow> PostgresConfig \<Rightarrow> handles \<Rightarrow> (error + postgresExperimentStore connected) \<times> handles" where
  "NewPostgresExperimentStore db = open_postgres ''ExperimentStore'' db"

definition NewPostgresDLQHandler ::
  "int \<Rightarrow> Duration \<Rightarrow> Duration \<Rightarrow> pgx \<Rightarrow> PostgresConfig \<Rightarrow> handles \<Rightarrow> (error + postgresDLQHandler connected) \<times> handles" where
  "NewPostgresDLQHandler maxRetries retryDelay maxRetryDelay =
     open_postgres ''DLQHandler'' (pg_dlq_new maxRetries retryDelay maxRetryDelay)"

text \<open>\<^verbatim>\<open>Close\<close>: the flag of the store is set once; only the first call touches the pool, and only one it owns.\<close>

definition pg_Close :: "'r backend connected \<Rightarrow> handles \<Rightarrow> 'r backend connected \<times> handles" where
  "pg_Close c hs =
     (if db_closed (cn_store c) then (c, hs)
      else (c\<lparr>cn_store := db_Close (cn_store c)\<rparr>, if cn_owns c then close_handle (cn_handle c) hs else hs))"

definition pg_dlq_Close :: "postgresDLQHandler connected \<Rightarrow> handles \<Rightarrow> postgresDLQHandler connected \<times> handles" where
  "pg_dlq_Close c hs =
     (if db_closed (pq_db (cn_store c)) then (c, hs)
      else (c\<lparr>cn_store := (cn_store c)\<lparr>pq_db := db_Close (pq_db (cn_store c))\<rparr>\<rparr>,
            if cn_owns c then close_handle (cn_handle c) hs else hs))"

definition pg_prefs_Close ::
  "postgresPreferencesStore connected \<Rightarrow> handles \<Rightarrow> postgresPreferencesStore connected \<times> handles" where
  "pg_prefs_Close = pg_Close"

definition pg_exp_Close :: "postgresExperimentStore connected \<Rightarrow> handles \<Rightarrow> postgresExperimentStore connected \<times> handles" where
  "pg_exp_Close = pg_Close"

section \<open>Applying the schema\<close>

text \<open>
  \<^verbatim>\<open>applyPostgresSchema\<close>, called by many processes at once.  Each caller is at one of its statements; \<open>sm_lock\<close> is the session
  that holds the advisory lock \<^verbatim>\<open>grnotiSchemaLockKey\<close>.  The server grants the lock to one session at a time and lets the others
  wait.  The result of the unlock is ignored by the code: if it fails, the session goes back to the pool with the lock.
\<close>

datatype schema_pc =
    Acquire
  | Lock
  | ExecSchema
  | Unlock "error option"
  | Done "error option"

record schema_run =
  sm_lock :: "nat option"
  sm_pc :: "nat \<Rightarrow> schema_pc"

definition pc_to :: "nat \<Rightarrow> schema_pc \<Rightarrow> schema_run \<Rightarrow> schema_run" where
  "pc_to i pc s = s\<lparr>sm_pc := (sm_pc s)(i := pc)\<rparr>"

inductive applyPostgresSchema :: "schema_run \<Rightarrow> schema_run \<Rightarrow> bool" where
  acquired: "sm_pc s i = Acquire \<Longrightarrow> applyPostgresSchema s (pc_to i Lock s)"
| not_acquired: "sm_pc s i = Acquire \<Longrightarrow>
    applyPostgresSchema s (pc_to i (Done (Some (Wrap ''acquire connection: '' err []))) s)"
| locked: "sm_pc s i = Lock \<Longrightarrow> sm_lock s = None \<Longrightarrow> applyPostgresSchema s ((pc_to i ExecSchema s)\<lparr>sm_lock := Some i\<rparr>)"
| not_locked: "sm_pc s i = Lock \<Longrightarrow>
    applyPostgresSchema s (pc_to i (Done (Some (Wrap ''acquire schema lock: '' err []))) s)"
| applied: "sm_pc s i = ExecSchema \<Longrightarrow> applyPostgresSchema s (pc_to i (Unlock None) s)"
| not_applied: "sm_pc s i = ExecSchema \<Longrightarrow> applyPostgresSchema s (pc_to i (Unlock (Some err)) s)"
| unlocked: "sm_pc s i = Unlock r \<Longrightarrow> applyPostgresSchema s ((pc_to i (Done r) s)\<lparr>sm_lock := None\<rparr>)"
| not_unlocked: "sm_pc s i = Unlock r \<Longrightarrow> applyPostgresSchema s (pc_to i (Done r) s)"

inductive schema_reach :: "schema_run \<Rightarrow> bool" where
  start: "schema_reach \<lparr>sm_lock = None, sm_pc = (\<lambda>i. Acquire)\<rparr>"
| step: "schema_reach s \<Longrightarrow> applyPostgresSchema s t \<Longrightarrow> schema_reach t"

fun holds_lock :: "schema_pc \<Rightarrow> bool" where
  "holds_lock ExecSchema = True"
| "holds_lock (Unlock r) = True"
| "holds_lock pc = False"

section \<open>Mongo\<close>

record MongoConfig =
  mc_URI :: string
  mc_Database :: string
  mc_CollectionName :: string

text \<open>An index: its keys in order, whether it is unique, and the age in seconds after which documents expire.\<close>

record index_model =
  ix_Keys :: "string list"
  ix_Unique :: bool
  ix_ExpireAfterSeconds :: "int option"

record mongo_driver =
  mo_Connect :: "string \<Rightarrow> error option"
  mo_Ping :: "Duration \<Rightarrow> nat \<Rightarrow> error option"
  mo_CreateIndexes :: "nat \<Rightarrow> string \<Rightarrow> string \<Rightarrow> index_model list \<Rightarrow> error option"

text \<open>The steps the three constructors share.\<close>

definition open_mongo ::
  "string \<Rightarrow> string \<Rightarrow> index_model list \<Rightarrow> 's \<Rightarrow> mongo_driver \<Rightarrow> MongoConfig \<Rightarrow> handles \<Rightarrow> (error + 's connected) \<times> handles" where
  "open_mongo cfgName defaultCollection indexes store X cfg hs =
     (if mc_URI cfg = [] then (Inl (Opaque (''grnoti/mongo: '' @ cfgName @ ''.URI is required'')), hs)
      else if mc_Database cfg = [] then (Inl (Opaque (''grnoti/mongo: '' @ cfgName @ ''.Database is required'')), hs)
      else
        (let collName = (if mc_CollectionName cfg = [] then defaultCollection else mc_CollectionName cfg) in
         case mo_Connect X (mc_URI cfg) of
           Some err \<Rightarrow> (Inl (backend_error ''grnoti/mongo: connect'' err), hs)
         | None \<Rightarrow>
             (case open_handle hs of (client, hs1) \<Rightarrow>
                (case mo_Ping X defaultTimeout client of
                   Some err \<Rightarrow> (Inl (backend_error ''grnoti/mongo: ping'' err), close_handle client hs1)
                 | None \<Rightarrow>
                     (case mo_CreateIndexes X client (mc_Database cfg) collName indexes of
                        Some err \<Rightarrow> (Inl (Wrap ''grnoti/mongo: ensure indexes: '' err []), close_handle client hs1)
                      | None \<Rightarrow> (Inr \<lparr>cn_store = store, cn_handle = client, cn_owns = True\<rparr>, hs1))))))"

definition NewMongoDeviceStore ::
  "mongoDeviceStore \<Rightarrow> mongo_driver \<Rightarrow> MongoConfig \<Rightarrow> handles \<Rightarrow> (error + mongoDeviceStore connected) \<times> handles" where
  "NewMongoDeviceStore db = open_mongo ''MongoDeviceStoreConfig'' ''grnoti_devices''
     [\<lparr>ix_Keys = [''fid''], ix_Unique = True, ix_ExpireAfterSeconds = None\<rparr>,
      \<lparr>ix_Keys = [''user_id'', ''is_active''], ix_Unique = False, ix_ExpireAfterSeconds = None\<rparr>,
      \<lparr>ix_Keys = [''anonymous_id'', ''is_active''], ix_Unique = False, ix_ExpireAfterSeconds = None\<rparr>] db"

definition NewMongoPreferencesStore ::
  "mongoPreferencesStore \<Rightarrow> mongo_driver \<Rightarrow> MongoConfig \<Rightarrow> handles \<Rightarrow> (error + mongoPreferencesStore connected) \<times> handles" where
  "NewMongoPreferencesStore db = open_mongo ''MongoPreferencesStoreConfig'' ''grnoti_preferences''
     [\<lparr>ix_Keys = [''user_id''], ix_Unique = True, ix_ExpireAfterSeconds = None\<rparr>] db"

definition NewMongoDLQHandler ::
  "int \<Rightarrow> Duration \<Rightarrow> Duration \<Rightarrow> mongo_driver \<Rightarrow> MongoConfig \<Rightarrow> handles \<Rightarrow> (error + mongoDLQHandler connected) \<times> handles" where
  "NewMongoDLQHandler maxRetries retryDelay maxRetryDelay = open_mongo ''MongoDLQHandlerConfig'' ''grnoti_dlq''
     [\<lparr>ix_Keys = [''event_id''], ix_Unique = True, ix_ExpireAfterSeconds = None\<rparr>,
      \<lparr>ix_Keys = [''status'', ''next_retry_at''], ix_Unique = False, ix_ExpireAfterSeconds = None\<rparr>,
      \<lparr>ix_Keys = [''created_at''], ix_Unique = False, ix_ExpireAfterSeconds = Some (7 * 24 * 60 * 60)\<rparr>]
     (mongo_dlq_new maxRetries retryDelay maxRetryDelay)"

text \<open>\<^verbatim>\<open>Close\<close> of a Mongo store: \<open>disconnectErr\<close> is what \<^verbatim>\<open>Disconnect\<close> answers; the client is gone in any case.\<close>

definition mongo_Close ::
  "error option \<Rightarrow> 'r backend connected \<Rightarrow> handles \<Rightarrow> error option \<times> 'r backend connected \<times> handles" where
  "mongo_Close disconnectErr c hs =
     (if db_closed (cn_store c) then (None, c, hs)
      else (disconnectErr, c\<lparr>cn_store := db_Close (cn_store c)\<rparr>, close_handle (cn_handle c) hs))"

definition mongo_dlq_Close ::
  "error option \<Rightarrow> mongoDLQHandler connected \<Rightarrow> handles \<Rightarrow> error option \<times> mongoDLQHandler connected \<times> handles" where
  "mongo_dlq_Close disconnectErr c hs =
     (if db_closed (mq_db (cn_store c)) then (None, c, hs)
      else (disconnectErr, c\<lparr>cn_store := (cn_store c)\<lparr>mq_db := db_Close (mq_db (cn_store c))\<rparr>\<rparr>,
            close_handle (cn_handle c) hs))"

definition mongo_prefs_Close ::
  "error option \<Rightarrow> mongoPreferencesStore connected \<Rightarrow> handles \<Rightarrow> error option \<times> mongoPreferencesStore connected \<times> handles" where
  "mongo_prefs_Close = mongo_Close"

section \<open>Lemmas\<close>

text \<open>Between the lock and the unlock a caller's session holds the lock.\<close>

lemma schema_lock_held:
  assumes "schema_reach s"
  shows "holds_lock (sm_pc s i) \<Longrightarrow> sm_lock s = Some i"
  using assms
proof (induction arbitrary: i)
  case (step s t)
  from step.hyps(2) show ?case
  proof cases
    case (unlocked k r)
    with step.prems step.IH [of i] step.IH [of k] show ?thesis by (simp add: pc_to_def split: if_splits)
  qed (use step.prems step.IH in \<open>auto simp: pc_to_def split: if_splits\<close>)
qed simp

lemma open_close_handle: "handles_ok hs \<Longrightarrow> open_handle hs = (x, hs1) \<Longrightarrow> hd_open (close_handle x hs1) = hd_open hs"
  by (auto simp: open_handle_def close_handle_def handles_ok_def)

lemma open_close_simps [simp]:
  "handles_ok hs \<Longrightarrow> hd_open (close_handle (fst (open_handle hs)) (snd (open_handle hs))) = hd_open hs"
  by (auto simp: open_handle_def close_handle_def handles_ok_def)

text \<open>A constructor that fails leaves no handle behind; one that succeeds holds the pool given, or one it opened.\<close>

lemma connectPostgres_handles:
  assumes "handles_ok hs" "connectPostgres X cfg component hs = (r, hs1)"
  shows "case r of
      Inl err \<Rightarrow> hd_open hs1 = hd_open hs
    | Inr (pool, owns) \<Rightarrow> owns = (pc_Pool cfg = None) \<and>
        (if owns then (pool, hs1) = open_handle hs else pc_Pool cfg = Some pool \<and> hs1 = hs)"
  using assms
  by (auto simp: connectPostgres_def Let_def dest: open_close_handle split: if_splits option.splits sum.splits prod.splits)

lemma open_mongo_handles:
  assumes "handles_ok hs" "open_mongo n d ix store X cfg hs = (r, hs1)"
  shows "case r of
      Inl err \<Rightarrow> hd_open hs1 = hd_open hs
    | Inr c \<Rightarrow> (cn_handle c, hs1) = open_handle hs \<and> cn_store c = store"
  using assms
  by (auto simp: open_mongo_def Let_def dest: open_close_handle split: if_splits option.splits prod.splits)

section \<open>Properties\<close>

text \<open>
  C32. Ownership of connections: a Postgres store whose construction fails leaves no pool open; a store that dialed its
  own pool opens exactly one and gives it back on \<^verbatim>\<open>Close\<close>; a store on the caller's pool opens none and never closes
  that one.  Closing again changes nothing, and the store answers \<^verbatim>\<open>ErrClosed\<close> from then on.
\<close>

theorem postgres_connection_ownership:
  assumes "handles_ok hs" and "\<not> db_closed db" and "NewPostgresDeviceStore db X cfg hs = (r, hs1)"
  shows "case r of
      Inl err \<Rightarrow> hd_open hs1 = hd_open hs
    | Inr c \<Rightarrow> (case pg_Close c hs1 of (c2, hs2) \<Rightarrow>
        hd_open hs2 = hd_open hs \<and> (pc_Pool cfg \<noteq> None \<longrightarrow> hs2 = hs) \<and>
        hd_open hs1 = (if pc_Pool cfg = None then insert (cn_handle c) (hd_open hs) else hd_open hs) \<and>
        pg_Close c2 hs2 = (c2, hs2) \<and>
        pg_GetActiveDevices userID (cn_store c2) = (Inl (Sentinel ErrClosed), cn_store c2))"
proof -
  obtain q hs' where q: "connectPostgres X cfg ''DeviceStore'' hs = (q, hs')" by (rule prod.exhaust)
  note h = connectPostgres_handles [OF assms(1) q]
  show ?thesis
  proof (cases q)
    case (Inl err)
    with assms(3) h q show ?thesis by (auto simp: NewPostgresDeviceStore_def open_postgres_def)
  next
    case (Inr po)
    obtain pool owns where po: "po = (pool, owns)" by (rule prod.exhaust)
    then have r: "r = Inr \<lparr>cn_store = db, cn_handle = pool, cn_owns = owns\<rparr>" "hs1 = hs'"
      using assms(3) q Inr by (simp_all add: NewPostgresDeviceStore_def open_postgres_def)
    from h Inr po have own: "owns = (pc_Pool cfg = None)"
      and hs': "if owns then (pool, hs') = open_handle hs else hs' = hs" by (simp_all split: if_splits)
    show ?thesis
    proof (cases owns)
      case True
      with hs' have o: "open_handle hs = (pool, hs')" by simp
      then have "hd_open hs' = insert pool (hd_open hs)" by (auto simp: open_handle_def)
      with True own r assms(2) open_close_handle [OF assms(1) o] show ?thesis
        by (simp add: pg_Close_def db_Close_def pg_GetActiveDevices_def)
    next
      case False
      with hs' own r assms(2) show ?thesis by (auto simp: pg_Close_def db_Close_def pg_GetActiveDevices_def)
    qed
  qed
qed

definition demo_pgx :: pgx where
  "demo_pgx = \<lparr>px_ParseConfig = (\<lambda>dsn. Inr \<lparr>po_MaxConns = 4, po_MinConns = 0, po_MaxConnLifetime = 0\<rparr>),
     px_NewWithConfig = (\<lambda>t po. None), px_Ping = (\<lambda>t pool. None)\<rparr>"

definition demo_dsn :: PostgresConfig where
  "demo_dsn = \<lparr>pc_DSN = ''postgres://db'', pc_Pool = None, pc_MaxConns = 0, pc_MinConns = 0, pc_MaxConnLifetime = 0,
     pc_ConnectTimeout = 0\<rparr>"

theorem postgres_connection_ownership_witness:
  "handles_ok \<lparr>hd_next = 1, hd_open = {0}\<rparr> \<and>
   (case NewPostgresDeviceStore new_backend demo_pgx demo_dsn \<lparr>hd_next = 1, hd_open = {0}\<rparr> of
      (Inr c, hs1) \<Rightarrow> hd_open hs1 = {1, 0} \<and> hd_open (snd (pg_Close c hs1)) = {0}
    | (Inl err, hs1) \<Rightarrow> False)"
proof -
  let ?hs = "\<lparr>hd_next = 1, hd_open = {0}\<rparr>"
  have ok: "handles_ok ?hs" by (simp add: handles_ok_def)
  have r: "NewPostgresDeviceStore new_backend demo_pgx demo_dsn ?hs =
      (Inr \<lparr>cn_store = new_backend, cn_handle = 1, cn_owns = True\<rparr>, \<lparr>hd_next = 2, hd_open = {1, 0}\<rparr>)"
    by (simp add: NewPostgresDeviceStore_def open_postgres_def connectPostgres_def demo_pgx_def demo_dsn_def
        open_handle_def Let_def)
  have "\<not> db_closed new_backend" by (simp add: new_backend_def)
  note own = postgres_connection_ownership [OF ok this r, of "''u''", unfolded sum.case split_beta]
  have "hd_open (snd (pg_Close \<lparr>cn_store = new_backend :: postgresDeviceStore, cn_handle = 1, cn_owns = True\<rparr> \<lparr>hd_next = 2, hd_open = {1, 0}\<rparr>)) = {0}"
    using own [THEN conjunct1] by simp
  with ok show ?thesis unfolding r by simp
qed

text \<open>
  Concurrent calls of \<^verbatim>\<open>applyPostgresSchema\<close> run the schema one at a time, whatever fails: in no reachable state are two callers
  between the lock and the unlock.
\<close>

theorem schema_applied_one_at_a_time:
  assumes "schema_reach s" "holds_lock (sm_pc s i)" "holds_lock (sm_pc s j)"
  shows "i = j"
  using schema_lock_held [OF assms(1,2)] schema_lock_held [OF assms(1,3)] by simp

text \<open>The Mongo stores always dial their own client; the same balance holds for them.\<close>

theorem mongo_connection_balance:
  assumes "handles_ok hs" and "\<not> db_closed db" and "NewMongoDeviceStore db X cfg hs = (r, hs1)"
  shows "case r of
      Inl err \<Rightarrow> hd_open hs1 = hd_open hs
    | Inr c \<Rightarrow> hd_open hs1 = insert (cn_handle c) (hd_open hs) \<and> hd_open (snd (snd (mongo_Close derr c hs1))) = hd_open hs"
proof (cases r)
  case (Inl err)
  with open_mongo_handles [OF assms(1) assms(3) [unfolded NewMongoDeviceStore_def]] show ?thesis by simp
next
  case (Inr c)
  with open_mongo_handles [OF assms(1) assms(3) [unfolded NewMongoDeviceStore_def]]
  have o: "open_handle hs = (cn_handle c, hs1)" "cn_store c = db" by simp_all
  then have "hd_open hs1 = insert (cn_handle c) (hd_open hs)" by (auto simp: open_handle_def)
  with open_close_handle [OF assms(1) o(1)] o(2) Inr assms(2) show ?thesis by (simp add: mongo_Close_def)
qed

end
