(* ===== verification/Grnoti_RateLimiter.thy ===== *)
theory Grnoti_RateLimiter
  imports Grnoti_Connect
begin

text \<open>
  The rate limiters: the per-process wrapper of \<^verbatim>\<open>ratelimiter.go\<close> over \<^verbatim>\<open>golang.org/x/time/rate\<close>, which is a parameter, and
  the distributed token bucket of \<^verbatim>\<open>ratelimiter.redis.go\<close>, whose script runs atomically on the server.

  The script computes with the server's numbers, here rationals, and stores two of them as text.  \<open>num\<close> is what a number
  becomes when it is printed and read back; the server's Lua prints 14 significant digits.
\<close>

section \<open>Statistics\<close>

record RateLimiterStats =
  rs_RequestsPerSecond :: int
  rs_BurstSize :: int
  rs_AllowedCount :: int
  rs_BlockedCount :: int
  rs_WaitCount :: int
  rs_LastAllowedAt :: Time

section \<open>The local limiter\<close>

record 'l rate_limiter =
  rl_NewLimiter :: "int \<Rightarrow> int \<Rightarrow> 'l"
  rl_Allow :: "'l \<Rightarrow> bool \<times> 'l"
  rl_Wait :: "'l \<Rightarrow> error option \<times> 'l"
  rl_SetLimit :: "int \<Rightarrow> 'l \<Rightarrow> 'l"
  rl_SetBurst :: "int \<Rightarrow> 'l \<Rightarrow> 'l"

record 'l localRateLimiter =
  lr_limiter :: 'l
  lr_requestsPerSec :: int
  lr_burstSize :: int
  lr_allowedCount :: int
  lr_blockedCount :: int
  lr_waitCount :: int
  lr_lastAllowedAt :: Time

definition check_limits :: "int \<Rightarrow> int \<Rightarrow> error option" where
  "check_limits requestsPerSecond burstSize =
     (if requestsPerSecond \<le> 0 then Some (Opaque ''grnoti: requestsPerSecond must be > 0'')
      else if burstSize < requestsPerSecond then Some (Opaque ''grnoti: burstSize must be >= requestsPerSecond'')
      else None)"

definition NewLocalRateLimiter :: "'l rate_limiter \<Rightarrow> int \<Rightarrow> int \<Rightarrow> error + 'l localRateLimiter" where
  "NewLocalRateLimiter L requestsPerSecond burstSize =
     (case check_limits requestsPerSecond burstSize of
        Some err \<Rightarrow> Inl err
      | None \<Rightarrow> Inr \<lparr>lr_limiter = rl_NewLimiter L requestsPerSecond burstSize, lr_requestsPerSec = requestsPerSecond,
                     lr_burstSize = burstSize, lr_allowedCount = 0, lr_blockedCount = 0, lr_waitCount = 0,
                     lr_lastAllowedAt = zero_time\<rparr>)"

definition local_Allow ::
  "'l rate_limiter \<Rightarrow> error option \<Rightarrow> Time \<Rightarrow> 'l localRateLimiter \<Rightarrow> (error + bool) \<times> 'l localRateLimiter" where
  "local_Allow L ctxErr now r =
     (case ctxErr of
        Some err \<Rightarrow> (Inl err, r)
      | None \<Rightarrow>
          (case rl_Allow L (lr_limiter r) of (allowed, l) \<Rightarrow>
             (Inr allowed,
              if allowed then r\<lparr>lr_limiter := l, lr_allowedCount := wrap64 (lr_allowedCount r + 1), lr_lastAllowedAt := now\<rparr>
              else r\<lparr>lr_limiter := l, lr_blockedCount := wrap64 (lr_blockedCount r + 1)\<rparr>)))"

definition local_Wait ::
  "'l rate_limiter \<Rightarrow> Time \<Rightarrow> 'l localRateLimiter \<Rightarrow> error option \<times> 'l localRateLimiter" where
  "local_Wait L now r =
     (let r1 = r\<lparr>lr_waitCount := wrap64 (lr_waitCount r + 1)\<rparr> in
      case rl_Wait L (lr_limiter r1) of
        (Some err, l) \<Rightarrow> (Some (Wrap ''grnoti: rate limiter wait failed: '' err []), r1\<lparr>lr_limiter := l\<rparr>)
      | (None, l) \<Rightarrow>
          (None, r1\<lparr>lr_limiter := l, lr_allowedCount := wrap64 (lr_allowedCount r1 + 1), lr_lastAllowedAt := now\<rparr>))"

definition local_GetStats :: "'l localRateLimiter \<Rightarrow> RateLimiterStats" where
  "local_GetStats r = \<lparr>rs_RequestsPerSecond = lr_requestsPerSec r, rs_BurstSize = lr_burstSize r,
     rs_AllowedCount = lr_allowedCount r, rs_BlockedCount = lr_blockedCount r, rs_WaitCount = lr_waitCount r,
     rs_LastAllowedAt = lr_lastAllowedAt r\<rparr>"

definition local_UpdateLimit ::
  "'l rate_limiter \<Rightarrow> int \<Rightarrow> int \<Rightarrow> 'l localRateLimiter \<Rightarrow> error option \<times> 'l localRateLimiter" where
  "local_UpdateLimit L requestsPerSecond burstSize r =
     (case check_limits requestsPerSecond burstSize of
        Some err \<Rightarrow> (Some err, r)
      | None \<Rightarrow> (None, r\<lparr>lr_limiter := rl_SetBurst L burstSize (rl_SetLimit L requestsPerSecond (lr_limiter r)),
                         lr_requestsPerSec := requestsPerSecond, lr_burstSize := burstSize\<rparr>))"

section \<open>The script on the server\<close>

record bucket =
  bk_tokens :: rat
  bk_updated_at :: rat
  bk_expires_at :: rat

type_synonym redis = "(string, bucket) gomap"

text \<open>\<^verbatim>\<open>HMGET\<close>: an expired key is gone.\<close>

definition redis_bucket :: "rat \<Rightarrow> string \<Rightarrow> redis \<Rightarrow> bucket option" where
  "redis_bucket now key db =
     (case map_of db key of None \<Rightarrow> None | Some b \<Rightarrow> if bk_expires_at b \<le> now then None else Some b)"

definition tokenBucketScript ::
  "(rat \<Rightarrow> rat) \<Rightarrow> string \<Rightarrow> rat \<Rightarrow> rat \<Rightarrow> rat \<Rightarrow> rat \<Rightarrow> redis \<Rightarrow> int \<times> redis" where
  "tokenBucketScript num key capacity refillRate ttl now db =
     (let (tokens0, updatedAt) = (case redis_bucket now key db of
             None \<Rightarrow> (capacity, now) | Some b \<Rightarrow> (bk_tokens b, bk_updated_at b));
          elapsed = (if now - updatedAt < 0 then 0 else now - updatedAt);
          tokens1 = min capacity (tokens0 + elapsed * refillRate);
          (tokens, allowed) = (if tokens1 \<ge> 1 then (tokens1 - 1, 1) else (tokens1, 0))
      in (allowed, AList.update key \<lparr>bk_tokens = num tokens, bk_updated_at = num now, bk_expires_at = now + ttl\<rparr> db))"

section \<open>The distributed limiter\<close>

record RedisRateLimiterConfig =
  rc_Addr :: string
  rc_Client :: "nat option"
  rc_PoolSize :: int
  rc_DialTimeout :: Duration
  rc_ReadTimeout :: Duration
  rc_WriteTimeout :: Duration
  rc_RequestsPerSecond :: int
  rc_BurstSize :: int
  rc_Key :: string

definition withDefaults :: "RedisRateLimiterConfig \<Rightarrow> RedisRateLimiterConfig" where
  "withDefaults cfg = cfg
     \<lparr>rc_PoolSize := (if rc_PoolSize cfg \<le> 0 then 100 else rc_PoolSize cfg),
      rc_DialTimeout := (if rc_DialTimeout cfg \<le> 0 then 5 * Second else rc_DialTimeout cfg),
      rc_ReadTimeout := (if rc_ReadTimeout cfg \<le> 0 then 3 * Second else rc_ReadTimeout cfg),
      rc_WriteTimeout := (if rc_WriteTimeout cfg \<le> 0 then 3 * Second else rc_WriteTimeout cfg),
      rc_Key := (if rc_Key cfg = [] then ''grnoti:ratelimit:default'' else rc_Key cfg)\<rparr>"

definition redisRateLimiterKeyTTL :: rat where "redisRateLimiterKeyTTL = 600"

record redisRateLimiter =
  rr_client :: nat
  rr_ownsClient :: bool
  rr_key :: string
  rr_requestsPerSec :: int
  rr_burstSize :: int
  rr_closed :: bool
  rr_allowedCount :: int
  rr_blockedCount :: int
  rr_waitCount :: int
  rr_lastAllowedAt :: int

text \<open>\<open>ping\<close> is the answer of the server to \<^verbatim>\<open>Ping\<close> through the given client.\<close>

definition NewRedisRateLimiter ::
  "(nat \<Rightarrow> error option) \<Rightarrow> RedisRateLimiterConfig \<Rightarrow> handles \<Rightarrow> (error + redisRateLimiter) \<times> handles" where
  "NewRedisRateLimiter ping cfg0 hs =
     (if (rc_Addr cfg0 = []) = (rc_Client cfg0 = None)
      then (Inl (Opaque ''grnoti: exactly one of RedisRateLimiterConfig.Addr or RedisRateLimiterConfig.Client is required''), hs)
      else if rc_RequestsPerSecond cfg0 \<le> 0 then (Inl (Opaque ''grnoti: RequestsPerSecond must be > 0''), hs)
      else if rc_BurstSize cfg0 < rc_RequestsPerSecond cfg0
        then (Inl (Opaque ''grnoti: BurstSize must be >= RequestsPerSecond''), hs)
      else
        (let cfg = withDefaults cfg0 in
         case (case rc_Client cfg of Some c \<Rightarrow> (c, False, hs) | None \<Rightarrow> (case open_handle hs of (c, hs1) \<Rightarrow> (c, True, hs1))) of
           (client, ownsClient, hs1) \<Rightarrow>
             (case ping client of
                Some err \<Rightarrow>
                  if \<not> ownsClient
                  then (Inl (Wrap ''grnoti: ping injected redis client: '' (Sentinel ErrBackendUnavailable) []), hs1)
                  else (Inl (Wrap (''grnoti: connect '' @ rc_Addr cfg @ '': '') (Sentinel ErrBackendUnavailable) []),
                        close_handle client hs1)
              | None \<Rightarrow>
                  (Inr \<lparr>rr_client = client, rr_ownsClient = ownsClient, rr_key = rc_Key cfg,
                        rr_requestsPerSec = rc_RequestsPerSecond cfg, rr_burstSize = rc_BurstSize cfg, rr_closed = False,
                        rr_allowedCount = 0, rr_blockedCount = 0, rr_waitCount = 0, rr_lastAllowedAt = 0\<rparr>, hs1))))"

text \<open>\<^verbatim>\<open>Time.UnixNano\<close> and \<^verbatim>\<open>time.Unix(0, ns)\<close>.\<close>

definition unix_epoch :: Time where "unix_epoch = 62135596800 * Second"

definition UnixNano :: "Time \<Rightarrow> int" where "UnixNano t = wrap64 (t - unix_epoch)"

definition from_UnixNano :: "int \<Rightarrow> Time" where "from_UnixNano ns = unix_epoch + ns"

text \<open>
  \<^verbatim>\<open>Allow\<close>: the state of the context, whether the evaluation fails, the server's clock when the script runs and the
  local clock afterwards are what the call meets.
\<close>

record allow_env =
  ae_ctxErr :: "error option"
  ae_evalErr :: "error option"
  ae_server :: rat
  ae_now :: Time

definition redis_Allow ::
  "(rat \<Rightarrow> rat) \<Rightarrow> allow_env \<Rightarrow> redisRateLimiter \<Rightarrow> redis \<Rightarrow> (error + bool) \<times> redisRateLimiter \<times> redis" where
  "redis_Allow num env r db =
     (if rr_closed r then (Inl (Sentinel ErrClosed), r, db)
      else case ae_ctxErr env of
        Some err \<Rightarrow> (Inl err, r, db)
      | None \<Rightarrow>
          (case ae_evalErr env of
             Some err \<Rightarrow> (Inl (Wrap ''grnoti: redis rate limiter eval: '' (Sentinel ErrBackendUnavailable) []), r, db)
           | None \<Rightarrow>
               (case tokenBucketScript num (rr_key r) (of_int (rr_burstSize r)) (of_int (rr_requestsPerSec r))
                       redisRateLimiterKeyTTL (ae_server env) db of
                  (res, db1) \<Rightarrow>
                    (Inr (res = 1),
                     if res = 1 then r\<lparr>rr_allowedCount := wrap64 (rr_allowedCount r + 1), rr_lastAllowedAt := UnixNano (ae_now env)\<rparr>
                     else r\<lparr>rr_blockedCount := wrap64 (rr_blockedCount r + 1)\<rparr>,
                     db1))))"

text \<open>
  The polling loop of \<^verbatim>\<open>Wait\<close>, over what each round meets: the call of \<^verbatim>\<open>Allow\<close>, then the select between the context
  and the next tick (\<open>Some err\<close> when the context is done).  No answer as long as it polls.
\<close>

fun wait_loop ::
  "(rat \<Rightarrow> rat) \<Rightarrow> (allow_env \<times> error option) list \<Rightarrow> redisRateLimiter \<Rightarrow> redis \<Rightarrow> error option option \<times> redisRateLimiter \<times> redis" where
  "wait_loop num [] r db = (None, r, db)"
| "wait_loop num ((env, ctxDone) # polls) r db =
     (case redis_Allow num env r db of
        (Inl err, r1, db1) \<Rightarrow> (Some (Some err), r1, db1)
      | (Inr True, r1, db1) \<Rightarrow> (Some None, r1, db1)
      | (Inr False, r1, db1) \<Rightarrow>
          (case ctxDone of Some err \<Rightarrow> (Some (Some err), r1, db1) | None \<Rightarrow> wait_loop num polls r1 db1))"

definition redis_Wait ::
  "(rat \<Rightarrow> rat) \<Rightarrow> (allow_env \<times> error option) list \<Rightarrow> redisRateLimiter \<Rightarrow> redis \<Rightarrow> error option option \<times> redisRateLimiter \<times> redis" where
  "redis_Wait num polls r db =
     (if rr_closed r then (Some (Some (Sentinel ErrClosed)), r, db)
      else wait_loop num polls (r\<lparr>rr_waitCount := wrap64 (rr_waitCount r + 1)\<rparr>) db)"

definition redis_GetStats :: "redisRateLimiter \<Rightarrow> error + RateLimiterStats" where
  "redis_GetStats r =
     (if rr_closed r then Inl (Sentinel ErrClosed)
      else Inr \<lparr>rs_RequestsPerSecond = rr_requestsPerSec r, rs_BurstSize = rr_burstSize r,
                rs_AllowedCount = rr_allowedCount r, rs_BlockedCount = rr_blockedCount r, rs_WaitCount = rr_waitCount r,
                rs_LastAllowedAt = (if rr_lastAllowedAt r \<noteq> 0 then from_UnixNano (rr_lastAllowedAt r) else zero_time)\<rparr>)"

definition redis_UpdateLimit :: "int \<Rightarrow> int \<Rightarrow> redisRateLimiter \<Rightarrow> error option \<times> redisRateLimiter" where
  "redis_UpdateLimit requestsPerSecond burstSize r =
     (if rr_closed r then (Some (Sentinel ErrClosed), r)
      else case check_limits requestsPerSecond burstSize of
        Some err \<Rightarrow> (Some err, r)
      | None \<Rightarrow> (None, r\<lparr>rr_requestsPerSec := requestsPerSecond, rr_burstSize := burstSize\<rparr>))"

definition redis_Close :: "error option \<Rightarrow> redisRateLimiter \<Rightarrow> handles \<Rightarrow> error option \<times> redisRateLimiter \<times> handles" where
  "redis_Close closeErr r hs =
     (if rr_closed r then (None, r, hs)
      else (if rr_ownsClient r then closeErr else None, r\<lparr>rr_closed := True\<rparr>,
            if rr_ownsClient r then close_handle (rr_client r) hs else hs))"

section \<open>The bucket over time\<close>

text \<open>
  How far printing may move a number: never below zero, at most \<open>\<epsilon>\<close> down and \<open>\<delta>\<close> up.
\<close>

definition prints_within :: "(rat \<Rightarrow> rat) \<Rightarrow> rat \<Rightarrow> rat \<Rightarrow> bool" where
  "prints_within num \<epsilon> \<delta> \<longleftrightarrow> 0 \<le> \<epsilon> \<and> 0 \<le> \<delta> \<and> (\<forall>x \<ge> 0. 0 \<le> num x \<and> x - \<epsilon> \<le> num x \<and> num x \<le> x + \<delta>)"

lemma prints_exact: "prints_within (\<lambda>x. x) 0 0"
  by (simp add: prints_within_def)

text \<open>The bucket as a call at time \<open>t\<close> left it.\<close>

definition left_at :: "rat \<Rightarrow> rat \<Rightarrow> string \<Rightarrow> rat \<Rightarrow> redis \<Rightarrow> bucket \<Rightarrow> bool" where
  "left_at \<epsilon> ttl key t db b \<longleftrightarrow>
     map_of db key = Some b \<and> 0 \<le> bk_tokens b \<and> t - \<epsilon> \<le> bk_updated_at b \<and> bk_expires_at b = t + ttl"

definition tokens_ok :: "string \<Rightarrow> redis \<Rightarrow> bool" where
  "tokens_ok key db \<longleftrightarrow> (\<forall>b. map_of db key = Some b \<longrightarrow> 0 \<le> bk_tokens b)"

text \<open>
  One run of the script at \<open>now\<close>: with \<open>x\<close> tokens after the refill, it takes one exactly if there is one.
\<close>

lemma script_cases:
  assumes "tokenBucketScript num key cap rate ttl now db = (a, db')"
  obtains x where "a = (if x \<ge> 1 then 1 else 0)"
    "map_of db' key = Some \<lparr>bk_tokens = num (x - of_int a), bk_updated_at = num now, bk_expires_at = now + ttl\<rparr>"
    "x = (case redis_bucket now key db of None \<Rightarrow> min cap cap
          | Some b \<Rightarrow> min cap (bk_tokens b + (if now - bk_updated_at b < 0 then 0 else now - bk_updated_at b) * rate))"
  using assms by (fastforce simp: tokenBucketScript_def Let_def split: option.splits if_splits)

lemma script_first:
  assumes "tokenBucketScript num key cap rate ttl now db = (a, db')" "prints_within num \<epsilon> \<delta>"
    and "tokens_ok key db" "0 \<le> now" "0 \<le> cap" "0 \<le> rate"
  shows "\<exists>b. left_at \<epsilon> ttl key now db' b \<and> of_int a + bk_tokens b \<le> cap + \<delta>"
proof -
  from assms(1) obtain x where x: "a = (if x \<ge> 1 then 1 else 0)"
    "map_of db' key = Some \<lparr>bk_tokens = num (x - of_int a), bk_updated_at = num now, bk_expires_at = now + ttl\<rparr>"
    "x = (case redis_bucket now key db of None \<Rightarrow> min cap cap
          | Some b \<Rightarrow> min cap (bk_tokens b + (if now - bk_updated_at b < 0 then 0 else now - bk_updated_at b) * rate))"
    by (rule script_cases)
  have "0 \<le> x" "x \<le> cap"
    using x(3) assms(3,5,6) by (auto simp: redis_bucket_def tokens_ok_def split: option.splits if_splits)
  with x(1) have "0 \<le> x - of_int a" by simp
  with assms(2,4) have "0 \<le> num (x - of_int a)" "num (x - of_int a) \<le> x - of_int a + \<delta>" "now - \<epsilon> \<le> num now"
    by (simp_all add: prints_within_def)
  with x(2) \<open>x \<le> cap\<close> show ?thesis by (simp add: left_at_def)
qed

text \<open>A later run gains no more than the refill of the time between the two, up to what the printing adds.\<close>

lemma script_next:
  assumes "tokenBucketScript num key cap rate ttl now db = (a, db')" "prints_within num \<epsilon> \<delta>"
    and "left_at \<epsilon> ttl key t db b" "0 \<le> t" "t \<le> now" "0 \<le> cap" "0 \<le> rate" "cap \<le> rate * ttl"
  shows "\<exists>b'. left_at \<epsilon> ttl key now db' b' \<and>
    of_int a + bk_tokens b' \<le> bk_tokens b + rate * (now - t) + (rate * \<epsilon> + \<delta>)"
proof -
  from assms(1) obtain x where x: "a = (if x \<ge> 1 then 1 else 0)"
    "map_of db' key = Some \<lparr>bk_tokens = num (x - of_int a), bk_updated_at = num now, bk_expires_at = now + ttl\<rparr>"
    "x = (case redis_bucket now key db of None \<Rightarrow> min cap cap
          | Some b \<Rightarrow> min cap (bk_tokens b + (if now - bk_updated_at b < 0 then 0 else now - bk_updated_at b) * rate))"
    by (rule script_cases)
  have eps: "0 \<le> \<epsilon>" using assms(2) by (simp add: prints_within_def)
  have b: "map_of db key = Some b" "0 \<le> bk_tokens b" "t - \<epsilon> \<le> bk_updated_at b" "bk_expires_at b = t + ttl"
    using assms(3) by (simp_all add: left_at_def)
  have "0 \<le> x \<and> x \<le> bk_tokens b + rate * (now - t) + rate * \<epsilon>"
  proof (cases "bk_expires_at b \<le> now")
    case True
    then have "x = cap" using x(3) b(1) by (simp add: redis_bucket_def)
    moreover have "rate * ttl \<le> rate * (now - t)" using True b(4) assms(7) by (intro mult_left_mono) simp_all
    moreover have "0 \<le> rate * \<epsilon>" using assms(7) eps by simp
    ultimately show ?thesis using assms(6,8) b(2) by linarith
  next
    case False
    let ?e = "if now - bk_updated_at b < 0 then 0 else now - bk_updated_at b"
    have x': "x = min cap (bk_tokens b + ?e * rate)" using x(3) b(1) False by (simp add: redis_bucket_def)
    have "0 \<le> ?e" "?e \<le> now - t + \<epsilon>" using b(3) assms(5) eps by auto
    then have "0 \<le> ?e * rate" "?e * rate \<le> (now - t + \<epsilon>) * rate"
      using assms(7) by (auto intro: mult_right_mono)
    then show ?thesis using x' b(2) assms(6) by (auto simp: algebra_simps min_def)
  qed
  with x(1) have "0 \<le> x - of_int a" "x \<le> bk_tokens b + rate * (now - t) + rate * \<epsilon>" by simp_all
  moreover from this assms(2,4,5) have "0 \<le> num (x - of_int a)" "num (x - of_int a) \<le> x - of_int a + \<delta>" "now - \<epsilon> \<le> num now"
    by (simp_all add: prints_within_def)
  ultimately show ?thesis using x(2) by (simp add: left_at_def)
qed

text \<open>
  The calls of \<^verbatim>\<open>Allow\<close> by all processes that share a bucket, in the order the server runs their scripts, and the
  number of them that are allowed.
\<close>

fun fleet_run :: "(rat \<Rightarrow> rat) \<Rightarrow> (redisRateLimiter \<times> allow_env) list \<Rightarrow> redis \<Rightarrow> int \<times> redis" where
  "fleet_run num [] db = (0, db)"
| "fleet_run num ((r, env) # calls) db =
     (case redis_Allow num env r db of (res, r1, db1) \<Rightarrow>
        (case fleet_run num calls db1 of (n, db2) \<Rightarrow> ((if res = Inr True then 1 else 0) + n, db2)))"

definition shares :: "string \<Rightarrow> int \<Rightarrow> int \<Rightarrow> redisRateLimiter \<Rightarrow> bool" where
  "shares key burst rate r \<longleftrightarrow> rr_key r = key \<and> rr_burstSize r = burst \<and> rr_requestsPerSec r = rate"

text \<open>A call either leaves the server alone and is not allowed, or is one run of the script.\<close>

lemma redis_Allow_cases:
  assumes "redis_Allow num env r db = (res, r1, db1)" "shares key burst rate r"
  obtains (failed) "res \<noteq> Inr True" "db1 = db"
    | (evaluated) a where "tokenBucketScript num key (of_int burst) (of_int rate) redisRateLimiterKeyTTL (ae_server env) db = (a, db1)"
        "(if res = Inr True then 1 else 0) = a"
proof (cases "rr_closed r \<or> ae_ctxErr env \<noteq> None \<or> ae_evalErr env \<noteq> None")
  case True
  then show ?thesis using assms(1) failed by (auto simp: redis_Allow_def split: if_splits option.splits)
next
  case False
  obtain a db' where s: "tokenBucketScript num key (of_int burst) (of_int rate) redisRateLimiterKeyTTL (ae_server env) db = (a, db')"
    by (rule prod.exhaust)
  then have "a = 0 \<or> a = 1" by (auto elim!: script_cases)
  with False s assms have "db1 = db'" "(if res = Inr True then 1 else 0) = a"
    by (auto simp: redis_Allow_def shares_def)
  with s show ?thesis by (intro evaluated [of a]) simp_all
qed

lemma fleet_after:
  assumes "left_at \<epsilon> redisRateLimiterKeyTTL key t db b" "prints_within num \<epsilon> \<delta>" "0 \<le> t"
    and "list_all (\<lambda>(r, env). shares key burst rate r) calls" "sorted (t # map (\<lambda>c. ae_server (snd c)) calls @ [T])"
    and "0 \<le> burst" "0 \<le> rate" "of_int burst \<le> of_int rate * redisRateLimiterKeyTTL"
  shows "of_int (fst (fleet_run num calls db)) \<le>
           bk_tokens b + of_int rate * (T - t) + of_nat (length calls) * (of_int rate * \<epsilon> + \<delta>)"
  using assms(1,3,4,5)
proof (induction calls arbitrary: db b t)
  case Nil
  then have "0 \<le> of_int rate * (T - t)" using assms(7) by simp
  with Nil show ?case by (simp add: left_at_def)
next
  case (Cons c calls)
  obtain r env where c: "c = (r, env)" by (rule prod.exhaust)
  obtain res r1 db1 where a: "redis_Allow num env r db = (res, r1, db1)" by (rule prod_cases3)
  have sh: "shares key burst rate r" and rest: "list_all (\<lambda>(r, env). shares key burst rate r) calls"
    and le: "t \<le> ae_server env" and srt: "sorted (ae_server env # map (\<lambda>c. ae_server (snd c)) calls @ [T])"
    and srt': "sorted (t # map (\<lambda>c. ae_server (snd c)) calls @ [T])"
    using Cons.prems(3,4) by (auto simp: c)
  have run: "fst (fleet_run num (c # calls) db) = (if res = Inr True then 1 else 0) + fst (fleet_run num calls db1)"
    by (simp add: c a split_beta)
  have slack: "0 \<le> of_int rate * \<epsilon> + \<delta>" using assms(2,7) by (simp add: prints_within_def)
  from a sh show ?case
  proof (cases rule: redis_Allow_cases)
    case failed
    with Cons.IH [OF Cons.prems(1,2) rest srt'] slack show ?thesis unfolding run by (simp add: algebra_simps)
  next
    case (evaluated n)
    from script_next [OF evaluated(1) assms(2) Cons.prems(1,2) le _ _ assms(8)] assms(6,7)
    obtain b' where b': "left_at \<epsilon> redisRateLimiterKeyTTL key (ae_server env) db1 b'"
      "of_int n + bk_tokens b' \<le> bk_tokens b + of_int rate * (ae_server env - t) + (of_int rate * \<epsilon> + \<delta>)" by auto
    have "0 \<le> ae_server env" using Cons.prems(2) le by simp
    from Cons.IH [OF b'(1) this rest srt] b'(2) show ?thesis unfolding run evaluated(2) by (simp add: algebra_simps)
  qed
qed

lemma fleet_bound:
  assumes "tokens_ok key db" "prints_within num \<epsilon> \<delta>" "0 \<le> t"
    and "list_all (\<lambda>(r, env). shares key burst rate r) calls" "sorted (t # map (\<lambda>c. ae_server (snd c)) calls @ [T])"
    and "0 \<le> burst" "0 \<le> rate" "of_int burst \<le> of_int rate * redisRateLimiterKeyTTL"
  shows "of_int (fst (fleet_run num calls db)) \<le>
           of_int burst + of_int rate * (T - t) + of_nat (length calls) * (of_int rate * \<epsilon> + \<delta>)"
  using assms(3,4,5)
proof (induction calls arbitrary: t)
  case Nil
  then have "0 \<le> of_int rate * (T - t)" using assms(7) by simp
  with assms(6) show ?case by simp
next
  case (Cons c calls)
  obtain r env where c: "c = (r, env)" by (rule prod.exhaust)
  obtain res r1 db1 where a: "redis_Allow num env r db = (res, r1, db1)" by (rule prod_cases3)
  have sh: "shares key burst rate r" and rest: "list_all (\<lambda>(r, env). shares key burst rate r) calls"
    and le: "t \<le> ae_server env" and srt: "sorted (ae_server env # map (\<lambda>c. ae_server (snd c)) calls @ [T])"
    and srt': "sorted (t # map (\<lambda>c. ae_server (snd c)) calls @ [T])"
    using Cons.prems by (auto simp: c)
  have run: "fst (fleet_run num (c # calls) db) = (if res = Inr True then 1 else 0) + fst (fleet_run num calls db1)"
    by (simp add: c a split_beta)
  have slack: "0 \<le> \<delta>" "0 \<le> of_int rate * \<epsilon>" using assms(2,7) by (simp_all add: prints_within_def)
  from a sh show ?case
  proof (cases rule: redis_Allow_cases)
    case failed
    with Cons.IH [OF Cons.prems(1) rest srt'] slack show ?thesis unfolding run by (simp add: algebra_simps)
  next
    case (evaluated n)
    have pos: "0 \<le> ae_server env" using Cons.prems(1) le by simp
    from script_first [OF evaluated(1) assms(2,1) pos] assms(6,7)
    obtain b' where b': "left_at \<epsilon> redisRateLimiterKeyTTL key (ae_server env) db1 b'"
      "of_int n + bk_tokens b' \<le> of_int burst + \<delta>" by auto
    have "of_int rate * (T - ae_server env) \<le> of_int rate * (T - t)"
      using le assms(7) by (intro mult_left_mono) simp_all
    with fleet_after [OF b'(1) assms(2) pos rest srt assms(6-8)] b'(2) slack show ?thesis
      unfolding run evaluated(2) by (simp add: algebra_simps)
  qed
qed

section \<open>Waiting\<close>

definition healthy_poll :: "allow_env \<times> error option \<Rightarrow> bool" where
  "healthy_poll p \<longleftrightarrow> ae_ctxErr (fst p) = None \<and> ae_evalErr (fst p) = None \<and> snd p = None"

lemma shares_counts [simp]:
  "shares key burst rate (r\<lparr>rr_allowedCount := n\<rparr>) = shares key burst rate r"
  "shares key burst rate (r\<lparr>rr_blockedCount := n\<rparr>) = shares key burst rate r"
  "shares key burst rate (r\<lparr>rr_lastAllowedAt := k\<rparr>) = shares key burst rate r"
  "shares key burst rate (r\<lparr>rr_waitCount := n\<rparr>) = shares key burst rate r"
  by (simp_all add: shares_def)

lemma wait_progress:
  assumes "map_of db key = Some \<lparr>bk_tokens = x, bk_updated_at = t, bk_expires_at = t + redisRateLimiterKeyTTL\<rparr>"
    and "shares key burst rate r" "\<not> rr_closed r" "list_all healthy_poll polls" "0 < rate" "rate \<le> burst"
    and "sorted (t # map (\<lambda>p. ae_server (fst p)) polls)"
    and "p \<in> set polls" "1 \<le> x + of_int rate * (ae_server (fst p) - t)"
  shows "fst (wait_loop (\<lambda>y. y) polls r db) = Some None"
  using assms(1-4,7-9)
proof (induction polls arbitrary: x t r db)
  case (Cons q polls)
  obtain env dn where q: "q = (env, dn)" by (rule prod.exhaust)
  have "healthy_poll q" and rest: "list_all healthy_poll polls" using Cons.prems(4) by simp_all
  then have ok: "ae_ctxErr env = None" "ae_evalErr env = None" "dn = None" by (simp_all add: q healthy_poll_def)
  have le: "t \<le> ae_server env" and srt: "sorted (ae_server env # map (\<lambda>p. ae_server (fst p)) polls)"
    using Cons.prems(5) by (simp_all add: q)
  obtain a db1 where s: "tokenBucketScript (\<lambda>y. y) key (of_int burst) (of_int rate) redisRateLimiterKeyTTL (ae_server env) db = (a, db1)"
    by (rule prod.exhaust)
  then obtain y where y: "a = (if y \<ge> 1 then 1 else 0)"
    "map_of db1 key = Some \<lparr>bk_tokens = y - of_int a, bk_updated_at = ae_server env,
       bk_expires_at = ae_server env + redisRateLimiterKeyTTL\<rparr>"
    "y = (if t + redisRateLimiterKeyTTL \<le> ae_server env then of_int burst
          else min (of_int burst) (x + (ae_server env - t) * of_int rate))"
    by (rule script_cases) (use Cons.prems(1) le in \<open>auto simp: redis_bucket_def split: if_splits\<close>)
  have burst: "1 \<le> (of_int burst :: rat)" using assms(5,6) by simp
  have step: "wait_loop (\<lambda>y. y) (q # polls) r db =
      (if a = 1 then (Some None, r\<lparr>rr_allowedCount := wrap64 (rr_allowedCount r + 1), rr_lastAllowedAt := UnixNano (ae_now env)\<rparr>, db1)
       else wait_loop (\<lambda>y. y) polls (r\<lparr>rr_blockedCount := wrap64 (rr_blockedCount r + 1)\<rparr>) db1)"
    using Cons.prems(2,3) ok s by (auto simp: q redis_Allow_def shares_def)
  show ?case
  proof (cases "a = 1")
    case True
    then show ?thesis by (simp add: step)
  next
    case False
    then have a0: "a = 0" and y1: "y = x + (ae_server env - t) * of_int rate" "y < 1"
      using y(1,3) burst by (auto split: if_splits simp: min_def)
    have "p \<in> set polls" using Cons.prems(6,7) y1 by (auto simp: q algebra_simps)
    moreover have "1 \<le> y + of_int rate * (ae_server (fst p) - ae_server env)"
      using Cons.prems(7) y1(1) by (simp add: algebra_simps)
    ultimately have "fst (wait_loop (\<lambda>y. y) polls (r\<lparr>rr_blockedCount := wrap64 (rr_blockedCount r + 1)\<rparr>) db1) = Some None"
      using Cons.IH [of db1 y "ae_server env"] y(2) a0 Cons.prems(2,3) rest srt by simp
    with False show ?thesis by (simp add: step)
  qed
qed simp

lemma wait_first:
  assumes "tokens_ok key db" "shares key burst rate r" "\<not> rr_closed r" "list_all healthy_poll polls" "0 < rate" "rate \<le> burst"
    and "sorted (map (\<lambda>p. ae_server (fst p)) polls)"
    and "p \<in> set polls" "1 \<le> of_int rate * (ae_server (fst p) - ae_server (fst (hd polls)))"
  shows "fst (wait_loop (\<lambda>y. y) polls r db) = Some None"
proof (cases polls)
  case (Cons q rest)
  obtain env dn where q: "q = (env, dn)" by (rule prod.exhaust)
  have ok: "ae_ctxErr env = None" "ae_evalErr env = None" "dn = None" using assms(4) by (auto simp: Cons q healthy_poll_def)
  obtain a db1 where s: "tokenBucketScript (\<lambda>y. y) key (of_int burst) (of_int rate) redisRateLimiterKeyTTL (ae_server env) db = (a, db1)"
    by (rule prod.exhaust)
  then obtain y where y: "a = (if y \<ge> 1 then 1 else 0)"
    "map_of db1 key = Some \<lparr>bk_tokens = y - of_int a, bk_updated_at = ae_server env,
       bk_expires_at = ae_server env + redisRateLimiterKeyTTL\<rparr>" "0 \<le> y"
    by (rule script_cases)
      (use assms(1,5,6) in \<open>auto simp: redis_bucket_def tokens_ok_def split: if_splits option.splits\<close>)
  have step: "wait_loop (\<lambda>y. y) polls r db =
      (if a = 1 then (Some None, r\<lparr>rr_allowedCount := wrap64 (rr_allowedCount r + 1), rr_lastAllowedAt := UnixNano (ae_now env)\<rparr>, db1)
       else wait_loop (\<lambda>y. y) rest (r\<lparr>rr_blockedCount := wrap64 (rr_blockedCount r + 1)\<rparr>) db1)"
    using assms(2,3) ok s by (auto simp: Cons q redis_Allow_def shares_def)
  show ?thesis
  proof (cases "a = 1")
    case False
    then have a0: "a = 0" using y(1) by (simp split: if_splits)
    have p: "p \<in> set rest" using assms(8,9) by (auto simp: Cons q)
    have "fst (wait_loop (\<lambda>y. y) rest (r\<lparr>rr_blockedCount := wrap64 (rr_blockedCount r + 1)\<rparr>) db1) = Some None"
    proof (rule wait_progress [where t = "ae_server env" and x = y and p = p])
      show "1 \<le> y + of_int rate * (ae_server (fst p) - ae_server env)" using assms(9) y(3) by (simp add: Cons q)
    qed (use y(2) a0 assms p in \<open>auto simp: Cons q\<close>)
    with False show ?thesis by (simp add: step)
  qed (simp add: step)
qed (use assms(8) in simp)

section \<open>Properties\<close>


definition demo_limiter :: redisRateLimiter where
  "demo_limiter = \<lparr>rr_client = 0, rr_ownsClient = False, rr_key = ''k'', rr_requestsPerSec = 1, rr_burstSize = 2, rr_closed = False,
     rr_allowedCount = 0, rr_blockedCount = 0, rr_waitCount = 0, rr_lastAllowedAt = 0\<rparr>"

definition demo_env :: "rat \<Rightarrow> allow_env" where
  "demo_env t = \<lparr>ae_ctxErr = None, ae_evalErr = None, ae_server = t, ae_now = 0\<rparr>"




text \<open>
  What the two side conditions of the bound are about.  The script stores the time as \<^verbatim>\<open>tostring(now)\<close>; 14 digits of a
  time in seconds leave a tenth of a millisecond.  Calls that follow each other more closely read a time that was cut back,
  and each of them is credited with the same interval again: at 100000 requests per second, any number of calls
  ten microseconds after the bucket was emptied is allowed, where one token was refilled.
\<close>

definition print14 :: "rat \<Rightarrow> rat" where
  "print14 x = (let k = length (filter (\<lambda>i. 10 ^ i \<le> x) [0, 1, 2, 3, 4, 5, 6, 7, 8, 9, 10, 11, 12, 13]) in of_int (round (x * 10 ^ (14 - k))) / 10 ^ (14 - k))"

definition fast_limiter :: redisRateLimiter where
  "fast_limiter = demo_limiter\<lparr>rr_requestsPerSec := 100000, rr_burstSize := 100000\<rparr>"

lemma print14_facts: "print14 0 = 0" "print14 (1700000000 + 1 / 100000) = 1700000000"
  by (simp_all add: print14_def round_def floor_eq_iff)

theorem printed_time_repeats_refill:
  "fst (fleet_run print14 (replicate n (fast_limiter, demo_env (1700000000 + 1 / 100000)))
     [(''k'', \<lparr>bk_tokens = 0, bk_updated_at = 1700000000, bk_expires_at = 1700000600 + x\<rparr>)]) = int n"
  if "0 \<le> x" for x
  using that
proof (induction n arbitrary: x)
  case (Suc n)
  have "redis_Allow print14 (demo_env (1700000000 + 1 / 100000)) fast_limiter
      [(''k'', \<lparr>bk_tokens = 0, bk_updated_at = 1700000000, bk_expires_at = 1700000600 + x\<rparr>)] =
    (Inr True, fast_limiter\<lparr>rr_allowedCount := 1, rr_lastAllowedAt := UnixNano 0\<rparr>,
     [(''k'', \<lparr>bk_tokens = 0, bk_updated_at = 1700000000, bk_expires_at = 1700000600 + 1 / 100000\<rparr>)])"
    using Suc.prems print14_facts
    by (simp add: redis_Allow_def fast_limiter_def demo_limiter_def demo_env_def tokenBucketScript_def redis_bucket_def
        redisRateLimiterKeyTTL_def Let_def wrap64_def)
  with Suc.IH [of "1 / 100000"] show ?case by (simp add: split_beta)
qed simp

text \<open>
  A key that expires stands for a full bucket.  With a burst above what ten minutes refill, an emptied bucket is full
  again too early: here 1000 tokens after 600 seconds at one token per second.
\<close>

theorem idle_key_refills_early:
  "tokenBucketScript num ''k'' 1000 1 redisRateLimiterKeyTTL 600
     [(''k'', \<lparr>bk_tokens = 0, bk_updated_at = 0, bk_expires_at = 600\<rparr>)] =
   (1, [(''k'', \<lparr>bk_tokens = num 999, bk_updated_at = num 600, bk_expires_at = 1200\<rparr>)])"
  by (simp add: tokenBucketScript_def redis_bucket_def redisRateLimiterKeyTTL_def Let_def)

end
