(* ===== verification/Grnoti_Pacing.thy ===== *)
theory Grnoti_Pacing
  imports Grnoti_Dispatcher Grnoti_RateLimiter
begin

text \<open>
  The FCM dispatcher behind the limiter on Redis: \<^verbatim>\<open>Wait\<close> of \<^verbatim>\<open>ratelimiter.redis.go\<close> in the place of the dispatcher's
  \<^verbatim>\<open>RateLimiter\<close>, while other processes take tokens from the same bucket.
\<close>

section \<open>The paced world\<close>

text \<open>
  What a call of \<^verbatim>\<open>Wait\<close> meets: the calls that other processes made on the bucket before it, its polls, and the poll at which
  its context is done, if it comes that far.
\<close>

type_synonym wait_script =
  "(redisRateLimiter \<times> allow_env) list \<times> (allow_env \<times> error option) list \<times> allow_env \<times> error"

text \<open>The world of the dispatcher with the limiter, the server, the waits to come and the number of calls to FCM.\<close>

record 'w paced =
  pw_limiter :: redisRateLimiter
  pw_db :: redis
  pw_waits :: "wait_script list"
  pw_calls :: nat
  pw_w :: 'w

text \<open>After the last wait considered the context is done.\<close>

definition paced_Wait :: "(rat \<Rightarrow> rat) \<Rightarrow> 'w paced \<Rightarrow> error option \<times> 'w paced" where
  "paced_Wait num w =
     (case pw_waits w of
        [] \<Rightarrow> (Some (Opaque ''context canceled''), w)
      | (others, polls, env, err) # waits \<Rightarrow>
          (case redis_Wait num (polls @ [(env, Some err)]) (pw_limiter w) (snd (fleet_run num others (pw_db w))) of
             (res, r, db) \<Rightarrow> (the res, w\<lparr>pw_limiter := r, pw_db := db, pw_waits := waits\<rparr>)))"

definition in_world :: "('w \<Rightarrow> 'r \<times> 'w) \<Rightarrow> 'w paced \<Rightarrow> 'r \<times> 'w paced" where
  "in_world f w = (case f (pw_w w) of (r, v) \<Rightarrow> (r, w\<lparr>pw_w := v\<rparr>))"

definition counted :: "('w \<Rightarrow> 'r \<times> 'w) \<Rightarrow> 'w paced \<Rightarrow> 'r \<times> 'w paced" where
  "counted f w = in_world f (w\<lparr>pw_calls := Suc (pw_calls w)\<rparr>)"

definition paced_env :: "(rat \<Rightarrow> rat) \<Rightarrow> 'w FCMEnv \<Rightarrow> 'w paced FCMEnv" where
  "paced_env num env =
     \<lparr>fe_multicast = (\<lambda>m. counted (fe_multicast env m)), fe_send = (\<lambda>m. counted (fe_send env m)),
      fe_wait = Some (paced_Wait num), fe_clock = in_world (fe_clock env), fe_ctx_err = (\<lambda>w. fe_ctx_err env (pw_w w)),
      fe_sleep = (\<lambda>t. in_world (fe_sleep env t)),
      fe_inc_invalid = map_option (\<lambda>inc n w. w\<lparr>pw_w := inc n (pw_w w)\<rparr>) (fe_inc_invalid env),
      fe_int63n = fe_int63n env, fe_is_code = fe_is_code env\<rparr>"

definition paced_dispatcher :: "(rat \<Rightarrow> rat) \<Rightarrow> 'w fcmDispatcher \<Rightarrow> 'w paced fcmDispatcher" where
  "paced_dispatcher num d =
     \<lparr>fd_env = paced_env num (fd_env d), fd_retryStrategy = fd_retryStrategy d, fd_config = fd_config d\<rparr>"

text \<open>The calls of a client of the dispatcher, one after the other.\<close>

datatype fcm_call = CallSend "Device list" Message | CallDevice Device Message | CallTopic string Message

fun run_call :: "'w fcmDispatcher \<Rightarrow> ((Platform \<times> Device list) list \<Rightarrow> (Platform \<times> Device list) list) \<Rightarrow> fcm_call \<Rightarrow>
    'w dstate \<Rightarrow> 'w dstate" where
  "run_call d order (CallSend devices msg) st = snd (fcm_Send d order devices msg st)"
| "run_call d order (CallDevice device msg) st = snd (SendToDevice d device msg st)"
| "run_call d order (CallTopic topic msg) st = snd (SendToTopic d topic msg st)"

definition fcm_calls :: "'w fcmDispatcher \<Rightarrow> ((Platform \<times> Device list) list \<Rightarrow> (Platform \<times> Device list) list) \<Rightarrow>
    fcm_call list \<Rightarrow> 'w dstate \<Rightarrow> 'w dstate" where
  "fcm_calls d order cs st = fold (run_call d order) cs st"

section \<open>A wait as calls on the bucket\<close>

lemma fleet_run_append:
  "fleet_run num (xs @ ys) db =
     (case fleet_run num xs db of (a, db1) \<Rightarrow> case fleet_run num ys db1 of (b, db2) \<Rightarrow> (a + b, db2))"
  by (induction xs arbitrary: db) (auto split: prod.split)

lemma fleet_run_nonneg: "0 \<le> fst (fleet_run num calls db)"
proof (induction calls arbitrary: db)
  case (Cons c calls)
  then show ?case by (cases c) (auto simp: split_beta intro: add_nonneg_nonneg)
qed simp

lemma redis_Allow_shares: "redis_Allow num env r db = (res, r1, db1) \<Longrightarrow> shares key burst rate r1 = shares key burst rate r"
  by (auto simp: redis_Allow_def split: if_splits option.splits prod.splits)

text \<open>The polls that a wait makes are calls on the bucket, and one of them is allowed exactly if the wait succeeds.\<close>

lemma wait_loop_calls:
  assumes "wait_loop num polls r db = (res, r', db')" "shares key burst rate r"
  shows "\<exists>n calls. map (\<lambda>c. ae_server (snd c)) calls = map (\<lambda>p. ae_server (fst p)) (take n polls) \<and>
    list_all (\<lambda>(r, env). shares key burst rate r) calls \<and> shares key burst rate r' \<and>
    fleet_run num calls db = (if res = Some None then 1 else 0, db')"
  using assms
proof (induction polls arbitrary: r db)
  case Nil
  then show ?case by (intro exI [of _ 0] exI [of _ "[]"]) simp
next
  case (Cons p polls)
  obtain env dn where p: "p = (env, dn)" by (rule prod.exhaust)
  obtain y r1 db1 where a: "redis_Allow num env r db = (y, r1, db1)" by (rule prod_cases3)
  have s1: "shares key burst rate r1" using redis_Allow_shares [OF a] Cons.prems(2) by simp
  show ?case
  proof (cases "y = Inr False \<and> dn = None")
    case True
    with Cons.prems(1) a have "wait_loop num polls r1 db1 = (res, r', db')" by (simp add: p)
    from Cons.IH [OF this s1] obtain n calls where
      "map (\<lambda>c. ae_server (snd c)) calls = map (\<lambda>p. ae_server (fst p)) (take n polls)"
      "list_all (\<lambda>(r, env). shares key burst rate r) calls" "shares key burst rate r'"
      "fleet_run num calls db1 = (if res = Some None then 1 else 0, db')" by blast
    then show ?thesis using True a Cons.prems(2)
      by (intro exI [of _ "Suc n"] exI [of _ "(r, env) # calls"]) (simp add: p)
  next
    case False
    with Cons.prems(1) a have "res = (case y of Inl err \<Rightarrow> Some (Some err) | Inr True \<Rightarrow> Some None | Inr False \<Rightarrow> Some dn)"
      "r' = r1" "db' = db1" by (auto simp: p split: sum.splits bool.splits option.splits)
    then show ?thesis using False a s1 Cons.prems(2)
      by (intro exI [of _ "Suc 0"] exI [of _ "[(r, env)]"]) (auto simp: p split: sum.splits bool.splits)
  qed
qed

lemma wait_loop_ends: "\<exists>e. fst (wait_loop num (polls @ [(env, Some err)]) r db) = Some e"
  by (induction polls arbitrary: r db) (auto split: prod.split sum.split bool.split option.split)

lemma redis_Wait_calls:
  assumes "redis_Wait num (polls @ [(env, Some err)]) r db = (res, r', db')" "shares key burst rate r"
  shows "\<exists>n calls. map (\<lambda>c. ae_server (snd c)) calls = map (\<lambda>p. ae_server (fst p)) (take n (polls @ [(env, Some err)])) \<and>
    list_all (\<lambda>(r, env). shares key burst rate r) calls \<and> shares key burst rate r' \<and>
    fleet_run num calls db = (if the res = None then 1 else 0, db')"
proof (cases "rr_closed r")
  case True
  with assms show ?thesis by (intro exI [of _ 0] exI [of _ "[]"]) (auto simp: redis_Wait_def)
next
  case False
  with assms(1) have w: "wait_loop num (polls @ [(env, Some err)]) (r\<lparr>rr_waitCount := wrap64 (rr_waitCount r + 1)\<rparr>) db = (res, r', db')"
    by (simp add: redis_Wait_def)
  then obtain e where "res = Some e"
    using wait_loop_ends [of num polls env err "r\<lparr>rr_waitCount := wrap64 (rr_waitCount r + 1)\<rparr>" db] by auto
  moreover have "shares key burst rate (r\<lparr>rr_waitCount := wrap64 (rr_waitCount r + 1)\<rparr>)" using assms(2) by simp
  ultimately show ?thesis using wait_loop_calls [OF w] by simp
qed

section \<open>The budget\<close>

text \<open>The server times of the waits to come, and whether the other processes use the bucket with the same limits.\<close>

definition script_times :: "wait_script list \<Rightarrow> rat list" where
  "script_times ws = concat (map (\<lambda>(others, polls, env, err).
     map (\<lambda>c. ae_server (snd c)) others @ map (\<lambda>p. ae_server (fst p)) (polls @ [(env, Some err)])) ws)"

definition script_shares :: "string \<Rightarrow> int \<Rightarrow> int \<Rightarrow> wait_script list \<Rightarrow> bool" where
  "script_shares key burst rate ws \<longleftrightarrow> list_all (\<lambda>(others, _). list_all (\<lambda>(r, env). shares key burst rate r) others) ws"

lemma script_simps [simp]:
  "script_times [] = []"
  "script_times ((others, polls, env, err) # ws) =
     map (\<lambda>c. ae_server (snd c)) others @ map (\<lambda>p. ae_server (fst p)) (polls @ [(env, Some err)]) @ script_times ws"
  "script_shares key burst rate []"
  "script_shares key burst rate ((others, polls, env, err) # ws) \<longleftrightarrow>
     list_all (\<lambda>(r, env). shares key burst rate r) others \<and> script_shares key burst rate ws"
  by (simp_all add: script_times_def script_shares_def)

text \<open>
  \<open>budget \<dots> k w\<close>: the calls on the bucket so far, from \<open>db0\<close> on, were allowed at least \<open>k\<close> more times than FCM was called.
\<close>

definition budget :: "(rat \<Rightarrow> rat) \<Rightarrow> string \<Rightarrow> int \<Rightarrow> int \<Rightarrow> rat \<Rightarrow> rat \<Rightarrow> nat \<Rightarrow> redis \<Rightarrow> int \<Rightarrow> 'w paced \<Rightarrow> bool" where
  "budget num key burst rate t T limit db0 k w \<longleftrightarrow>
     shares key burst rate (pw_limiter w) \<and> script_shares key burst rate (pw_waits w) \<and>
     (\<exists>calls. list_all (\<lambda>(r, env). shares key burst rate r) calls \<and> snd (fleet_run num calls db0) = pw_db w \<and>
        int (pw_calls w) + k \<le> fst (fleet_run num calls db0) \<and> length calls + length (script_times (pw_waits w)) \<le> limit \<and>
        sorted (t # map (\<lambda>c. ae_server (snd c)) calls @ script_times (pw_waits w) @ [T]))"

lemma sorted_take_middle: "sorted (a # xs @ ys @ zs @ vs) \<Longrightarrow> sorted (a # xs @ ys @ take n zs @ vs)"
  by (auto simp: sorted_append dest: in_set_takeD)

lemma budget_wait:
  assumes "budget num key burst rate t T limit db0 0 w" "paced_Wait num w = (e, w')"
  shows "budget num key burst rate t T limit db0 (if e = None then 1 else 0) w'"
proof (cases "pw_waits w")
  case Nil
  with assms show ?thesis by (auto simp: paced_Wait_def)
next
  case (Cons x ws)
  obtain others polls env err where x: "x = (others, polls, env, err)" by (cases x)
  let ?polls = "polls @ [(env, Some err)]" and ?sh = "list_all (\<lambda>(r, env). shares key burst rate r)"
  obtain a db1 where o: "fleet_run num others (pw_db w) = (a, db1)" by (rule prod.exhaust)
  obtain res r db2 where wt: "redis_Wait num ?polls (pw_limiter w) db1 = (res, r, db2)" by (rule prod_cases3)
  have w': "e = the res" "w' = w\<lparr>pw_limiter := r, pw_db := db2, pw_waits := ws\<rparr>"
    using assms(2) by (simp_all add: paced_Wait_def Cons x o wt)
  from assms(1) obtain calls where c: "?sh calls" "snd (fleet_run num calls db0) = pw_db w"
    "int (pw_calls w) \<le> fst (fleet_run num calls db0)" "length calls + length (script_times (pw_waits w)) \<le> limit"
    "sorted (t # map (\<lambda>c. ae_server (snd c)) calls @ script_times (pw_waits w) @ [T])"
    and sh: "shares key burst rate (pw_limiter w)" "?sh others" "script_shares key burst rate ws"
    by (auto simp: budget_def Cons x)
  from redis_Wait_calls [OF wt sh(1)] obtain n cs where cs:
    "map (\<lambda>c. ae_server (snd c)) cs = map (\<lambda>p. ae_server (fst p)) (take n ?polls)" "?sh cs" "shares key burst rate r"
    "fleet_run num cs db1 = (if e = None then 1 else 0, db2)" unfolding w'(1) by blast
  let ?all = "calls @ others @ cs"
  obtain m where m: "fleet_run num calls db0 = (m, pw_db w)" using c(2) by (metis prod.collapse)
  have run: "fleet_run num ?all db0 = (m + (a + (if e = None then 1 else 0)), db2)"
    by (simp add: fleet_run_append m o cs(4))
  have "0 \<le> a" using fleet_run_nonneg [of num others "pw_db w"] by (simp add: o)
  have len: "length cs \<le> Suc (length polls)"
    using arg_cong [OF cs(1), of length] by simp
  have "sorted (t # map (\<lambda>c. ae_server (snd c)) ?all @ script_times ws @ [T])"
    unfolding map_append append_assoc cs(1) take_map [symmetric]
    by (rule sorted_take_middle) (use c(5) in \<open>simp only: Cons x script_simps map_append append_assoc\<close>)
  then show ?thesis unfolding budget_def w'(2)
    using c(1,3,4) sh cs(2,3) run m \<open>0 \<le> a\<close> len by (intro conjI exI [of _ ?all]) (simp_all add: Cons x)
qed

lemma budget_simps [simp]:
  "budget num key burst rate t T limit db0 k (w\<lparr>pw_w := v\<rparr>) = budget num key burst rate t T limit db0 k w"
  by (simp add: budget_def)

lemma budget_in_world [simp]:
  "budget num key burst rate t T limit db0 k (snd (in_world f w)) = budget num key burst rate t T limit db0 k w"
  by (simp add: in_world_def split: prod.split)

lemma budget_weaken: "budget num key burst rate t T limit db0 1 w \<Longrightarrow> budget num key burst rate t T limit db0 0 w"
  unfolding budget_def by (elim conjE exE) (intro conjI exI, assumption+, linarith, assumption+)

lemma budget_counted:
  "budget num key burst rate t T limit db0 1 w \<Longrightarrow> budget num key burst rate t T limit db0 0 (snd (counted f w))"
  by (simp add: counted_def) (simp add: budget_def add.commute)

lemma budget_frame:
  "frame (paced_env num env) P (budget num key burst rate t T limit db0 0) (budget num key burst rate t T limit db0 1)"
proof -
  have "if fst (paced_Wait num w) = None then budget num key burst rate t T limit db0 1 (snd (paced_Wait num w))
        else budget num key burst rate t T limit db0 0 (snd (paced_Wait num w))"
    if "budget num key burst rate t T limit db0 0 w" for w :: "'a paced"
    using budget_wait [OF that, of "fst (paced_Wait num w)" "snd (paced_Wait num w)"] by (auto split: if_splits)
  then show ?thesis by (auto simp: frame_def paced_env_def budget_counted budget_weaken)
qed

lemma budget_calls:
  assumes "\<forall>gs. mset (order gs) = mset gs" "budget num key burst rate t T limit db0 0 (ds_w st)"
  shows "budget num key burst rate t T limit db0 0 (ds_w (fcm_calls (paced_dispatcher num d) order cs st))"
  using assms(2)
proof (induction cs arbitrary: st)
  case (Cons c cs)
  have env: "fd_env (paced_dispatcher num d) = paced_env num (fd_env d)" by (simp add: paced_dispatcher_def)
  note fr = budget_frame [of num "fd_env d", folded env]
  have "budget num key burst rate t T limit db0 0 (ds_w (run_call (paced_dispatcher num d) order c st))"
    by (cases c) (simp_all add: frame_fcm_Send [OF fr assms(1) Cons.prems] frame_SendToDevice [OF fr Cons.prems]
        frame_SendToTopic [OF fr Cons.prems])
  from Cons.IH [OF this] show ?case by (simp add: fcm_calls_def)
qed (simp add: fcm_calls_def)

section \<open>Properties\<close>


text \<open>Three calls to FCM are due (the batch is retried twice), but the bucket holds two tokens and the third wait is cut off.\<close>

definition demo_paced :: "string list list paced" where
  "demo_paced = \<lparr>pw_limiter = demo_limiter, pw_db = [],
     pw_waits = replicate 3 ([], [], demo_env 0, Opaque ''deadline''), pw_calls = 0, pw_w = []\<rparr>"


end
