(* ===== verification/Grnoti_Cache.thy ===== *)
theory Grnoti_Cache
  imports Grnoti_Preferences Grnoti_Experiment Grnoti_Backend
begin

text \<open>
  The three adapters over a \<^verbatim>\<open>grcache.Cache\<close>: the idempotency store (\<^verbatim>\<open>cache.idempotency.go\<close>), the
  read-through cache of preferences (\<^verbatim>\<open>cache.preferences.go\<close>) and the experiment engine with a shared
  assignment cache (\<^verbatim>\<open>cache.experiment.go\<close>).  The cache is third-party code and a record of operations on
  a state; the JSON codec and the RFC 3339 form of a time are parameters as well.  What the properties
  rely on of them is named below.
\<close>

section \<open>The cache\<close>

record 'c Cache =
  gc_Get :: "string \<Rightarrow> 'c \<Rightarrow> (error + string) \<times> 'c"
  gc_Set :: "string \<Rightarrow> string \<Rightarrow> Duration \<Rightarrow> string list \<Rightarrow> 'c \<Rightarrow> error option \<times> 'c"
  gc_Exists :: "string \<Rightarrow> 'c \<Rightarrow> (error + bool) \<times> 'c"
  gc_InvalidateTag :: "string \<Rightarrow> 'c \<Rightarrow> (error + int) \<times> 'c"

text \<open>\<open>content c k\<close> is the live entry of a key with its tags.\<close>

type_synonym 'c content = "'c \<Rightarrow> string \<Rightarrow> (string \<times> string set) option"

text \<open>Entries may vanish at any time (expiry, eviction), but no entry changes by itself.\<close>

definition shrinks :: "'c content \<Rightarrow> 'c \<Rightarrow> 'c \<Rightarrow> bool" where
  "shrinks content c c' \<longleftrightarrow> (\<forall>k. content c' k = None \<or> content c' k = content c k)"

text \<open>
  The documented behaviour of a cache: a read returns a live value, a write affects its own key only,
  and a successful invalidation removes every entry with the tag.
\<close>

definition cache_ok :: "'c Cache \<Rightarrow> 'c content \<Rightarrow> bool" where
  "cache_ok C content \<longleftrightarrow>
     (\<forall>k c r c'. gc_Get C k c = (r, c') \<longrightarrow>
        shrinks content c c' \<and> (\<forall>raw. r = Inr raw \<longrightarrow> (\<exists>T. content c k = Some (raw, T)))) \<and>
     (\<forall>k v ttl tags c r c'. gc_Set C k v ttl tags c = (r, c') \<longrightarrow>
        (\<forall>k'. content c' k' = None \<or> content c' k' = content c k' \<or> k' = k \<and> content c' k' = Some (v, set tags))) \<and>
     (\<forall>t c r c'. gc_InvalidateTag C t c = (r, c') \<longrightarrow>
        shrinks content c c' \<and>
        (\<forall>n. r = Inr n \<longrightarrow> (\<forall>k v T. content c k = Some (v, T) \<and> t \<in> T \<longrightarrow> content c' k = None)))"

text \<open>Invalidations of a tag reach the cache, which \<^verbatim>\<open>SavePreferences\<close> does not insist on.\<close>

definition invalidations_succeed :: "'c Cache \<Rightarrow> bool" where
  "invalidations_succeed C \<longleftrightarrow> (\<forall>t c. \<exists>n. fst (gc_InvalidateTag C t c) = Inr n)"

section \<open>Idempotency\<close>

record cacheIdempotencyStore =
  ci_keyPrefix :: string

definition NewCacheIdempotencyStore :: cacheIdempotencyStore where
  "NewCacheIdempotencyStore = \<lparr>ci_keyPrefix = ''grnoti:idempotency:''\<rparr>"

definition cache_IsProcessed ::
  "'w Cache \<Rightarrow> cacheIdempotencyStore \<Rightarrow> string \<Rightarrow> 'w \<Rightarrow> (error + bool) \<times> 'w" where
  "cache_IsProcessed C s eventID w =
     (case gc_Exists C (ci_keyPrefix s @ eventID) w of
        (Inl err, w') \<Rightarrow>
          (Inl (Wrap (''grnoti: idempotency check for '' @ eventID @ '': '')
                  (Join err (Sentinel ErrBackendUnavailable)) []), w')
      | (Inr found, w') \<Rightarrow> (Inr found, w'))"

definition cache_MarkProcessed ::
  "'w Cache \<Rightarrow> ('w \<Rightarrow> Time \<times> 'w) \<Rightarrow> (Time \<Rightarrow> string) \<Rightarrow> cacheIdempotencyStore \<Rightarrow>
     string \<Rightarrow> Duration \<Rightarrow> 'w \<Rightarrow> error option \<times> 'w" where
  "cache_MarkProcessed C clock rfc3339 s eventID ttl w =
     (let ttl' = (if ttl < 0 then 0 else ttl); (now, w1) = clock w; marker = rfc3339 now
      in case gc_Set C (ci_keyPrefix s @ eventID) marker ttl' [] w1 of
           (Some err, w2) \<Rightarrow>
             (Some (Wrap (''grnoti: mark processed for '' @ eventID @ '': '')
                      (Join err (Sentinel ErrBackendUnavailable)) []), w2)
         | (None, w2) \<Rightarrow> (None, w2))"

definition cache_IdempotencyStore ::
  "'w Cache \<Rightarrow> ('w \<Rightarrow> Time \<times> 'w) \<Rightarrow> (Time \<Rightarrow> string) \<Rightarrow> 'w IdempotencyStore" where
  "cache_IdempotencyStore C clock rfc3339 =
     \<lparr>is_IsProcessed = cache_IsProcessed C NewCacheIdempotencyStore,
      is_MarkProcessed = cache_MarkProcessed C clock rfc3339 NewCacheIdempotencyStore\<rparr>"

section \<open>Preferences behind a read-through cache\<close>

definition preferencesCacheKey :: "string \<Rightarrow> string" where
  "preferencesCacheKey userID = ''grnoti:preferences:'' @ userID"

definition preferencesCacheTag :: "string \<Rightarrow> string" where
  "preferencesCacheTag userID = ''grnoti:preferences:user:'' @ userID"

record ('w, 'c) cachedPreferencesStore =
  cp_store :: "'w PreferencesStore"
  cp_cache :: "'c Cache"
  cp_ttl :: Duration
  cp_json :: "NotificationPreferences codec"

definition NewCachedPreferencesStore ::
  "'w PreferencesStore \<Rightarrow> 'c Cache \<Rightarrow> Duration \<Rightarrow> NotificationPreferences codec \<Rightarrow> ('w, 'c) cachedPreferencesStore" where
  "NewCachedPreferencesStore store cache ttl json = \<lparr>cp_store = store, cp_cache = cache, cp_ttl = ttl, cp_json = json\<rparr>"

definition cached_GetPreferences ::
  "('w, 'c) cachedPreferencesStore \<Rightarrow> string \<Rightarrow> 'w \<times> 'c \<Rightarrow> (error + NotificationPreferences) \<times> 'w \<times> 'c" where
  "cached_GetPreferences s userID = (\<lambda>(w, c).
     (let key = preferencesCacheKey userID;
          (read, c1) = gc_Get (cp_cache s) key c;
          hit = (case read of Inr raw \<Rightarrow> Unmarshal (cp_json s) raw | Inl err \<Rightarrow> None)
      in case hit of
           Some prefs \<Rightarrow> (Inr prefs, w, c1)
         | None \<Rightarrow>
             (case ps_GetPreferences (cp_store s) userID w of
                (Inl err, w1) \<Rightarrow> (Inl err, w1, c1)
              | (Inr prefs, w1) \<Rightarrow>
                  (let c2 = (case Marshal (cp_json s) prefs of
                               Some raw \<Rightarrow> snd (gc_Set (cp_cache s) key raw (cp_ttl s) [preferencesCacheTag userID] c1)
                             | None \<Rightarrow> c1)
                   in (Inr prefs, w1, c2)))))"

definition cached_SavePreferences ::
  "('w, 'c) cachedPreferencesStore \<Rightarrow> NotificationPreferences \<Rightarrow> 'w \<times> 'c \<Rightarrow> error option \<times> 'w \<times> 'c" where
  "cached_SavePreferences s prefs = (\<lambda>(w, c).
     (case ps_SavePreferences (cp_store s) prefs w of
        (Some err, w1) \<Rightarrow> (Some err, w1, c)
      | (None, w1) \<Rightarrow> (None, w1, snd (gc_InvalidateTag (cp_cache s) (preferencesCacheTag (np_UserID prefs)) c))))"

definition cached_IsEventTypeEnabled ::
  "('w, 'c) cachedPreferencesStore \<Rightarrow> string \<Rightarrow> EventType \<Rightarrow> 'w \<times> 'c \<Rightarrow> (error + bool) \<times> 'w \<times> 'c" where
  "cached_IsEventTypeEnabled s userID eventType w =
     (case cached_GetPreferences s userID w of
        (Inl err, w1) \<Rightarrow>
          (if errors_is err ErrPreferencesNotFound then (Inr True, w1)
           else (Inl (Wrap (''grnoti: is event type enabled for '' @ userID @ '': '') err []), w1))
      | (Inr prefs, w1) \<Rightarrow> (Inr (prefs_IsEventTypeEnabled prefs eventType), w1))"

definition cached_PreferencesStore :: "('w, 'c) cachedPreferencesStore \<Rightarrow> ('w \<times> 'c) PreferencesStore" where
  "cached_PreferencesStore s =
     \<lparr>ps_GetPreferences = cached_GetPreferences s, ps_SavePreferences = cached_SavePreferences s,
      ps_IsEventTypeEnabled = cached_IsEventTypeEnabled s\<rparr>"

section \<open>Experiments with a shared assignment cache\<close>

record 'w cacheExperimentEngine =
  cx_cache :: "'w Cache"
  cx_analytics :: "'w AnalyticsPublisher option"
  cx_bus :: "(bus_event \<Rightarrow> 'w \<Rightarrow> error option \<times> 'w) option"
  cx_json :: "ExperimentVariant codec"

definition NewCacheBackedExperimentEngine ::
  "'w Cache \<Rightarrow> 'w AnalyticsPublisher option \<Rightarrow> (bus_event \<Rightarrow> 'w \<Rightarrow> error option \<times> 'w) option \<Rightarrow> ExperimentVariant codec \<Rightarrow>
     'w cacheExperimentEngine" where
  "NewCacheBackedExperimentEngine cache analytics bus json =
     \<lparr>cx_cache = cache, cx_analytics = analytics, cx_bus = bus, cx_json = json\<rparr>"

definition cx_GetVariant ::
  "'w cacheExperimentEngine \<Rightarrow> string \<Rightarrow> string \<Rightarrow> 'w \<Rightarrow> (error + ExperimentVariant option) \<times> 'w" where
  "cx_GetVariant e userID experimentID w =
     (case gc_Get (cx_cache e) (assignmentKey userID experimentID) w of
        (Inl err, w1) \<Rightarrow> (if errors_is err ErrKeyNotFound then (Inr None, w1) else (Inl err, w1))
      | (Inr raw, w1) \<Rightarrow> (Inr (Unmarshal (cx_json e) raw), w1))"

definition cx_AssignVariant ::
  "(string \<Rightarrow> string) \<Rightarrow> ('w \<Rightarrow> Time \<times> 'w) \<Rightarrow> 'w cacheExperimentEngine \<Rightarrow> string \<Rightarrow> Experiment option \<Rightarrow> 'w \<Rightarrow>
     (error + ExperimentVariant) go \<times> 'w" where
  "cx_AssignVariant md5_Sum clock e userID experiment w =
     (case experiment of
        None \<Rightarrow> (Ret (Inl (Sentinel ErrExperimentHasNoVariants)), w)
      | Some x \<Rightarrow>
          if length (ex_Variants x) = 0 then (Ret (Inl (Sentinel ErrExperimentHasNoVariants)), w)
          else (case cx_GetVariant e userID (ex_ID x) w of (existing, w1) \<Rightarrow>
            (case existing of
               Inr (Some v) \<Rightarrow> (Ret (Inr v), w1)
             | _ \<Rightarrow>
                 (case deterministicPick md5_Sum userID x of
                    Panic p \<Rightarrow> (Panic p, w1)
                  | Ret variant \<Rightarrow>
                      (let w2 = (case Marshal (cx_json e) variant of
                                   Some raw \<Rightarrow> snd (gc_Set (cx_cache e) (assignmentKey userID (ex_ID x)) raw 0 [] w1)
                                 | None \<Rightarrow> w1);
                           w3 = PublishAssigned clock (cx_bus e) (assigned_payload userID x variant) w2
                       in (Ret (Inr variant), w3))))))"

definition cx_TrackImpression ::
  "'w cacheExperimentEngine \<Rightarrow> string \<Rightarrow> string \<Rightarrow> string \<Rightarrow> 'w \<Rightarrow> error option \<times> 'w" where
  "cx_TrackImpression e userID experimentID variantID w =
     (case cx_analytics e of
        None \<Rightarrow> (None, w)
      | Some a \<Rightarrow> ap_PublishImpression a userID experimentID variantID w)"

definition cx_TrackConversion :: "'w cacheExperimentEngine \<Rightarrow> string \<Rightarrow> string \<Rightarrow> 'w \<Rightarrow> error option \<times> 'w" where
  "cx_TrackConversion e userID experimentID w =
     (case cx_analytics e of
        None \<Rightarrow> (None, w)
      | Some a \<Rightarrow> ap_PublishConversion a userID experimentID w)"

section \<open>Coherence of the cached preferences\<close>

text \<open>
  Every cached entry of a user carries that user's tag and decodes, if at all, to what the durable
  store holds for the user.
\<close>

definition coherent ::
  "'c content \<Rightarrow> NotificationPreferences codec \<Rightarrow> (string \<Rightarrow> NotificationPreferences option) \<Rightarrow> 'c \<Rightarrow> bool" where
  "coherent content J m c \<longleftrightarrow>
     (\<forall>u raw T. content c (preferencesCacheKey u) = Some (raw, T) \<longrightarrow>
        preferencesCacheTag u \<in> T \<and> (\<forall>p. Unmarshal J raw = Some p \<longrightarrow> m u = Some p))"

lemma preferencesCacheKey_inj [simp]: "preferencesCacheKey u = preferencesCacheKey v \<longleftrightarrow> u = v"
  by (simp add: preferencesCacheKey_def)

lemma preferencesCacheTag_inj [simp]: "preferencesCacheTag u = preferencesCacheTag v \<longleftrightarrow> u = v"
  by (simp add: preferencesCacheTag_def)

lemma coherentD:
  assumes "coherent content J m c" "content c (preferencesCacheKey u) = Some (raw, T)"
  shows "preferencesCacheTag u \<in> T \<and> (\<forall>p. Unmarshal J raw = Some p \<longrightarrow> m u = Some p)"
  using assms unfolding coherent_def by blast

lemma shrinks_old: "shrinks content c c' \<Longrightarrow> content c' k = Some e \<Longrightarrow> content c k = Some e"
  unfolding shrinks_def by (metis option.distinct(1))

lemma coherent_shrinks:
  assumes coh: "coherent content J m c" and sh: "shrinks content c c'"
  shows "coherent content J m c'"
  unfolding coherent_def
proof (intro allI impI)
  fix u raw T
  assume "content c' (preferencesCacheKey u) = Some (raw, T)"
  then have "content c (preferencesCacheKey u) = Some (raw, T)" by (rule shrinks_old [OF sh])
  then show "preferencesCacheTag u \<in> T \<and> (\<forall>p. Unmarshal J raw = Some p \<longrightarrow> m u = Some p)"
    by (rule coherentD [OF coh])
qed

lemma cache_Get_ok:
  assumes "cache_ok C content" "gc_Get C k c = (r, c')"
  shows "shrinks content c c'" "r = Inr raw \<Longrightarrow> \<exists>T. content c k = Some (raw, T)"
  using assms(1) [unfolded cache_ok_def, THEN conjunct1, rule_format, OF assms(2)] by blast+

lemma cache_Set_ok:
  assumes "cache_ok C content" "gc_Set C k v ttl tags c = (r, c')"
  shows "content c' k' = None \<or> content c' k' = content c k' \<or> k' = k \<and> content c' k' = Some (v, set tags)"
  by (rule assms(1) [unfolded cache_ok_def, THEN conjunct2, THEN conjunct1, rule_format, OF assms(2)])

lemma cache_Invalidate_ok:
  assumes "cache_ok C content" "gc_InvalidateTag C t c = (r, c')"
  shows "shrinks content c c'" "r = Inr n \<Longrightarrow> content c k = Some (v, T) \<Longrightarrow> t \<in> T \<Longrightarrow> content c' k = None"
  using assms(1) [unfolded cache_ok_def, THEN conjunct2, THEN conjunct2, rule_format, OF assms(2)] by blast+

lemma coherent_Set:
  assumes C: "cache_ok C content" and J: "codec_ok J" and coh: "coherent content J m c"
    and p: "m u = Some p" "Marshal J p = Some raw"
  shows "coherent content J m (snd (gc_Set C (preferencesCacheKey u) raw ttl [preferencesCacheTag u] c))"
  unfolding coherent_def
proof (intro allI impI)
  fix v raw' T
  obtain r c' where set: "gc_Set C (preferencesCacheKey u) raw ttl [preferencesCacheTag u] c = (r, c')" by fastforce
  assume "content (snd (gc_Set C (preferencesCacheKey u) raw ttl [preferencesCacheTag u] c)) (preferencesCacheKey v)
    = Some (raw', T)"
  with set have v: "content c' (preferencesCacheKey v) = Some (raw', T)" by simp
  from cache_Set_ok [OF C set, of "preferencesCacheKey v"] v
  have "content c' (preferencesCacheKey v) = content c (preferencesCacheKey v)
      \<or> v = u \<and> content c' (preferencesCacheKey v) = Some (raw, {preferencesCacheTag u})"
    by auto
  then show "preferencesCacheTag v \<in> T \<and> (\<forall>q. Unmarshal J raw' = Some q \<longrightarrow> m v = Some q)"
  proof
    assume "content c' (preferencesCacheKey v) = content c (preferencesCacheKey v)"
    with v have "content c (preferencesCacheKey v) = Some (raw', T)" by simp
    then show ?thesis by (rule coherentD [OF coh])
  next
    assume "v = u \<and> content c' (preferencesCacheKey v) = Some (raw, {preferencesCacheTag u})"
    then show ?thesis using v p J unfolding codec_ok_def by auto
  qed
qed

lemma coherent_Invalidate:
  assumes C: "cache_ok C content" and coh: "coherent content J m c"
    and inv: "gc_InvalidateTag C (preferencesCacheTag u) c = (Inr n, c')"
    and same: "\<And>v. v \<noteq> u \<Longrightarrow> m' v = m v"
  shows "coherent content J m' c'"
  unfolding coherent_def
proof (intro allI impI)
  fix v raw T
  assume v: "content c' (preferencesCacheKey v) = Some (raw, T)"
  have old: "content c (preferencesCacheKey v) = Some (raw, T)"
    by (rule shrinks_old [OF cache_Invalidate_ok(1) [OF C inv] v])
  have "v \<noteq> u" using cache_Invalidate_ok(2) [OF C inv refl old] v coherentD [OF coh old] by auto
  then show "preferencesCacheTag v \<in> T \<and> (\<forall>p. Unmarshal J raw = Some p \<longrightarrow> m' v = Some p)"
    using coherentD [OF coh old] same by simp
qed

text \<open>What makes a cached store dependable: a lawful cache, a faithful codec, invalidations that succeed.\<close>

definition dependable :: "('w, 'c) cachedPreferencesStore \<Rightarrow> 'c content \<Rightarrow> bool" where
  "dependable s content \<longleftrightarrow>
     cache_ok (cp_cache s) content \<and> codec_ok (cp_json s) \<and> invalidations_succeed (cp_cache s)"

context preferences_store
begin

lemma cached_get:
  assumes s: "dependable s content" "cp_store s = store" and ok: "ok w"
    and coh: "coherent content (cp_json s) (prefs_at w) c"
    and get: "cached_GetPreferences s u (w, c) = (r, w', c')"
  shows "r = (case prefs_at w u of None \<Rightarrow> Inl (Sentinel ErrPreferencesNotFound) | Some p \<Rightarrow> Inr p)
    \<and> ok w' \<and> prefs_at w' = prefs_at w \<and> coherent content (cp_json s) (prefs_at w) c'"
proof -
  note C = s(1) [unfolded dependable_def]
  obtain read c1 where read: "gc_Get (cp_cache s) (preferencesCacheKey u) c = (read, c1)" by fastforce
  have coh1: "coherent content (cp_json s) (prefs_at w) c1"
    using coherent_shrinks [OF coh] cache_Get_ok(1) [OF _ read] C by blast
  define hit where "hit = (case read of Inr raw \<Rightarrow> Unmarshal (cp_json s) raw | Inl err \<Rightarrow> None)"
  show ?thesis
  proof (cases hit)
    case (Some p)
    then obtain raw where raw: "read = Inr raw" "Unmarshal (cp_json s) raw = Some p"
      by (auto simp: hit_def split: sum.splits)
    then obtain T where "content c (preferencesCacheKey u) = Some (raw, T)"
      using cache_Get_ok(2) [OF _ read] C by blast
    then have "prefs_at w u = Some p" using coh raw(2) unfolding coherent_def by blast
    moreover have "r = Inr p" "w' = w" "c' = c1"
      using get raw by (simp_all add: cached_GetPreferences_def read)
    ultimately show ?thesis using ok coh1 by simp
  next
    case None
    obtain res w1 where st: "ps_GetPreferences store u w = (res, w1)" by fastforce
    note reads = get_reads [OF ok st] and keeps = get_keeps [OF ok st]
    show ?thesis
    proof (cases "prefs_at w u")
      case None
      then show ?thesis using get reads keeps coh1 \<open>hit = None\<close>
        by (simp add: cached_GetPreferences_def read st s(2) flip: hit_def)
    next
      case (Some p)
      have "coherent content (cp_json s) (prefs_at w) c'"
        using get reads coh1 \<open>hit = None\<close> Some C
        by (auto simp: cached_GetPreferences_def read st s(2) Let_def simp flip: hit_def split: option.splits
            intro: coherent_Set [where C = "cp_cache s"])
      then show ?thesis using get reads keeps \<open>hit = None\<close> Some
        by (auto simp: cached_GetPreferences_def read st s(2) Let_def simp flip: hit_def)
    qed
  qed
qed

lemma cached_save:
  assumes s: "dependable s content" "cp_store s = store" and ok: "ok w"
    and coh: "coherent content (cp_json s) (prefs_at w) c"
    and save: "cached_SavePreferences s p (w, c) = (r, w', c')"
  shows "ok w' \<and> coherent content (cp_json s) (prefs_at w') c' \<and>
    (r = None \<longrightarrow> (\<exists>q. same_settings p q \<and> prefs_at w' = (prefs_at w)(np_UserID p \<mapsto> q))) \<and>
    (r \<noteq> None \<longrightarrow> prefs_at w' = prefs_at w)"
proof -
  obtain res w1 where st: "ps_SavePreferences store p w = (res, w1)" by fastforce
  have r: "r = res" "w' = w1"
    using save by (auto simp: cached_SavePreferences_def s(2) st split: option.splits)
  note ok' = save_ok [OF ok st]
  show ?thesis
  proof (cases res)
    case None
    obtain n c1 where inv: "gc_InvalidateTag (cp_cache s) (preferencesCacheTag (np_UserID p)) c = (Inr n, c1)"
      using s(1) unfolding dependable_def invalidations_succeed_def by (metis prod.collapse)
    obtain q where q: "same_settings p q" and w1: "prefs_at w1 = (prefs_at w)(np_UserID p \<mapsto> q)"
      using save_writes [OF ok] st None by blast
    have "c' = c1" using save None by (simp add: cached_SavePreferences_def s(2) st inv)
    moreover have "coherent content (cp_json s) (prefs_at w1) c1"
      by (rule coherent_Invalidate [OF _ coh inv]) (use s(1) w1 in \<open>simp_all add: dependable_def\<close>)
    ultimately show ?thesis using ok' r None q w1 by blast
  next
    case (Some err)
    have "c' = c" using save Some by (simp add: cached_SavePreferences_def s(2) st)
    then show ?thesis using ok' r Some save_fails [OF ok] st coh by auto
  qed
qed

text \<open>A cached store in front of a store that keeps the contract keeps it as well.\<close>

lemma cached_contract:
  assumes "cp_store s = store"
  shows "preferences_store (cached_PreferencesStore s)
    (\<lambda>(w, c). dependable s content \<and> ok w \<and> coherent content (cp_json s) (prefs_at w) c) (\<lambda>(w, c). prefs_at w)"
proof (unfold_locales, goal_cases)
  case (1 w u r w')
  then show ?case using cached_get [OF _ assms, of content "fst w" "snd w" u r "fst w'" "snd w'"]
    by (simp add: cached_PreferencesStore_def split_beta)
next
  case (2 w u r w')
  then show ?case using cached_get [OF _ assms, of content "fst w" "snd w" u r "fst w'" "snd w'"]
    by (simp add: cached_PreferencesStore_def split_beta)
next
  case (3 w p r w')
  then show ?case using cached_save [OF _ assms, of content "fst w" "snd w" p r "fst w'" "snd w'"]
    by (simp add: cached_PreferencesStore_def split_beta)
next
  case (4 w p w')
  then show ?case using cached_save [OF _ assms, of content "fst w" "snd w" p None "fst w'" "snd w'"]
    by (simp add: cached_PreferencesStore_def split_beta)
next
  case (5 w p r w')
  obtain w1 c1 where w: "w = (w1, c1)" by (cases w)
  obtain res w2 where st: "ps_SavePreferences store p w1 = (res, w2)" by fastforce
  have "r = res" using 5(2) by (auto simp: w cached_PreferencesStore_def cached_SavePreferences_def assms st split: option.splits)
  then show ?case using save_accepts [OF _ st] 5(1) by (simp add: w)
next
  case (6 w p err w')
  then show ?case using cached_save [OF _ assms, of content "fst w" "snd w" p "Some err" "fst w'" "snd w'"]
    by (simp add: cached_PreferencesStore_def split_beta)
qed

end

text \<open>The cached store in front of the in-memory one.\<close>

definition cached_memory ::
  "('t \<Rightarrow> Time \<times> 't) \<Rightarrow> 'c Cache \<Rightarrow> Duration \<Rightarrow> NotificationPreferences codec \<Rightarrow>
     (memoryPreferencesStore \<times> 't, 'c) cachedPreferencesStore" where
  "cached_memory clock C ttl J =
     \<lparr>cp_store = mem_PreferencesStore clock, cp_cache = C, cp_ttl = ttl, cp_json = J\<rparr>"

interpretation cached_prefs: preferences_store "cached_PreferencesStore (cached_memory clock C ttl J)"
  "\<lambda>(w, c). dependable (cached_memory clock C ttl J) content \<and> True \<and>
     coherent content (cp_json (cached_memory clock C ttl J)) (map_of (mps_byUID (fst w))) c"
  "\<lambda>(w, c). map_of (mps_byUID (fst w))"
  for clock :: "'t \<Rightarrow> Time \<times> 't" and C :: "'c Cache" and ttl J content
  by (rule mem_prefs.cached_contract) (simp add: cached_memory_def)

section \<open>Coherence of the cached assignments\<close>

text \<open>
  Several instances with one shared cache assign users to one experiment: the calls in the order in which
  they reach the cache.
\<close>

fun cx_assign_all ::
  "(string \<Rightarrow> string) \<Rightarrow> ('w \<Rightarrow> Time \<times> 'w) \<Rightarrow> 'w cacheExperimentEngine \<Rightarrow> Experiment \<Rightarrow> string list \<Rightarrow> 'w \<Rightarrow>
     (error + ExperimentVariant) go list \<times> 'w" where
  "cx_assign_all md5 clock e x [] w = ([], w)"
| "cx_assign_all md5 clock e x (u # us) w =
     (case cx_AssignVariant md5 clock e u (Some x) w of (r, w1) \<Rightarrow>
        (case cx_assign_all md5 clock e x us w1 of (rs, w2) \<Rightarrow> (r # rs, w2)))"

text \<open>What a user's call should return: the deterministic choice.\<close>

fun chosen :: "ExperimentVariant go \<Rightarrow> (error + ExperimentVariant) go" where
  "chosen (Ret v) = Ret (Inr v)"
| "chosen (Panic p) = Panic p"

text \<open>Entries under the keys of the experiment decode, if at all, to the deterministic choice.\<close>

definition picks_cached ::
  "'w content \<Rightarrow> ExperimentVariant codec \<Rightarrow> (string \<Rightarrow> string) \<Rightarrow> Experiment \<Rightarrow> 'w \<Rightarrow> bool" where
  "picks_cached content J md5 x w \<longleftrightarrow>
     (\<forall>u raw T v. content w (assignmentKey u (ex_ID x)) = Some (raw, T) \<and> Unmarshal J raw = Some v \<longrightarrow>
        deterministicPick md5 u x = Ret v)"

text \<open>Publishing an event and reading the clock leave the cache alone.\<close>

definition bus_leaves_cache ::
  "'w content \<Rightarrow> ('w \<Rightarrow> Time \<times> 'w) \<Rightarrow> (bus_event \<Rightarrow> 'w \<Rightarrow> error option \<times> 'w) option \<Rightarrow> bool" where
  "bus_leaves_cache content clock bus \<longleftrightarrow>
     (\<forall>w. content (snd (clock w)) = content w) \<and>
     (\<forall>publish ev w. bus = Some publish \<longrightarrow> content (snd (publish ev w)) = content w)"

lemma assignmentKey_inj [simp]: "assignmentKey u i = assignmentKey v i \<longleftrightarrow> u = v"
  by (simp add: assignmentKey_def)

lemma PublishAssigned_content:
  "bus_leaves_cache content clock bus \<Longrightarrow> content (PublishAssigned clock bus p w) = content w"
  by (cases "clock w") (auto simp: PublishAssigned_def bus_leaves_cache_def Let_def split: option.split dest: spec [of _ w])

lemma picks_cached_shrinks:
  assumes "picks_cached content J md5 x w" "shrinks content w w'"
  shows "picks_cached content J md5 x w'"
  using assms shrinks_old [OF assms(2)] unfolding picks_cached_def by meson

lemma picks_cached_Set:
  assumes C: "cache_ok C content" and J: "codec_ok J" and ok: "picks_cached content J md5 x w"
    and v: "deterministicPick md5 u x = Ret v" "Marshal J v = Some raw"
    and set: "gc_Set C (assignmentKey u (ex_ID x)) raw ttl tags w = (r, w')"
  shows "picks_cached content J md5 x w'"
  unfolding picks_cached_def
proof (intro allI impI, elim conjE)
  fix u' raw' T v'
  assume e: "content w' (assignmentKey u' (ex_ID x)) = Some (raw', T)" and d: "Unmarshal J raw' = Some v'"
  from cache_Set_ok [OF C set, of "assignmentKey u' (ex_ID x)"] e
  consider "content w (assignmentKey u' (ex_ID x)) = Some (raw', T)" | "u' = u" "raw' = raw" by auto
  then show "deterministicPick md5 u' x = Ret v'"
  proof cases
    case 1
    with ok d show ?thesis unfolding picks_cached_def by blast
  next
    case 2
    with J v(2) d have "v' = v" unfolding codec_ok_def by blast
    with 2 v(1) show ?thesis by simp
  qed
qed

lemma cx_GetVariant_picks:
  assumes C: "cache_ok (cx_cache e) content" and ok: "picks_cached content (cx_json e) md5 x w"
    and get: "cx_GetVariant e u (ex_ID x) w = (r, w')"
  shows "picks_cached content (cx_json e) md5 x w' \<and> (\<forall>v. r = Inr (Some v) \<longrightarrow> deterministicPick md5 u x = Ret v)"
proof -
  obtain res w1 where g: "gc_Get (cx_cache e) (assignmentKey u (ex_ID x)) w = (res, w1)" by fastforce
  have "w' = w1" using get by (auto simp: cx_GetVariant_def g split: sum.splits if_splits)
  then have "picks_cached content (cx_json e) md5 x w'"
    using picks_cached_shrinks [OF ok cache_Get_ok(1) [OF C g]] by simp
  moreover have "deterministicPick md5 u x = Ret v" if "r = Inr (Some v)" for v
  proof -
    from that get obtain raw where raw: "res = Inr raw" "Unmarshal (cx_json e) raw = Some v"
      by (auto simp: cx_GetVariant_def g split: sum.splits if_splits)
    from cache_Get_ok(2) [OF C g raw(1)] raw(2) ok show ?thesis unfolding picks_cached_def by blast
  qed
  ultimately show ?thesis by blast
qed

lemma cx_AssignVariant_picks:
  assumes C: "cache_ok (cx_cache e) content" and J: "codec_ok (cx_json e)"
    and bus: "bus_leaves_cache content clock (cx_bus e)" and vs: "ex_Variants x \<noteq> []"
    and ok: "picks_cached content (cx_json e) md5 x w"
    and run: "cx_AssignVariant md5 clock e u (Some x) w = (r, w')"
  shows "picks_cached content (cx_json e) md5 x w' \<and> r = chosen (deterministicPick md5 u x)"
proof -
  obtain g w1 where get: "cx_GetVariant e u (ex_ID x) w = (g, w1)" by fastforce
  note g = cx_GetVariant_picks [OF C ok get]
  show ?thesis
  proof (cases "\<exists>v. g = Inr (Some v)")
    case True
    then show ?thesis using run g vs by (auto simp: cx_AssignVariant_def get)
  next
    case False
    show ?thesis
    proof (cases "deterministicPick md5 u x")
      case (Panic p)
      then show ?thesis using run g vs False
        by (auto simp: cx_AssignVariant_def get split: sum.splits option.splits)
    next
      case (Ret v)
      define w2 where "w2 = (case Marshal (cx_json e) v of
          Some raw \<Rightarrow> snd (gc_Set (cx_cache e) (assignmentKey u (ex_ID x)) raw 0 [] w1) | None \<Rightarrow> w1)"
      have "picks_cached content (cx_json e) md5 x w2"
        using g picks_cached_Set [OF C J _ Ret] unfolding w2_def
        by (cases "Marshal (cx_json e) v") (auto simp: prod_eq_iff)
      moreover have "r = Ret (Inr v)" "w' = PublishAssigned clock (cx_bus e) (assigned_payload u x v) w2"
        using run vs False Ret
        by (auto simp: cx_AssignVariant_def get w2_def Let_def split: sum.splits option.splits)
      ultimately show ?thesis
        using PublishAssigned_content [OF bus] Ret by (simp add: picks_cached_def)
    qed
  qed
qed

lemma cx_assign_all_picks:
  assumes "cache_ok (cx_cache e) content" "codec_ok (cx_json e)" "bus_leaves_cache content clock (cx_bus e)"
    and "ex_Variants x \<noteq> []" "picks_cached content (cx_json e) md5 x w" "cx_assign_all md5 clock e x us w = (rs, w')"
  shows "rs = map (\<lambda>u. chosen (deterministicPick md5 u x)) us"
  using assms(5,6)
proof (induction us arbitrary: w rs)
  case (Cons u us)
  obtain r w1 where r: "cx_AssignVariant md5 clock e u (Some x) w = (r, w1)" by fastforce
  obtain rs' where rs: "cx_assign_all md5 clock e x us w1 = (rs', w')" "rs = r # rs'"
    using Cons.prems(2) r by (auto split: prod.splits)
  from cx_AssignVariant_picks [OF assms(1-4) Cons.prems(1) r] Cons.IH [OF _ rs(1)] rs(2)
  show ?case by simp
qed simp

section \<open>Properties\<close>

text \<open>A cache that is a list of keys with their values and tags, for the concrete instances.\<close>

type_synonym list_cache = "(string \<times> string \<times> string list) list"

definition tag_free :: "string \<Rightarrow> list_cache \<Rightarrow> string \<Rightarrow> bool" where
  "tag_free t c k = (case map_of c k of Some (v, ts) \<Rightarrow> t \<notin> set ts | None \<Rightarrow> True)"

definition list_Cache :: "list_cache Cache" where
  "list_Cache =
     \<lparr>gc_Get = (\<lambda>k c. (case map_of c k of Some (v, ts) \<Rightarrow> Inr v | None \<Rightarrow> Inl (Sentinel ErrKeyNotFound), c)),
      gc_Set = (\<lambda>k v ttl ts c. (None, AList.update k (v, ts) c)),
      gc_Exists = (\<lambda>k c. (Inr (map_of c k \<noteq> None), c)),
      gc_InvalidateTag = (\<lambda>t c. (Inr (int (length (filter (\<lambda>p. \<not> tag_free t c (fst p)) c))),
                                  filter (\<lambda>p. tag_free t c (fst p)) c))\<rparr>"

definition list_content :: "list_cache content" where
  "list_content c k = map_option (\<lambda>(v, ts). (v, set ts)) (map_of c k)"


lemma map_of_filter_key: "map_of (filter (\<lambda>p. Q (fst p)) c) k = (if Q k then map_of c k else None)"
  by (induction c) auto

lemma tag_freeD: "map_of c k = Some (v, ts) \<Longrightarrow> t \<in> set ts \<Longrightarrow> \<not> tag_free t c k"
  by (simp add: tag_free_def)

lemma list_Cache_ok: "cache_ok list_Cache list_content"
  by (auto simp: cache_ok_def list_Cache_def list_content_def shrinks_def map_of_filter_key
      split: option.splits dest: tag_freeD)

lemma demo_dependable:
  "dependable (cached_memory (\<lambda>t. (5, t)) list_Cache 0 (demo_codec p)) list_content"
  by (simp add: dependable_def cached_memory_def list_Cache_ok demo_codec_ok invalidations_succeed_def)
    (simp add: list_Cache_def Let_def)

abbreviation demo_cached :: "(memoryPreferencesStore \<times> unit, list_cache) cachedPreferencesStore" where
  "demo_cached \<equiv> cached_memory (\<lambda>t. (5, t)) list_Cache 0 (demo_codec demo_prefs)"


text \<open>
  All instances that share an assignment cache agree: whatever the cache evicts, every call to assign a
  user to an experiment returns the deterministic choice for that user, so a cached engine is
  equivalent to computing the choice each time.
\<close>

theorem cached_engine_agrees_with_pick:
  assumes "cache_ok (cx_cache e) content" "codec_ok (cx_json e)" "bus_leaves_cache content clock (cx_bus e)"
    and "ex_Variants x \<noteq> []" "\<forall>k. content w k = None"
    and "cx_assign_all md5 clock e x us w = (rs, w')"
  shows "rs = map (\<lambda>u. chosen (deterministicPick md5 u x)) us"
  by (rule cx_assign_all_picks [OF assms(1-4) _ assms(6)]) (simp add: picks_cached_def assms(5))

definition demo_cx :: "list_cache cacheExperimentEngine" where
  "demo_cx = \<lparr>cx_cache = list_Cache, cx_analytics = None, cx_bus = Some (\<lambda>ev w. (None, w)),
     cx_json = demo_codec (demo_variant ''a'' 1)\<rparr>"

theorem cached_engine_agrees_with_pick_witness:
  "fst (cx_assign_all (\<lambda>s. s) (\<lambda>w. (7, w)) demo_cx (demo_experiment ''x'' [demo_variant ''a'' 1]) [''u'', ''u''] [])
    = [Ret (Inr (demo_variant ''a'' 1)), Ret (Inr (demo_variant ''a'' 1))]"
proof -
  obtain rs w where run: "cx_assign_all (\<lambda>s. s) (\<lambda>w. (7, w)) demo_cx
      (demo_experiment ''x'' [demo_variant ''a'' 1]) [''u'', ''u''] [] = (rs, w)"
    by (rule prod.exhaust)
  have "cache_ok (cx_cache demo_cx) list_content" "codec_ok (cx_json demo_cx)"
    "bus_leaves_cache list_content (\<lambda>w. (7, w)) (cx_bus demo_cx)"
    by (simp_all add: demo_cx_def list_Cache_ok demo_codec_ok bus_leaves_cache_def)
  from cached_engine_agrees_with_pick [OF this _ _ run] run show ?thesis
    by (simp add: single_variant list_content_def) (simp add: demo_experiment_def)
qed

text \<open>
  The cache keeps what was written, and answers whether a key is there; a write that fails changes nothing.
\<close>

definition cache_retains :: "'w Cache \<Rightarrow> 'w content \<Rightarrow> bool" where
  "cache_retains C content \<longleftrightarrow>
     (\<forall>k w. \<exists>w'. gc_Exists C k w = (Inr (content w k \<noteq> None), w')) \<and>
     (\<forall>k v ttl tags w w'. 0 \<le> ttl \<and> gc_Set C k v ttl tags w = (None, w') \<longrightarrow>
        content w' = (content w)(k \<mapsto> (v, set tags)))"

text \<open>
  Marks of the cache-backed idempotency store read back: after a successful mark, also with a negative
  lifetime, exactly the marked event and those processed before are reported as processed; a mark that fails
  reports the backend as unavailable.
\<close>

theorem cache_mark_roundtrip:
  assumes "cache_retains C content" "\<forall>w. content (snd (clock w)) = content w"
    and "cache_MarkProcessed C clock rfc3339 NewCacheIdempotencyStore i ttl w = (r, w')"
  shows "case r of
      None \<Rightarrow> fst (cache_IsProcessed C NewCacheIdempotencyStore j w') =
        (if j = i then Inr True else fst (cache_IsProcessed C NewCacheIdempotencyStore j w))
    | Some err \<Rightarrow> errors_is err ErrBackendUnavailable"
proof -
  obtain now w1 where c: "clock w = (now, w1)" by fastforce
  then have w1: "content w1 = content w" using assms(2) by (metis snd_conv)
  let ?key = "\<lambda>i. ci_keyPrefix NewCacheIdempotencyStore @ i"
  obtain res w2 where set: "gc_Set C (?key i) (rfc3339 now) (if ttl < 0 then 0 else ttl) [] w1 = (res, w2)" by fastforce
  have read: "fst (cache_IsProcessed C NewCacheIdempotencyStore j w) = Inr (content w (?key j) \<noteq> None)" for w
    using assms(1) unfolding cache_retains_def
    by (auto simp: cache_IsProcessed_def dest!: spec [of _ "?key j"] spec [of _ w])
  show ?thesis
  proof (cases res)
    case None
    have r: "r = None" "w' = w2"
      using assms(3) by (simp_all add: cache_MarkProcessed_def c set None)
    have "content w2 = (content w1)(?key i \<mapsto> (rfc3339 now, set []))"
      by (rule assms(1) [unfolded cache_retains_def, THEN conjunct2, rule_format, OF conjI, OF _ set [unfolded None]])
        simp
    then show ?thesis by (simp add: r read w1)
  next
    case (Some err)
    then show ?thesis
      using assms(3) by (auto simp: cache_MarkProcessed_def c set)
  qed
qed

lemma list_Cache_retains: "cache_retains list_Cache list_content"
  by (auto simp: cache_retains_def list_Cache_def list_content_def fun_eq_iff)

theorem cache_mark_roundtrip_witness:
  "fst (cache_IsProcessed list_Cache NewCacheIdempotencyStore ''e1''
     (snd (cache_MarkProcessed list_Cache (\<lambda>w. (7, w)) (\<lambda>t. ''now'') NewCacheIdempotencyStore ''e1'' (- 1) []))) = Inr True"
proof -
  obtain r w where run: "cache_MarkProcessed list_Cache (\<lambda>w. (7, w)) (\<lambda>t. ''now'') NewCacheIdempotencyStore ''e1'' (- 1) [] = (r, w)"
    by (rule prod.exhaust)
  then have "r = None" by (auto simp: cache_MarkProcessed_def list_Cache_def)
  with cache_mark_roundtrip [OF list_Cache_retains _ run, of "''e1''"] run show ?thesis by simp
qed

text \<open>
  The adapters share one key space, and the keys of the experiment engine carry no prefix of their own: an
  assignment of a user called \<open>grnoti\<close> to an experiment \<open>idempotency:e1\<close> makes the event \<open>e1\<close>, which nobody
  processed, count as processed when both use the same cache.
\<close>

theorem assignment_marks_event_processed:
  "fst (cache_IsProcessed list_Cache NewCacheIdempotencyStore ''e1'' []) = Inr False \<and>
   fst (cache_IsProcessed list_Cache NewCacheIdempotencyStore ''e1''
     (snd (cx_AssignVariant md5 (\<lambda>w. (7, w)) demo_cx ''grnoti''
             (Some (demo_experiment ''idempotency:e1'' [demo_variant ''a'' 1])) []))) = Inr True"
  by (simp add: cache_IsProcessed_def cx_AssignVariant_def cx_GetVariant_def single_variant demo_cx_def list_Cache_def
      NewCacheIdempotencyStore_def demo_codec_def PublishAssigned_def Let_def split_beta)
    (simp add: demo_experiment_def assignmentKey_def)

end
