(* ===== verification/Grnoti_Kafka.thy ===== *)
theory Grnoti_Kafka
  imports Grnoti_Experiment Grnoti_Backend
begin

text \<open>
  The Kafka consumer and producers (\<^verbatim>\<open>consumer.kafka.go\<close>, \<^verbatim>\<open>producer.kafka.go\<close>).  The client library (\<^verbatim>\<open>sarama\<close>) is a
  parameter: what a session does when a message is marked, what the producer does with a message, how a
  session of the group ends.  \<^verbatim>\<open>encoding/json\<close> is the codec of events.
\<close>

section \<open>The consumer\<close>

record kafka_message =
  km_Offset :: int
  km_Value :: string

record KafkaConsumerConfig =
  kcc_Brokers :: "string list"
  kcc_GroupID :: string
  kcc_Topics :: "string list"

record kafkaEventConsumer =
  kc_topics :: "string list"
  kc_ready :: bool
  kc_closed :: bool

text \<open>\<open>newGroup\<close> is \<^verbatim>\<open>sarama.NewConsumerGroup\<close> for the given brokers and group.\<close>

definition NewKafkaEventConsumer ::
  "(string list \<Rightarrow> string \<Rightarrow> error option) \<Rightarrow> KafkaConsumerConfig \<Rightarrow> error + kafkaEventConsumer" where
  "NewKafkaEventConsumer newGroup cfg =
     (if length (kcc_Brokers cfg) = 0 then Inl (Opaque ''grnoti/kafka: KafkaConsumerConfig.Brokers is required'')
      else if kcc_GroupID cfg = [] then Inl (Opaque ''grnoti/kafka: KafkaConsumerConfig.GroupID is required'')
      else if length (kcc_Topics cfg) = 0 then Inl (Opaque ''grnoti/kafka: KafkaConsumerConfig.Topics is required'')
      else case newGroup (kcc_Brokers cfg) (kcc_GroupID cfg) of
        Some err \<Rightarrow> Inl (Wrap ''grnoti/kafka: create consumer group: '' (Sentinel ErrBackendUnavailable) [])
      | None \<Rightarrow> Inr \<lparr>kc_topics = kcc_Topics cfg, kc_ready = False, kc_closed = False\<rparr>)"

text \<open>
  The loop of \<^verbatim>\<open>Start\<close>, over what each turn of it meets: the state of the context before the session, how
  \<^verbatim>\<open>Consume\<close> ends, and whether the consumer has been closed by then.  The value is \<open>None\<close> as long as
  \<^verbatim>\<open>Start\<close> has not returned.
\<close>

record consume_turn =
  ct_ctxErr :: "error option"
  ct_consumeErr :: "error option"
  ct_closed :: bool

fun start_loop :: "consume_turn list \<Rightarrow> error option option" where
  "start_loop [] = None"
| "start_loop (t # ts) =
     (if ct_ctxErr t \<noteq> None then Some None
      else case ct_consumeErr t of
        Some err \<Rightarrow> Some (if ct_closed t then None else Some (Wrap ''grnoti/kafka: consume: '' err []))
      | None \<Rightarrow> if ct_closed t then Some None else start_loop ts)"

definition consumer_Start :: "consume_turn list \<Rightarrow> kafkaEventConsumer \<Rightarrow> error option option" where
  "consumer_Start turns c = (if kc_closed c then Some (Some (Sentinel ErrClosed)) else start_loop turns)"

definition consumer_Close :: "error option \<Rightarrow> kafkaEventConsumer \<Rightarrow> error option \<times> kafkaEventConsumer" where
  "consumer_Close closeErr c =
     (if kc_closed c then (None, c)
      else (map_option (\<lambda>err. Wrap ''grnoti/kafka: close consumer group: '' err []) closeErr, c\<lparr>kc_closed := True\<rparr>))"

definition consumer_Setup :: "kafkaEventConsumer \<Rightarrow> kafkaEventConsumer" where
  "consumer_Setup c = c\<lparr>kc_ready := True\<rparr>"

definition consumer_Cleanup :: "kafkaEventConsumer \<Rightarrow> error option \<times> kafkaEventConsumer" where
  "consumer_Cleanup c = (None, c)"

text \<open>\<^verbatim>\<open>WaitReady\<close>: the answers that are possible at the moment; none while it blocks.\<close>

definition WaitReady :: "error option \<Rightarrow> kafkaEventConsumer \<Rightarrow> error option set" where
  "WaitReady ctxErr c = (if kc_ready c then {None} else {}) \<union> (if ctxErr \<noteq> None then {ctxErr} else {})"

text \<open>
  \<^verbatim>\<open>ConsumeClaim\<close>, over what its select receives; the first component tells whether it has returned.  \<open>mark\<close> is
  \<^verbatim>\<open>session.MarkMessage\<close> on the state \<open>s\<close> of the session, and the handler acts on a world \<open>w\<close> of its own.
\<close>

datatype claim_input = Message kafka_message | MessagesClosed | SessionDone

type_synonym 'w event_handler = "Event \<Rightarrow> 'w \<Rightarrow> error option \<times> 'w"

fun ConsumeClaim ::
  "Event codec \<Rightarrow> (kafka_message \<Rightarrow> 's \<Rightarrow> 's) \<Rightarrow> 'w event_handler option \<Rightarrow> claim_input list \<Rightarrow> 's \<Rightarrow> 'w \<Rightarrow> bool \<times> 's \<times> 'w" where
  "ConsumeClaim J mark handler [] s w = (False, s, w)"
| "ConsumeClaim J mark handler (MessagesClosed # ins) s w = (True, s, w)"
| "ConsumeClaim J mark handler (SessionDone # ins) s w = (True, s, w)"
| "ConsumeClaim J mark handler (Message m # ins) s w =
     (case Unmarshal J (km_Value m) of
        None \<Rightarrow> ConsumeClaim J mark handler ins (mark m s) w
      | Some event \<Rightarrow>
          (case handler of
             None \<Rightarrow> ConsumeClaim J mark handler ins (mark m s) w
           | Some h \<Rightarrow>
               (case h event w of
                  (Some err, w') \<Rightarrow> ConsumeClaim J mark handler ins s w'
                | (None, w') \<Rightarrow> ConsumeClaim J mark handler ins (mark m s) w')))"

section \<open>The event producer\<close>

record producer_message =
  pm_Topic :: string
  pm_Key :: string
  pm_Value :: string

record 'w SyncProducer =
  sp_SendMessage :: "producer_message \<Rightarrow> 'w \<Rightarrow> error option \<times> 'w"
  sp_SendMessages :: "producer_message list \<Rightarrow> 'w \<Rightarrow> error option \<times> 'w"
  sp_Close :: "'w \<Rightarrow> error option \<times> 'w"

record 'w kafkaEventProducer =
  kp_producer :: "'w SyncProducer"
  kp_topic :: string
  kp_closed :: bool

definition NewKafkaEventProducer :: "'w SyncProducer option \<Rightarrow> string \<Rightarrow> error + 'w kafkaEventProducer" where
  "NewKafkaEventProducer producer topic =
     (case producer of
        None \<Rightarrow> Inl (Opaque ''grnoti/kafka: KafkaProducerConfig.Producer is required'')
      | Some p \<Rightarrow>
          if topic = [] then Inl (Opaque ''grnoti/kafka: KafkaProducerConfig.Topic is required'')
          else Inr \<lparr>kp_producer = p, kp_topic = topic, kp_closed = False\<rparr>)"

definition encodeEvent :: "Event codec \<Rightarrow> Event \<Rightarrow> 'w kafkaEventProducer \<Rightarrow> error + producer_message" where
  "encodeEvent J event p =
     (case event_Validate event of
        Some err \<Rightarrow> Inl err
      | None \<Rightarrow>
          (case Marshal J event of
             None \<Rightarrow> Inl (json_error (''grnoti/kafka: marshal event '' @ ev_EventID event))
           | Some payload \<Rightarrow> Inr \<lparr>pm_Topic = kp_topic p, pm_Key = ev_EventID event, pm_Value = payload\<rparr>))"

definition producer_Publish ::
  "Event codec \<Rightarrow> error option \<Rightarrow> Event \<Rightarrow> 'w kafkaEventProducer \<Rightarrow> 'w \<Rightarrow> error option \<times> 'w" where
  "producer_Publish J ctxErr event p w =
     (if kp_closed p then (Some (Sentinel ErrClosed), w)
      else if ctxErr \<noteq> None then (ctxErr, w)
      else case encodeEvent J event p of
        Inl err \<Rightarrow> (Some err, w)
      | Inr msg \<Rightarrow>
          (case sp_SendMessage (kp_producer p) msg w of
             (Some err, w') \<Rightarrow> (Some (backend_error (''grnoti/kafka: publish event '' @ ev_EventID event) err), w')
           | (None, w') \<Rightarrow> (None, w')))"

fun encode_loop :: "Event codec \<Rightarrow> 'w kafkaEventProducer \<Rightarrow> int \<Rightarrow> Event list \<Rightarrow> producer_message list \<Rightarrow>
    error + producer_message list" where
  "encode_loop J p i [] msgs = Inr msgs"
| "encode_loop J p i (event # events) msgs =
     (case encodeEvent J event p of
        Inl err \<Rightarrow> Inl (Wrap (''grnoti/kafka: batch event '' @ show_int i @ '' ('' @ ev_EventID event @ ''): '') err [])
      | Inr msg \<Rightarrow> encode_loop J p (i + 1) events (msgs @ [msg]))"

definition PublishBatch ::
  "Event codec \<Rightarrow> error option \<Rightarrow> Event list \<Rightarrow> 'w kafkaEventProducer \<Rightarrow> 'w \<Rightarrow> error option \<times> 'w" where
  "PublishBatch J ctxErr events p w =
     (if kp_closed p then (Some (Sentinel ErrClosed), w)
      else if ctxErr \<noteq> None then (ctxErr, w)
      else if length events = 0 then (None, w)
      else case encode_loop J p 0 events [] of
        Inl err \<Rightarrow> (Some err, w)
      | Inr msgs \<Rightarrow>
          (case sp_SendMessages (kp_producer p) msgs w of
             (Some err, w') \<Rightarrow>
               (Some (backend_error (''grnoti/kafka: publish batch of '' @ show_int (int (length events)) @ '' events'') err), w')
           | (None, w') \<Rightarrow> (None, w')))"

definition producer_Close :: "'w kafkaEventProducer \<Rightarrow> 'w kafkaEventProducer" where
  "producer_Close p = p\<lparr>kp_closed := True\<rparr>"

section \<open>The analytics publisher\<close>

record experimentImpressionMessage =
  im_UserID :: string
  im_ExperimentID :: string
  im_VariantID :: string
  im_Timestamp :: Time

record experimentConversionMessage =
  cm_UserID :: string
  cm_ExperimentID :: string
  cm_Timestamp :: Time

definition DefaultImpressionTopic :: string where "DefaultImpressionTopic = ''grnoti.experiment.impressions''"
definition DefaultConversionTopic :: string where "DefaultConversionTopic = ''grnoti.experiment.conversions''"

record KafkaAnalyticsPublisherConfig =
  kac_Brokers :: "string list"
  kac_ImpressionTopic :: string
  kac_ConversionTopic :: string

record 'w kafkaAnalyticsPublisher =
  ka_producer :: "'w SyncProducer"
  ka_impressionTopic :: string
  ka_conversionTopic :: string
  ka_closed :: bool

definition NewKafkaAnalyticsPublisher ::
  "(string list \<Rightarrow> error + 'w SyncProducer) \<Rightarrow> KafkaAnalyticsPublisherConfig \<Rightarrow> error + 'w kafkaAnalyticsPublisher" where
  "NewKafkaAnalyticsPublisher newProducer cfg =
     (if length (kac_Brokers cfg) = 0 then Inl (Opaque ''grnoti/kafka: KafkaAnalyticsPublisherConfig.Brokers is required'')
      else case newProducer (kac_Brokers cfg) of
        Inl err \<Rightarrow> Inl (Wrap ''grnoti/kafka: create sync producer: '' (Sentinel ErrBackendUnavailable) [])
      | Inr producer \<Rightarrow> Inr
          \<lparr>ka_producer = producer,
           ka_impressionTopic = (if kac_ImpressionTopic cfg = [] then DefaultImpressionTopic else kac_ImpressionTopic cfg),
           ka_conversionTopic = (if kac_ConversionTopic cfg = [] then DefaultConversionTopic else kac_ConversionTopic cfg),
           ka_closed = False\<rparr>)"

definition analytics_PublishImpression ::
  "experimentImpressionMessage codec \<Rightarrow> error option \<Rightarrow> Time \<Rightarrow> 'w kafkaAnalyticsPublisher \<Rightarrow>
   string \<Rightarrow> string \<Rightarrow> string \<Rightarrow> 'w \<Rightarrow> error option \<times> 'w" where
  "analytics_PublishImpression J ctxErr now p userID experimentID variantID w =
     (if ka_closed p then (Some (Sentinel ErrClosed), w)
      else if ctxErr \<noteq> None then (ctxErr, w)
      else case Marshal J \<lparr>im_UserID = userID, im_ExperimentID = experimentID, im_VariantID = variantID, im_Timestamp = now\<rparr> of
        None \<Rightarrow> (Some (json_error ''grnoti/kafka: marshal impression''), w)
      | Some payload \<Rightarrow>
          (case sp_SendMessage (ka_producer p) \<lparr>pm_Topic = ka_impressionTopic p, pm_Key = userID, pm_Value = payload\<rparr> w of
             (Some err, w') \<Rightarrow> (Some (Wrap ''grnoti/kafka: publish impression: '' (Sentinel ErrBackendUnavailable) []), w')
           | (None, w') \<Rightarrow> (None, w')))"

definition analytics_PublishConversion ::
  "experimentConversionMessage codec \<Rightarrow> error option \<Rightarrow> Time \<Rightarrow> 'w kafkaAnalyticsPublisher \<Rightarrow>
   string \<Rightarrow> string \<Rightarrow> 'w \<Rightarrow> error option \<times> 'w" where
  "analytics_PublishConversion J ctxErr now p userID experimentID w =
     (if ka_closed p then (Some (Sentinel ErrClosed), w)
      else if ctxErr \<noteq> None then (ctxErr, w)
      else case Marshal J \<lparr>cm_UserID = userID, cm_ExperimentID = experimentID, cm_Timestamp = now\<rparr> of
        None \<Rightarrow> (Some (json_error ''grnoti/kafka: marshal conversion''), w)
      | Some payload \<Rightarrow>
          (case sp_SendMessage (ka_producer p) \<lparr>pm_Topic = ka_conversionTopic p, pm_Key = userID, pm_Value = payload\<rparr> w of
             (Some err, w') \<Rightarrow> (Some (Wrap ''grnoti/kafka: publish conversion: '' (Sentinel ErrBackendUnavailable) []), w')
           | (None, w') \<Rightarrow> (None, w')))"

definition analytics_Close :: "'w kafkaAnalyticsPublisher \<Rightarrow> 'w \<Rightarrow> error option \<times> 'w kafkaAnalyticsPublisher \<times> 'w" where
  "analytics_Close p w =
     (if ka_closed p then (None, p, w)
      else case sp_Close (ka_producer p) w of
        (err, w') \<Rightarrow> (map_option (\<lambda>e. Wrap ''grnoti/kafka: close producer: '' e []) err, p\<lparr>ka_closed := True\<rparr>, w'))"

text \<open>The interface the experiment engine calls.\<close>

definition kafka_AnalyticsPublisher ::
  "experimentImpressionMessage codec \<Rightarrow> experimentConversionMessage codec \<Rightarrow> error option \<Rightarrow> Time \<Rightarrow>
   'w kafkaAnalyticsPublisher \<Rightarrow> 'w AnalyticsPublisher" where
  "kafka_AnalyticsPublisher JI JC ctxErr now p =
     \<lparr>ap_PublishImpression = analytics_PublishImpression JI ctxErr now p,
      ap_PublishConversion = analytics_PublishConversion JC ctxErr now p\<rparr>"

section \<open>What the consumer marks\<close>

text \<open>
  Which messages of a claim are marked: those that cannot be decoded, and those the handler accepts.  \<open>handled\<close> is the
  handler's world after the messages.
\<close>

fun marked :: "Event codec \<Rightarrow> 'w event_handler \<Rightarrow> kafka_message list \<Rightarrow> 'w \<Rightarrow> bool list" where
  "marked J h [] w = []"
| "marked J h (m # ms) w =
     (case Unmarshal J (km_Value m) of
        None \<Rightarrow> True # marked J h ms w
      | Some event \<Rightarrow> (fst (h event w) = None) # marked J h ms (snd (h event w)))"

definition handled :: "Event codec \<Rightarrow> 'w event_handler \<Rightarrow> kafka_message list \<Rightarrow> 'w \<Rightarrow> 'w" where
  "handled J h ms w = fold (\<lambda>event w. snd (h event w)) (List.map_filter (\<lambda>m. Unmarshal J (km_Value m)) ms) w"

fun apply_marks :: "(kafka_message \<Rightarrow> 's \<Rightarrow> 's) \<Rightarrow> kafka_message list \<Rightarrow> bool list \<Rightarrow> 's \<Rightarrow> 's" where
  "apply_marks mark (m # ms) (b # bs) s = apply_marks mark ms bs (if b then mark m s else s)"
| "apply_marks mark _ _ s = s"

lemma length_marked [simp]: "length (marked J h ms w) = length ms"
  by (induction J h ms w rule: marked.induct) (simp_all split: option.split)

lemma handled_simps [simp]:
  "handled J h [] w = w"
  "handled J h (m # ms) w = (case Unmarshal J (km_Value m) of None \<Rightarrow> handled J h ms w | Some e \<Rightarrow> handled J h ms (snd (h e w)))"
  by (simp_all add: handled_def map_filter_def split: option.split)

lemma ConsumeClaim_messages:
  "ConsumeClaim J mark (Some h) (map Message ms) s w = (False, apply_marks mark ms (marked J h ms w) s, handled J h ms w)"
  by (induction ms arbitrary: s w) (simp_all split: option.split prod.split)

text \<open>
  What the code relies on in the consumer group: the session keeps one position per partition, the offset of the next
  message to deliver, and marking a message moves it behind that message, never back.
\<close>

definition marks_forward :: "(kafka_message \<Rightarrow> 's \<Rightarrow> 's) \<Rightarrow> ('s \<Rightarrow> int) \<Rightarrow> bool" where
  "marks_forward mark pos \<longleftrightarrow> (\<forall>m s. pos (mark m s) = max (pos s) (km_Offset m + 1))"

lemma apply_marks_pos:
  assumes "marks_forward mark pos" "length bs = length ms"
  shows "pos (apply_marks mark ms bs s) \<le> k \<longleftrightarrow>
           pos s \<le> k \<and> (\<forall>j < length ms. bs ! j \<longrightarrow> km_Offset (ms ! j) < k)"
  using assms
proof (induction mark ms bs s rule: apply_marks.induct)
  case (1 mark m ms b bs s)
  then show ?case by (auto simp: marks_forward_def All_less_Suc2)
qed auto

lemma encode_loop_spec:
  "(case encode_loop J p i events msgs of
      Inr out \<Rightarrow> \<exists>ms. out = msgs @ ms \<and> list_all2 (\<lambda>e m. encodeEvent J e p = Inr m) events ms
    | Inl err \<Rightarrow> \<exists>k e. k < length events \<and> encodeEvent J (events ! k) p = Inl e \<and>
        (\<forall>j < k. \<exists>m. encodeEvent J (events ! j) p = Inr m) \<and>
        err = Wrap (''grnoti/kafka: batch event '' @ show_int (i + int k) @ '' ('' @ ev_EventID (events ! k) @ ''): '') e [])"
proof (induction J p i events msgs rule: encode_loop.induct)
  case (2 J p i event events msgs)
  show ?case
  proof (cases "encodeEvent J event p")
    case (Inl e)
    then show ?thesis by (auto intro!: exI [of _ 0])
  next
    case (Inr m)
    show ?thesis
    proof (cases "encode_loop J p (i + 1) events (msgs @ [m])")
      case l: (Inl err)
      with 2 [OF Inr] obtain k e where k: "k < length events" "encodeEvent J (events ! k) p = Inl e"
        "\<forall>j < k. \<exists>m. encodeEvent J (events ! j) p = Inr m"
        "err = Wrap (''grnoti/kafka: batch event '' @ show_int (i + 1 + int k) @ '' ('' @ ev_EventID (events ! k) @ ''): '') e []"
        by auto
      then have "Suc k < length (event # events) \<and> encodeEvent J ((event # events) ! Suc k) p = Inl e \<and>
          (\<forall>j < Suc k. \<exists>m. encodeEvent J ((event # events) ! j) p = Inr m)"
        using Inr by (simp add: All_less_Suc2)
      with k(4) Inr l show ?thesis by (auto intro!: exI [of _ "Suc k"] simp: add.assoc)
    next
      case r: (Inr out)
      with 2 [OF Inr] Inr show ?thesis by (auto intro: list_all2_Cons [THEN iffD2])
    qed
  qed
qed simp

section \<open>Properties\<close>

text \<open>
  C21. What is redelivered: after the messages of a claim, a message lies at or after the position from which the next
  session reads exactly when neither it nor any later message of the claim was marked.  A message whose handler
  failed is therefore redelivered only if every message behind it failed as well; one later success moves the
  position behind it, and it is lost although it was never marked.
\<close>

theorem redelivered_iff_unmarked_suffix:
  assumes "marks_forward mark pos" and "sorted_wrt (<) (map km_Offset ms)" and "i < length ms"
    and "pos s \<le> km_Offset (ms ! i)"
    and "ConsumeClaim J mark (Some h) (map Message ms) s w = (returned, s', w')"
  shows "pos s' \<le> km_Offset (ms ! i) \<longleftrightarrow> (\<forall>j < length ms. i \<le> j \<longrightarrow> \<not> marked J h ms w ! j)"
proof -
  have s': "s' = apply_marks mark ms (marked J h ms w) s" using assms(5) by (simp add: ConsumeClaim_messages)
  have lt: "km_Offset (ms ! j) < km_Offset (ms ! i) \<longleftrightarrow> j < i" if "j < length ms" for j
    using sorted_wrt_nth_less [OF assms(2), of j i] sorted_wrt_nth_less [OF assms(2), of i j] that assms(3)
    by (cases "j = i"; cases "j < i") auto
  show ?thesis
    unfolding s' apply_marks_pos [OF assms(1) length_marked] using assms(4) lt by (auto simp: not_less)
qed

definition demo_published :: Event where
  "demo_published = \<lparr>ev_EventID = ''e1'', ev_UserID = ''u1'', ev_AnonymousID = [], ev_FIDs = [], ev_Type = ''order'',
     ev_Payload = [], ev_Priority = PriorityHigh, ev_Timestamp = 0, ev_ExperimentID = []\<rparr>"

definition demo_messages :: "kafka_message list" where
  "demo_messages = [\<lparr>km_Offset = 7, km_Value = ''a''\<rparr>, \<lparr>km_Offset = 8, km_Value = ''a''\<rparr>]"

text \<open>A handler that fails on its first call only; its world counts the calls.\<close>

definition fails_once :: "nat event_handler" where
  "fails_once e n = (if n = 0 then Some (Opaque ''down'') else None, n + 1)"

definition demo_mark :: "kafka_message \<Rightarrow> int \<Rightarrow> int" where
  "demo_mark m s = max s (km_Offset m + 1)"

lemma demo_marks_forward: "marks_forward demo_mark (\<lambda>s. s)"
  by (simp add: marks_forward_def demo_mark_def)

theorem redelivered_iff_unmarked_suffix_witness:
  "\<not> fst (snd (ConsumeClaim (demo_codec demo_published) demo_mark (Some fails_once) (map Message demo_messages) 7 0)) \<le> 7 \<and>
   marked (demo_codec demo_published) fails_once demo_messages 0 = [False, True]"
proof -
  let ?r = "ConsumeClaim (demo_codec demo_published) demo_mark (Some fails_once) (map Message demo_messages) 7 0"
  have r: "?r = (fst ?r, fst (snd ?r), snd (snd ?r))" by simp
  have m: "marked (demo_codec demo_published) fails_once demo_messages 0 = [False, True]"
    by (simp add: demo_messages_def fails_once_def demo_codec_def)
  show ?thesis
    using redelivered_iff_unmarked_suffix [OF demo_marks_forward _ _ _ r, of 0] m
    by (auto simp: demo_messages_def All_less_Suc2)
qed

text \<open>
  A batch is published whole or not at all: either every event is valid and encodable, and the producer is asked
  once, with one message per event, in order, to the topic and under the event's id; or nothing is sent, and
  the error names the first event that failed, with its index, and wraps that event's own error.
\<close>

theorem PublishBatch_all_or_nothing:
  assumes "\<not> kp_closed p" and "events \<noteq> []"
  shows "(\<exists>msgs. list_all2 (\<lambda>e m. event_Validate e = None \<and> pm_Topic m = kp_topic p \<and> pm_Key m = ev_EventID e \<and>
             Marshal J e = Some (pm_Value m)) events msgs \<and>
           snd (PublishBatch J None events p w) = snd (sp_SendMessages (kp_producer p) msgs w) \<and>
           (fst (PublishBatch J None events p w) = None \<longleftrightarrow> fst (sp_SendMessages (kp_producer p) msgs w) = None)) \<or>
         (\<exists>k e. k < length events \<and> encodeEvent J (events ! k) p = Inl e \<and>
           (\<forall>j < k. \<exists>m. encodeEvent J (events ! j) p = Inr m) \<and>
           PublishBatch J None events p w =
             (Some (Wrap (''grnoti/kafka: batch event '' @ show_int (int k) @ '' ('' @ ev_EventID (events ! k) @ ''): '') e []), w))"
proof (cases "encode_loop J p 0 events []")
  case (Inl err)
  with encode_loop_spec [where J = J and p = p and i = 0 and events = events and msgs = "[]"] assms show ?thesis by (auto simp: PublishBatch_def)
next
  case (Inr msgs)
  with encode_loop_spec [where J = J and p = p and i = 0 and events = events and msgs = "[]"] have "list_all2 (\<lambda>e m. encodeEvent J e p = Inr m) events msgs" by simp
  then have "list_all2 (\<lambda>e m. event_Validate e = None \<and> pm_Topic m = kp_topic p \<and> pm_Key m = ev_EventID e \<and>
      Marshal J e = Some (pm_Value m)) events msgs"
    by (rule list_all2_mono) (auto simp: encodeEvent_def split: option.splits)
  with Inr assms show ?thesis
    by (intro disjI1 exI [of _ msgs]) (auto simp: PublishBatch_def split: prod.split option.split)
qed

definition log_producer :: "producer_message list SyncProducer" where
  "log_producer = \<lparr>sp_SendMessage = (\<lambda>m log. (None, log @ [m])), sp_SendMessages = (\<lambda>ms log. (None, log @ ms)),
     sp_Close = (\<lambda>log. (None, log))\<rparr>"

definition demo_producer :: "producer_message list kafkaEventProducer" where
  "demo_producer = \<lparr>kp_producer = log_producer, kp_topic = ''events'', kp_closed = False\<rparr>"

theorem PublishBatch_all_or_nothing_witness:
  "PublishBatch (demo_codec demo_published) None [demo_published, demo_published\<lparr>ev_EventID := []\<rparr>] demo_producer [] =
     (Some (Wrap ''grnoti/kafka: batch event 1 (): '' (Sentinel ErrInvalidEventID) []), [])"
proof -
  let ?es = "[demo_published, demo_published\<lparr>ev_EventID := []\<rparr>]"
  have bad: "event_Validate (?es ! 1) \<noteq> None" by (simp add: event_Validate_def)
  have "\<not> kp_closed demo_producer" "?es \<noteq> []" by (simp_all add: demo_producer_def)
  from PublishBatch_all_or_nothing [OF this, of "demo_codec demo_published" "[]"] obtain k e where
    k: "k < 2" "encodeEvent (demo_codec demo_published) (?es ! k) demo_producer = Inl e"
      "PublishBatch (demo_codec demo_published) None ?es demo_producer [] =
        (Some (Wrap (''grnoti/kafka: batch event '' @ show_int (int k) @ '' ('' @ ev_EventID (?es ! k) @ ''): '') e []), [])"
  proof (elim disjE exE conjE)
    fix msgs
    assume "list_all2 (\<lambda>e m. event_Validate e = None \<and> pm_Topic m = kp_topic demo_producer \<and> pm_Key m = ev_EventID e \<and>
      Marshal (demo_codec demo_published) e = Some (pm_Value m)) ?es msgs"
    with bad have False by (auto simp: list_all2_Cons1)
    then show thesis ..
  next
    fix k e
    assume "k < length ?es" "encodeEvent (demo_codec demo_published) (?es ! k) demo_producer = Inl e"
      "PublishBatch (demo_codec demo_published) None ?es demo_producer [] =
        (Some (Wrap (''grnoti/kafka: batch event '' @ show_int (int k) @ '' ('' @ ev_EventID (?es ! k) @ ''): '') e []), [])"
    then show thesis by (intro that [of k e]) simp_all
  qed
  have "event_Validate demo_published = None"
    by (simp add: event_Validate_def demo_published_def eventtype_IsValid_def priority_IsValid_def PriorityHigh_def)
  then have "encodeEvent (demo_codec demo_published) demo_published demo_producer \<noteq> Inl e"
    by (simp add: encodeEvent_def demo_codec_def)
  with k(1,2) have "k = 1" by (cases "k = 0") auto
  moreover have "show_int 1 = ''1''" by code_simp
  ultimately show ?thesis using k(2,3) by (simp add: encodeEvent_def event_Validate_def)
qed

text \<open>The messages of a log as a partition delivers them.\<close>

definition delivered :: "int list \<Rightarrow> producer_message list \<Rightarrow> kafka_message list" where
  "delivered offsets sent = map (\<lambda>(k, m). \<lparr>km_Offset = k, km_Value = pm_Value m\<rparr>) (zip offsets sent)"



end
