(* ===== verification/Grnoti_Templates.thy ===== *)
theory Grnoti_Templates
  imports Complex_Main Grnoti_Preferences
begin

text \<open>
  Event types and their registry (\<^verbatim>\<open>eventtypes.go\<close>), the template engine (\<^verbatim>\<open>templateengine.go\<close>), and localization
  (\<^verbatim>\<open>localization.go\<close>).  The template language of \<^verbatim>\<open>text/template\<close> and \<^verbatim>\<open>time.ParseDuration\<close> are parameters: a parser that
  may fail, the execution of a parsed template on the data, and a partial reading of durations.
\<close>

section \<open>Event types\<close>

definition EventTypeCustom :: EventType where "EventTypeCustom = ''custom''"
definition EventTypeSystemAlert :: EventType where "EventTypeSystemAlert = ''system_alert''"
definition EventTypeAccountVerification :: EventType where "EventTypeAccountVerification = ''account_verification''"
definition EventTypePasswordReset :: EventType where "EventTypePasswordReset = ''password_reset''"
definition EventTypeGenericTransactional :: EventType where "EventTypeGenericTransactional = ''generic_transactional''"
definition EventTypeGenericMarketing :: EventType where "EventTypeGenericMarketing = ''generic_marketing''"

lemmas event_types = EventTypeCustom_def EventTypeSystemAlert_def EventTypeAccountVerification_def
  EventTypePasswordReset_def EventTypeGenericTransactional_def EventTypeGenericMarketing_def

record EventTypeMetadata =
  em_DefaultPriority :: Priority
  em_Category :: NotificationCategory
  em_Transactional :: bool
  em_RequiresImmediateDelivery :: bool
  em_CanBeScheduled :: bool
  em_ShouldIncludeInDigest :: bool
  em_MaxRetries :: int
  em_RetryDelayMultiplier :: rat
  em_Description :: string

definition plain_metadata :: "Priority \<Rightarrow> NotificationCategory \<Rightarrow> string \<Rightarrow> EventTypeMetadata" where
  "plain_metadata p c d = \<lparr>em_DefaultPriority = p, em_Category = c, em_Transactional = False,
     em_RequiresImmediateDelivery = False, em_CanBeScheduled = False, em_ShouldIncludeInDigest = False,
     em_MaxRetries = 0, em_RetryDelayMultiplier = 0, em_Description = d\<rparr>"

definition immediate_metadata :: "Priority \<Rightarrow> NotificationCategory \<Rightarrow> string \<Rightarrow> EventTypeMetadata" where
  "immediate_metadata p c d = (plain_metadata p c d)\<lparr>em_Transactional := True, em_RequiresImmediateDelivery := True\<rparr>"

type_synonym eventTypeRegistry = "(EventType, EventTypeMetadata) gomap"

definition NewEventTypeRegistry :: eventTypeRegistry where
  "NewEventTypeRegistry =
     [(EventTypeCustom, plain_metadata PriorityNormal CategoryTransactional
         ''Fallback type for anything not otherwise registered.''),
      (EventTypeSystemAlert, immediate_metadata PriorityHigh CategoryAlert
         ''Generic operational/system notification.''),
      (EventTypeAccountVerification, immediate_metadata PriorityHigh CategoryTransactional
         ''Generic account-verification notification.''),
      (EventTypePasswordReset, immediate_metadata PriorityHigh CategoryTransactional
         ''Generic password-reset notification.''),
      (EventTypeGenericTransactional, immediate_metadata PriorityNormal CategoryTransactional
         ''Generic transactional notification with no more specific type registered.''),
      (EventTypeGenericMarketing, (plain_metadata PriorityLow CategoryMarketing
         ''Generic promotional/marketing notification.'')\<lparr>em_CanBeScheduled := True, em_ShouldIncludeInDigest := True\<rparr>)]"

definition Register :: "EventType \<Rightarrow> EventTypeMetadata \<Rightarrow> eventTypeRegistry \<Rightarrow> error option \<times> eventTypeRegistry" where
  "Register t meta r =
     (if \<not> eventtype_IsValid t then (Some (Sentinel ErrInvalidEventType), r) else (None, AList.update t meta r))"

definition Lookup :: "EventType \<Rightarrow> eventTypeRegistry \<Rightarrow> EventTypeMetadata option" where
  "Lookup t r = map_of r t"

definition AllTypes :: "eventTypeRegistry \<Rightarrow> EventType list" where
  "AllTypes r = map fst r"

section \<open>The standard library\<close>

text \<open>
  \<^verbatim>\<open>strings.TrimSpace\<close>: the white space of Unicode, in the bytes of its encoding.
\<close>

definition bytes :: "nat list \<Rightarrow> string" where
  "bytes = map char_of"

definition spaces :: "string list" where
  "spaces = map bytes ([[9], [10], [11], [12], [13], [32], [0xC2, 0x85], [0xC2, 0xA0], [0xE1, 0x9A, 0x80],
     [0xE2, 0x80, 0xA8], [0xE2, 0x80, 0xA9], [0xE2, 0x80, 0xAF], [0xE2, 0x81, 0x9F], [0xE3, 0x80, 0x80]] @
     map (\<lambda>b. [0xE2, 0x80, b]) [0x80..<0x8B])"

lemma spaces_nonempty: "p \<in> set spaces \<Longrightarrow> 0 < length p"
  by (auto simp: spaces_def bytes_def)

function trim_left :: "string list \<Rightarrow> string \<Rightarrow> string" where
  "trim_left ps s =
     (case find (\<lambda>p. 0 < length p \<and> take (length p) s = p) ps of
        None \<Rightarrow> s
      | Some p \<Rightarrow> trim_left ps (drop (length p) s))"
  by pat_completeness auto
termination
proof (relation "measure (length \<circ> snd)")
  fix ps s p
  assume "find (\<lambda>p. 0 < length p \<and> take (length p) s = p) ps = Some p"
  then have "0 < length p" "take (length p) s = p" by (auto simp: find_Some_iff)
  then show "((ps, drop (length p) s), ps, s) \<in> measure (length \<circ> snd)" by (cases s) auto
qed simp

declare trim_left.simps [simp del]

definition TrimSpace :: "string \<Rightarrow> string" where
  "TrimSpace s = rev (trim_left (map rev spaces) (rev (trim_left spaces s)))"

text \<open>\<^verbatim>\<open>strings.Contains\<close>.\<close>

fun Contains :: "string \<Rightarrow> string \<Rightarrow> bool" where
  "Contains [] sub = (sub = [])"
| "Contains (c # s) sub = (take (length sub) (c # s) = sub \<or> Contains s sub)"

record 't text_lib =
  tx_Parse :: "string \<Rightarrow> error + 't"
  tx_Execute :: "'t \<Rightarrow> strmap \<Rightarrow> error + string"
  tx_ParseDuration :: "string \<Rightarrow> Duration option"

section \<open>The template engine\<close>

record MessageTemplate =
  mt_TitleTemplate :: string
  mt_BodyTemplate :: string
  mt_DefaultData :: strmap
  mt_DefaultTTL :: Duration
  mt_CollapseKey :: string
  mt_ChannelID :: string
  mt_Sound :: string
  mt_Actions :: "NotificationAction list"
  mt_DeepLink :: string
  mt_Category :: NotificationCategory

record 't compiledTemplate =
  co_titleTmpl :: 't
  co_bodyTmpl :: 't
  co_defaultData :: strmap
  co_defaultTTL :: Duration
  co_collapseKey :: string
  co_channelID :: string
  co_sound :: string
  co_actions :: "NotificationAction list"
  co_deepLink :: string
  co_category :: NotificationCategory

text \<open>The checks of the action templates, which return the first error.\<close>

fun check_actions :: "'t text_lib \<Rightarrow> EventType \<Rightarrow> int \<Rightarrow> NotificationAction list \<Rightarrow> error option" where
  "check_actions X eventType i [] = None"
| "check_actions X eventType i (action # actions) =
     (if Contains (act_URL action) ''{{''
      then (case tx_Parse X (act_URL action) of
              Inl err \<Rightarrow> Some (Wrap (''grnoti: parsing action['' @ show_int i @ ''] url template for '' @ eventType @ '': '') err [])
            | Inr t \<Rightarrow> check_actions X eventType (i + 1) actions)
      else check_actions X eventType (i + 1) actions)"

definition compileTemplate :: "'t text_lib \<Rightarrow> EventType \<Rightarrow> MessageTemplate \<Rightarrow> error + 't compiledTemplate" where
  "compileTemplate X eventType tmpl =
     (case tx_Parse X (mt_TitleTemplate tmpl) of
        Inl err \<Rightarrow> Inl (Wrap (''grnoti: parsing title template for '' @ eventType @ '': '') err [])
      | Inr titleTmpl \<Rightarrow>
          (case tx_Parse X (mt_BodyTemplate tmpl) of
             Inl err \<Rightarrow> Inl (Wrap (''grnoti: parsing body template for '' @ eventType @ '': '') err [])
           | Inr bodyTmpl \<Rightarrow>
               (case (if Contains (mt_DeepLink tmpl) ''{{'' then tx_Parse X (mt_DeepLink tmpl) else Inr titleTmpl) of
                  Inl err \<Rightarrow> Inl (Wrap (''grnoti: parsing deep link template for '' @ eventType @ '': '') err [])
                | Inr _ \<Rightarrow>
                    (case check_actions X eventType 0 (mt_Actions tmpl) of
                       Some err \<Rightarrow> Inl err
                     | None \<Rightarrow> Inr
                         \<lparr>co_titleTmpl = titleTmpl, co_bodyTmpl = bodyTmpl, co_defaultData = mt_DefaultData tmpl,
                          co_defaultTTL = mt_DefaultTTL tmpl, co_collapseKey = mt_CollapseKey tmpl,
                          co_channelID = mt_ChannelID tmpl, co_sound = mt_Sound tmpl, co_actions = mt_Actions tmpl,
                          co_deepLink = mt_DeepLink tmpl, co_category = mt_Category tmpl\<rparr>))))"

definition renderInline :: "'t text_lib \<Rightarrow> string \<Rightarrow> strmap \<Rightarrow> error + string" where
  "renderInline X tmplText data =
     (case tx_Parse X tmplText of Inl err \<Rightarrow> Inl err | Inr tmpl \<Rightarrow> tx_Execute X tmpl data)"

text \<open>The data of a template: the defaults, the payload over them, and the three fields of the event over both.\<close>

definition put_all :: "strmap \<Rightarrow> strmap \<Rightarrow> strmap" where
  "put_all kvs m = fold (\<lambda>(k, v). AList.update k v) kvs m"

definition render_data :: "strmap \<Rightarrow> Event \<Rightarrow> strmap" where
  "render_data defaults event =
     AList.update ''event_type'' (ev_Type event) (AList.update ''user_id'' (ev_UserID event)
       (AList.update ''event_id'' (ev_EventID event) (put_all (ev_Payload event) (put_all defaults []))))"

fun render_actions ::
  "'t text_lib \<Rightarrow> EventType \<Rightarrow> strmap \<Rightarrow> int \<Rightarrow> NotificationAction list \<Rightarrow> NotificationAction list \<Rightarrow> error + NotificationAction list" where
  "render_actions X ty data i [] out = Inr out"
| "render_actions X ty data i (action # actions) out =
     (if Contains (act_URL action) ''{{''
      then (case renderInline X (act_URL action) data of
              Inl err \<Rightarrow> Inl (Wrap (''grnoti: rendering action['' @ show_int i @ ''] url for '' @ ty @ '': '') err [])
            | Inr url \<Rightarrow> render_actions X ty data (i + 1) actions (out @ [action\<lparr>act_URL := url\<rparr>]))
      else render_actions X ty data (i + 1) actions (out @ [action]))"

definition renderMessage :: "'t text_lib \<Rightarrow> 't compiledTemplate \<Rightarrow> Event \<Rightarrow> error + Message" where
  "renderMessage X compiled event =
     (let data = render_data (co_defaultData compiled) event; ty = ev_Type event; payload = map_of (ev_Payload event) in
      case tx_Execute X (co_titleTmpl compiled) data of
        Inl err \<Rightarrow> Inl (Wrap (''grnoti: rendering title for '' @ ty @ '': '') err [])
      | Inr title \<Rightarrow>
          (case tx_Execute X (co_bodyTmpl compiled) data of
             Inl err \<Rightarrow> Inl (Wrap (''grnoti: rendering body for '' @ ty @ '': '') err [])
           | Inr body \<Rightarrow>
               (case render_actions X ty data 0 (co_actions compiled) [] of
                  Inl err \<Rightarrow> Inl err
                | Inr actions \<Rightarrow>
                    (case (if Contains (co_deepLink compiled) ''{{'' then renderInline X (co_deepLink compiled) data
                           else Inr (co_deepLink compiled)) of
                       Inl err \<Rightarrow> Inl (Wrap (''grnoti: rendering deep link for '' @ ty @ '': '') err [])
                     | Inr link \<Rightarrow> Inr
                         \<lparr>msg_Title = TrimSpace title, msg_Body = TrimSpace body, msg_Data = Some data,
                          msg_ImageURL = (case payload ''image_url'' of None \<Rightarrow> [] | Some img \<Rightarrow> img),
                          msg_Priority = ev_Priority event,
                          msg_TTL = (case payload ''ttl'' of
                              None \<Rightarrow> co_defaultTTL compiled
                            | Some t \<Rightarrow> (case tx_ParseDuration X t of None \<Rightarrow> co_defaultTTL compiled | Some d \<Rightarrow> d)),
                          msg_CollapseKey = (case payload ''collapse_key'' of None \<Rightarrow> co_collapseKey compiled | Some ck \<Rightarrow> ck),
                          msg_ChannelID = co_channelID compiled, msg_Badge = None, msg_Sound = co_sound compiled,
                          msg_Actions = actions,
                          msg_DeepLink = (case payload ''deep_link'' of None \<Rightarrow> link | Some dl \<Rightarrow> dl),
                          msg_Category = co_category compiled\<rparr>))))"

type_synonym 't defaultTemplateEngine = "(EventType, 't compiledTemplate) gomap"

definition RegisterTemplate ::
  "'t text_lib \<Rightarrow> EventType \<Rightarrow> MessageTemplate \<Rightarrow> 't defaultTemplateEngine \<Rightarrow> error option \<times> 't defaultTemplateEngine" where
  "RegisterTemplate X eventType tmpl te =
     (case compileTemplate X eventType tmpl of
        Inl err \<Rightarrow> (Some err, te)
      | Inr compiled \<Rightarrow> (None, AList.update eventType compiled te))"

definition BuildMessage :: "'t text_lib \<Rightarrow> Event \<Rightarrow> 't defaultTemplateEngine \<Rightarrow> error + Message" where
  "BuildMessage X event te =
     (case (case map_of te (ev_Type event) of Some c \<Rightarrow> Some c | None \<Rightarrow> map_of te EventTypeCustom) of
        None \<Rightarrow> Inl (Sentinel ErrTemplateNotFound)
      | Some compiled \<Rightarrow> renderMessage X compiled event)"

definition simple_template :: "string \<Rightarrow> string \<Rightarrow> string \<Rightarrow> string \<Rightarrow> NotificationCategory \<Rightarrow> MessageTemplate" where
  "simple_template title body channel sound category =
     \<lparr>mt_TitleTemplate = title, mt_BodyTemplate = body, mt_DefaultData = [], mt_DefaultTTL = 0, mt_CollapseKey = [],
      mt_ChannelID = channel, mt_Sound = sound, mt_Actions = [], mt_DeepLink = [], mt_Category = category\<rparr>"

definition default_templates :: "(EventType, MessageTemplate) gomap" where
  "default_templates =
     [(EventTypeCustom, simple_template ''{{.title}}'' ''{{.body}}'' [] [] CategoryTransactional),
      (EventTypeSystemAlert, simple_template ''System Alert'' ''{{.message}}'' ''alerts'' ''default'' CategoryAlert),
      (EventTypeAccountVerification, simple_template ''Verify your account'' ''Please verify your account to continue.''
         ''account'' ''default'' CategoryTransactional),
      (EventTypePasswordReset, simple_template ''Password reset requested''
         ''A password reset was requested for your account. If this wasn't you, please secure your account.''
         ''security'' ''default'' CategoryTransactional),
      (EventTypeGenericTransactional, simple_template ''{{.title}}'' ''{{.body}}'' ''transactional'' ''default''
         CategoryTransactional),
      (EventTypeGenericMarketing, simple_template ''{{.title}}'' ''{{.body}}'' ''promotions'' [] CategoryMarketing)]"

definition registerDefaults :: "'t text_lib \<Rightarrow> 't defaultTemplateEngine \<Rightarrow> 't defaultTemplateEngine" where
  "registerDefaults X te = fold (\<lambda>(ty, tmpl) te. snd (RegisterTemplate X ty tmpl te)) default_templates te"

definition NewTemplateEngine :: "'t text_lib \<Rightarrow> 't defaultTemplateEngine" where
  "NewTemplateEngine X = registerDefaults X []"

section \<open>Localization\<close>

record LocalizedTemplate =
  lt_DefaultLocale :: string
  lt_Templates :: "(string, MessageTemplate) gomap"

type_synonym inMemoryLocalizationStore = "(EventType, LocalizedTemplate) gomap"

definition NewInMemoryLocalizationStore :: inMemoryLocalizationStore where
  "NewInMemoryLocalizationStore = []"

definition RegisterLocalizedTemplate ::
  "EventType \<Rightarrow> string \<Rightarrow> MessageTemplate \<Rightarrow> inMemoryLocalizationStore \<Rightarrow> inMemoryLocalizationStore" where
  "RegisterLocalizedTemplate eventType locale tmpl s =
     (let entry = (case map_of s eventType of Some e \<Rightarrow> e | None \<Rightarrow> \<lparr>lt_DefaultLocale = ''en'', lt_Templates = []\<rparr>) in
      AList.update eventType (entry\<lparr>lt_Templates := AList.update locale tmpl (lt_Templates entry)\<rparr>) s)"

definition GetLocalizedTemplate :: "EventType \<Rightarrow> string \<Rightarrow> inMemoryLocalizationStore \<Rightarrow> error + MessageTemplate" where
  "GetLocalizedTemplate eventType locale s =
     (case map_of s eventType of
        None \<Rightarrow> Inl (Sentinel ErrTemplateNotFound)
      | Some entry \<Rightarrow>
          (case map_of (lt_Templates entry) locale of
             Some tmpl \<Rightarrow> Inr tmpl
           | None \<Rightarrow>
               (case map_of (lt_Templates entry) (lt_DefaultLocale entry) of
                  Some tmpl \<Rightarrow> Inr tmpl | None \<Rightarrow> Inl (Sentinel ErrTemplateNotFound))))"

definition GetSupportedLocales :: "EventType \<Rightarrow> inMemoryLocalizationStore \<Rightarrow> string list" where
  "GetSupportedLocales eventType s =
     (case map_of s eventType of None \<Rightarrow> [] | Some entry \<Rightarrow> map fst (lt_Templates entry))"

record 'w LocaleResolver =
  lo_ResolveLocale :: "string \<Rightarrow> 'w \<Rightarrow> (error + string) \<times> 'w"
  lo_ResolveLocaleForAnonymous :: "string \<Rightarrow> 'w \<Rightarrow> (error + string) \<times> 'w"
  lo_GetDefaultLocale :: string

definition NewPreferencesLocaleResolver :: "'w PreferencesStore \<Rightarrow> string \<Rightarrow> 'w LocaleResolver" where
  "NewPreferencesLocaleResolver store fallback0 =
     (let fallbackLocale = (if fallback0 = [] then ''en'' else fallback0) in
      \<lparr>lo_ResolveLocale = (\<lambda>userID w. case ps_GetPreferences store userID w of
           (Inl err, w') \<Rightarrow> (Inr fallbackLocale, w')
         | (Inr prefs, w') \<Rightarrow> (Inr (if np_Locale prefs = [] then fallbackLocale else np_Locale prefs), w')),
       lo_ResolveLocaleForAnonymous = (\<lambda>anonymousID w. (Inr fallbackLocale, w)),
       lo_GetDefaultLocale = fallbackLocale\<rparr>)"

definition NewStaticLocaleResolver :: "string \<Rightarrow> 'w LocaleResolver" where
  "NewStaticLocaleResolver locale =
     \<lparr>lo_ResolveLocale = (\<lambda>userID w. (Inr locale, w)), lo_ResolveLocaleForAnonymous = (\<lambda>anonymousID w. (Inr locale, w)),
      lo_GetDefaultLocale = locale\<rparr>"

text \<open>
  The localized engine over a base engine (\<open>base\<close> is its \<^verbatim>\<open>BuildMessage\<close>), a store of localized templates (\<open>find\<close> is its
  \<^verbatim>\<open>GetLocalizedTemplate\<close>) and a resolver.  A map is kept with one order of its keys, and the store hands a
  template out as it was registered, so \<^verbatim>\<open>reflect.DeepEqual\<close> is equality.
\<close>

record 't localizedCacheEntry =
  ce_source :: MessageTemplate
  ce_compiled :: "'t compiledTemplate"

type_synonym 't compiled_cache = "(string, 't localizedCacheEntry) gomap"

definition getCompiled ::
  "'t text_lib \<Rightarrow> EventType \<Rightarrow> string \<Rightarrow> MessageTemplate \<Rightarrow> 't compiled_cache \<Rightarrow>
   (error + 't compiledTemplate) \<times> 't compiled_cache" where
  "getCompiled X eventType locale source cache =
     (let key = eventType @ '':'' @ locale;
          compile = (case compileTemplate X eventType source of
             Inl err \<Rightarrow> (Inl err, cache)
           | Inr compiled \<Rightarrow> (Inr compiled, AList.update key \<lparr>ce_source = source, ce_compiled = compiled\<rparr> cache))
      in case map_of cache key of
           Some entry \<Rightarrow> if ce_source entry = source then (Inr (ce_compiled entry), cache) else compile
         | None \<Rightarrow> compile)"

record 'w localizedTemplateEngine =
  le_baseEngine :: "Event \<Rightarrow> 'w \<Rightarrow> (error + Message) \<times> 'w"
  le_localeStore :: "EventType \<Rightarrow> string \<Rightarrow> 'w \<Rightarrow> (error + MessageTemplate) \<times> 'w"
  le_localeResolver :: "'w LocaleResolver"

definition NewLocalizedTemplateEngine ::
  "(Event \<Rightarrow> 'w \<Rightarrow> (error + Message) \<times> 'w) \<Rightarrow> (EventType \<Rightarrow> string \<Rightarrow> 'w \<Rightarrow> (error + MessageTemplate) \<times> 'w) \<Rightarrow>
     'w LocaleResolver \<Rightarrow> 'w localizedTemplateEngine \<times> 't compiled_cache" where
  "NewLocalizedTemplateEngine baseEngine localeStore localeResolver =
     (\<lparr>le_baseEngine = baseEngine, le_localeStore = localeStore, le_localeResolver = localeResolver\<rparr>, [])"

text \<open>Registration is the base engine's, a parameter; the compiled localized templates are not touched.\<close>

definition localized_RegisterTemplate ::
  "(EventType \<Rightarrow> MessageTemplate \<Rightarrow> 'w \<Rightarrow> error option \<times> 'w) \<Rightarrow> EventType \<Rightarrow> MessageTemplate \<Rightarrow>
     't compiled_cache \<times> 'w \<Rightarrow> error option \<times> 't compiled_cache \<times> 'w" where
  "localized_RegisterTemplate baseRegister eventType tmpl cw =
     (case cw of (cache, w) \<Rightarrow> case baseRegister eventType tmpl w of (err, w') \<Rightarrow> (err, cache, w'))"

definition resolve_locale :: "'w localizedTemplateEngine \<Rightarrow> Event \<Rightarrow> 'w \<Rightarrow> string \<times> 'w" where
  "resolve_locale e event w =
     (let lo = le_localeResolver e in
      case (if IsAuthenticated event then lo_ResolveLocale lo (ev_UserID event) w
            else if IsAnonymous event then lo_ResolveLocaleForAnonymous lo (ev_AnonymousID event) w
            else (Inr (lo_GetDefaultLocale lo), w)) of
        (Inl err, w') \<Rightarrow> (lo_GetDefaultLocale lo, w')
      | (Inr locale, w') \<Rightarrow> (locale, w'))"

definition localized_BuildMessage ::
  "'t text_lib \<Rightarrow> 'w localizedTemplateEngine \<Rightarrow> Event \<Rightarrow> 't compiled_cache \<times> 'w \<Rightarrow> (error + Message) \<times> 't compiled_cache \<times> 'w" where
  "localized_BuildMessage X e event cw =
     (case cw of (cache, w) \<Rightarrow>
        (case resolve_locale e event w of (locale, w1) \<Rightarrow>
           (case le_localeStore e (ev_Type event) locale w1 of
              (Inl err, w2) \<Rightarrow> (case le_baseEngine e event w2 of (r, w3) \<Rightarrow> (r, cache, w3))
            | (Inr localizedTmpl, w2) \<Rightarrow>
                (case getCompiled X (ev_Type event) locale localizedTmpl cache of
                   (Inl err, cache1) \<Rightarrow> (case le_baseEngine e event w2 of (r, w3) \<Rightarrow> (r, cache1, w3))
                 | (Inr compiled, cache1) \<Rightarrow> (renderMessage X compiled event, cache1, w2)))))"

section \<open>Lemmas\<close>

lemma map_of_put_all: "map_ok kvs \<Longrightarrow> map_of (put_all kvs m) k = (case map_of kvs k of Some v \<Rightarrow> Some v | None \<Rightarrow> map_of m k)"
proof (induction kvs arbitrary: m)
  case (Cons p kvs)
  then have "map_ok kvs" "map_of kvs (fst p) = None" by (auto simp: map_ok_def map_of_eq_None_iff)
  with Cons.IH [of "AList.update (fst p) (snd p) m"] show ?case
    by (auto simp: put_all_def split_beta split: option.split)
qed (simp add: put_all_def)

text \<open>What a compiled template parses to does not depend on the event type, which only appears in errors.\<close>

lemma check_actions_type: "check_actions X ty i as = None \<longleftrightarrow> check_actions X ty' j as = None"
  by (induction as arbitrary: i j) (simp_all split: sum.split)

lemma compileTemplate_type: "compileTemplate X ty t = Inr c \<longleftrightarrow> compileTemplate X ty' t = Inr c"
  using check_actions_type [of X ty 0 "mt_Actions t" ty' 0]
  by (auto simp: compileTemplate_def split: sum.split option.split)

text \<open>Every entry of the cache is what its source compiles to.\<close>

definition cache_sound :: "'t text_lib \<Rightarrow> 't compiled_cache \<Rightarrow> bool" where
  "cache_sound X cache \<longleftrightarrow> (\<forall>k e ty. map_of cache k = Some e \<longrightarrow> compileTemplate X ty (ce_source e) = Inr (ce_compiled e))"

lemma getCompiled_sound:
  assumes "cache_sound X cache" "getCompiled X ty locale source cache = (r, cache')"
  shows "cache_sound X cache'" and "r = compileTemplate X ty source"
proof -
  show "r = compileTemplate X ty source"
    using assms by (auto simp: getCompiled_def Let_def cache_sound_def split: option.splits if_splits sum.splits)
  from assms(2) consider "cache' = cache"
    | k c where "compileTemplate X ty source = Inr c" "cache' = AList.update k \<lparr>ce_source = source, ce_compiled = c\<rparr> cache"
    by (auto simp: getCompiled_def Let_def split: option.splits if_splits sum.splits)
  then show "cache_sound X cache'"
  proof cases
    case 1
    with assms(1) show ?thesis by simp
  next
    case (2 k c)
    have "compileTemplate X ty' source = Inr c" for ty' using 2(1) compileTemplate_type by blast
    with assms(1) show ?thesis unfolding 2(2) by (simp add: cache_sound_def)
  qed
qed

lemma check_actions_parse:
  "check_actions X ty i as = None \<Longrightarrow> a \<in> set as \<Longrightarrow> Contains (act_URL a) ''{{'' \<Longrightarrow> \<exists>t. tx_Parse X (act_URL a) = Inr t"
  by (induction as arbitrary: i) (auto split: if_splits sum.splits)

lemma render_actions_ok:
  assumes "\<And>a. a \<in> set as \<Longrightarrow> Contains (act_URL a) ''{{'' \<Longrightarrow> \<exists>u. renderInline X (act_URL a) data = Inr u"
  shows "\<exists>out'. render_actions X ty data i as out = Inr out'"
  using assms
proof (induction as arbitrary: i out)
  case (Cons a as)
  then show ?case by (cases "Contains (act_URL a) ''{{''") (fastforce split: sum.split)+
qed simp

lemma compiled_parses:
  assumes "compileTemplate X ty t = Inr c"
  shows "co_actions c = mt_Actions t \<and> co_deepLink c = mt_DeepLink t \<and>
    check_actions X ty 0 (mt_Actions t) = None \<and>
    (Contains (mt_DeepLink t) ''{{'' \<longrightarrow> (\<exists>p. tx_Parse X (mt_DeepLink t) = Inr p))"
  using assms by (auto simp: compileTemplate_def split: sum.splits option.splits if_splits)

lemma registered_mono: "map_of te ty = Some c \<Longrightarrow> \<exists>c'. map_of (snd (RegisterTemplate X ty' t te)) ty = Some c'"
  by (simp add: RegisterTemplate_def split: sum.split)

text \<open>The uncached localized engine: it compiles the template of every event anew.\<close>

definition uncached_BuildMessage ::
  "'t text_lib \<Rightarrow> 'w localizedTemplateEngine \<Rightarrow> Event \<Rightarrow> 'w \<Rightarrow> (error + Message) \<times> 'w" where
  "uncached_BuildMessage X e event w =
     (case resolve_locale e event w of (locale, w1) \<Rightarrow>
        (case le_localeStore e (ev_Type event) locale w1 of
           (Inl err, w2) \<Rightarrow> le_baseEngine e event w2
         | (Inr tmpl, w2) \<Rightarrow>
             (case compileTemplate X (ev_Type event) tmpl of
                Inl err \<Rightarrow> le_baseEngine e event w2
              | Inr compiled \<Rightarrow> (renderMessage X compiled event, w2))))"

fun build_all :: "('e \<Rightarrow> 's \<Rightarrow> 'r \<times> 's) \<Rightarrow> 'e list \<Rightarrow> 's \<Rightarrow> 'r list \<times> 's" where
  "build_all f [] s = ([], s)"
| "build_all f (e # es) s = (case f e s of (r, s1) \<Rightarrow> (case build_all f es s1 of (rs, s2) \<Rightarrow> (r # rs, s2)))"

lemma localized_step:
  assumes "cache_sound X cache"
  shows "\<exists>cache'. localized_BuildMessage X e event (cache, w) =
      (fst (uncached_BuildMessage X e event w), cache', snd (uncached_BuildMessage X e event w)) \<and> cache_sound X cache'"
proof -
  obtain lc w1 where l: "resolve_locale e event w = (lc, w1)" by (rule prod.exhaust)
  obtain q w2 where q: "le_localeStore e (ev_Type event) lc w1 = (q, w2)" by (rule prod.exhaust)
  show ?thesis
  proof (cases q)
    case (Inl err)
    with l q assms show ?thesis
      by (auto simp: localized_BuildMessage_def uncached_BuildMessage_def split: prod.split)
  next
    case (Inr tmpl)
    obtain r cache' where g: "getCompiled X (ev_Type event) lc tmpl cache = (r, cache')" by (rule prod.exhaust)
    note s = getCompiled_sound [OF assms g]
    from s(2) have c: "compileTemplate X (ev_Type event) tmpl = r" ..
    from s(1) show ?thesis
      by (cases r; intro exI [of _ cache'])
        (simp_all add: localized_BuildMessage_def uncached_BuildMessage_def l q Inr g c split: prod.split)
  qed
qed

lemma localized_all:
  assumes "cache_sound X cache"
  shows "fst (build_all (localized_BuildMessage X e) events (cache, w)) = fst (build_all (uncached_BuildMessage X e) events w)"
  using assms
proof (induction events arbitrary: cache w)
  case (Cons ev events)
  from localized_step [OF Cons.prems, of e ev w] obtain cache' where
    s: "localized_BuildMessage X e ev (cache, w) =
      (fst (uncached_BuildMessage X e ev w), cache', snd (uncached_BuildMessage X e ev w))" "cache_sound X cache'" by blast
  with Cons.IH [OF s(2), of "snd (uncached_BuildMessage X e ev w)"] show ?case by (simp add: split_beta)
qed simp

section \<open>Properties\<close>

text \<open>
  C29. The cache of compiled templates is invisible: whatever events are rendered, in whatever order, and whatever happens to
  the templates in the store between them, the localized engine returns the messages and errors it would return if it
  compiled the template of every event anew, although the keys of two pairs of event type and locale may coincide.
\<close>

theorem localized_cache_invisible:
  "fst (build_all (localized_BuildMessage X e) events ([], w)) = fst (build_all (uncached_BuildMessage X e) events w)"
  by (rule localized_all) (simp add: cache_sound_def)

text \<open>
  A template that was accepted renders: if the execution of parsed templates does not fail, every event gets a message
  from every template that \<^verbatim>\<open>compileTemplate\<close> accepts, since deep links and action URLs, which are parsed again for every
  event, were parsed when the template was accepted.
\<close>

theorem accepted_template_renders:
  assumes "compileTemplate X ty t = Inr c" and "\<forall>p data. \<exists>out. tx_Execute X p data = Inr out"
  shows "\<exists>msg. renderMessage X c event = Inr msg"
proof -
  let ?data = "render_data (co_defaultData c) event"
  note c = compiled_parses [OF assms(1)]
  obtain title body where ex: "tx_Execute X (co_titleTmpl c) ?data = Inr title" "tx_Execute X (co_bodyTmpl c) ?data = Inr body"
    using assms(2) by blast
  have "\<exists>u. renderInline X (act_URL a) ?data = Inr u" if "a \<in> set (co_actions c)" "Contains (act_URL a) ''{{''" for a
    using check_actions_parse [of X ty 0 "mt_Actions t" a] c that assms(2) by (auto simp: renderInline_def)
  from render_actions_ok [OF this] obtain as where as: "render_actions X (ev_Type event) ?data 0 (co_actions c) [] = Inr as"
    by blast
  have "\<exists>link. (if Contains (co_deepLink c) ''{{'' then renderInline X (co_deepLink c) ?data else Inr (co_deepLink c)) = Inr link"
    using c assms(2) by (auto simp: renderInline_def)
  then obtain link where
    "(if Contains (co_deepLink c) ''{{'' then renderInline X (co_deepLink c) ?data else Inr (co_deepLink c)) = Inr link" ..
  with ex as show ?thesis by (simp add: renderMessage_def Let_def)
qed

text \<open>A template library in which a text renders as itself and an opening \<^verbatim>\<open>{{\<close> at its end is refused.\<close>

definition demo_text :: "string text_lib" where
  "demo_text = \<lparr>tx_Parse = (\<lambda>s. if take 2 (rev s) = ''{{'' then Inl (Opaque ''unclosed'') else Inr s),
     tx_Execute = (\<lambda>p data. Inr p), tx_ParseDuration = (\<lambda>s. None)\<rparr>"

theorem accepted_template_renders_witness:
  "\<exists>msg. renderMessage demo_text
     (projr (compileTemplate demo_text ''order'' (simple_template ''Hi'' ''{{.body}}'' [] [] CategoryTransactional))) (demo_prefs_event ''u1'') = Inr msg"
proof -
  have "compileTemplate demo_text ''order'' (simple_template ''Hi'' ''{{.body}}'' [] [] CategoryTransactional) =
      Inr (projr (compileTemplate demo_text ''order'' (simple_template ''Hi'' ''{{.body}}'' [] [] CategoryTransactional)))"
    by (simp add: compileTemplate_def simple_template_def demo_text_def)
  from accepted_template_renders [OF this] show ?thesis by (simp add: demo_text_def)
qed

text \<open>
  The data of a rendered message: the payload overrides the template's defaults, and nothing overrides the identity of
  the event: \<^verbatim>\<open>event_id\<close>, \<^verbatim>\<open>user_id\<close> and \<^verbatim>\<open>event_type\<close> are the event's own even if the payload has such keys.  The
  payload's \<^verbatim>\<open>collapse_key\<close>, \<^verbatim>\<open>deep_link\<close> and \<^verbatim>\<open>image_url\<close> win over the template, its \<^verbatim>\<open>ttl\<close> does if it is a duration.
\<close>

theorem rendered_message_fields:
  assumes "map_ok (ev_Payload event)" and "map_ok (co_defaultData c)" and "renderMessage X c event = Inr msg"
  shows "(\<exists>data. msg_Data msg = Some data \<and>
            (\<forall>k. map_of data k =
               (if k = ''event_type'' then Some (ev_Type event) else if k = ''user_id'' then Some (ev_UserID event)
                else if k = ''event_id'' then Some (ev_EventID event)
                else case map_of (ev_Payload event) k of Some v \<Rightarrow> Some v | None \<Rightarrow> map_of (co_defaultData c) k))) \<and>
         msg_Priority msg = ev_Priority event \<and>
         msg_CollapseKey msg = (case map_of (ev_Payload event) ''collapse_key'' of Some ck \<Rightarrow> ck | None \<Rightarrow> co_collapseKey c) \<and>
         (map_of (ev_Payload event) ''deep_link'' = Some dl \<longrightarrow> msg_DeepLink msg = dl) \<and>
         msg_ImageURL msg = (case map_of (ev_Payload event) ''image_url'' of Some img \<Rightarrow> img | None \<Rightarrow> []) \<and>
         msg_TTL msg = (case map_of (ev_Payload event) ''ttl'' of
           None \<Rightarrow> co_defaultTTL c
         | Some t \<Rightarrow> (case tx_ParseDuration X t of None \<Rightarrow> co_defaultTTL c | Some d \<Rightarrow> d))"
proof -
  have "map_of (render_data (co_defaultData c) event) k =
      (if k = ''event_type'' then Some (ev_Type event) else if k = ''user_id'' then Some (ev_UserID event)
       else if k = ''event_id'' then Some (ev_EventID event)
       else case map_of (ev_Payload event) k of Some v \<Rightarrow> Some v | None \<Rightarrow> map_of (co_defaultData c) k)" for k
    using assms(1,2) by (simp add: render_data_def map_of_put_all split: option.split)
  moreover have "msg_Data msg = Some (render_data (co_defaultData c) event)"
    and "msg_Priority msg = ev_Priority event"
    and "msg_CollapseKey msg = (case map_of (ev_Payload event) ''collapse_key'' of Some ck \<Rightarrow> ck | None \<Rightarrow> co_collapseKey c)"
    and "map_of (ev_Payload event) ''deep_link'' = Some dl \<longrightarrow> msg_DeepLink msg = dl"
    and "msg_ImageURL msg = (case map_of (ev_Payload event) ''image_url'' of Some img \<Rightarrow> img | None \<Rightarrow> [])"
    and "msg_TTL msg = (case map_of (ev_Payload event) ''ttl'' of None \<Rightarrow> co_defaultTTL c
         | Some t \<Rightarrow> (case tx_ParseDuration X t of None \<Rightarrow> co_defaultTTL c | Some d \<Rightarrow> d))"
    using assms(3) by (auto simp: renderMessage_def Let_def split: sum.splits)
  ultimately show ?thesis by blast
qed

definition demo_compiled :: "string compiledTemplate" where
  "demo_compiled = \<lparr>co_titleTmpl = ''Hi'', co_bodyTmpl = ''there'', co_defaultData = [], co_defaultTTL = 0, co_collapseKey = [],
     co_channelID = [], co_sound = [], co_actions = [], co_deepLink = [], co_category = CategoryTransactional\<rparr>"

theorem rendered_message_fields_witness:
  "\<exists>msg data. renderMessage demo_text demo_compiled ((demo_prefs_event ''u1'')\<lparr>ev_Payload := [(''user_id'', ''u2'')]\<rparr>) = Inr msg \<and>
     msg_Data msg = Some data \<and> map_of data ''user_id'' = Some ''u1''"
proof -
  let ?ev = "(demo_prefs_event ''u1'')\<lparr>ev_Payload := [(''user_id'', ''u2'')]\<rparr>"
  obtain msg where m: "renderMessage demo_text demo_compiled ?ev = Inr msg"
    by (simp add: renderMessage_def demo_text_def demo_compiled_def Let_def)
  have "map_ok (ev_Payload ?ev)" "map_ok (co_defaultData demo_compiled)" by (simp_all add: map_ok_def demo_compiled_def)
  from rendered_message_fields [OF this m] obtain data where "msg_Data msg = Some data"
    "map_of data ''user_id'' = Some (ev_UserID ?ev)" by auto
  with m show ?thesis by (auto simp: demo_prefs_event_def)
qed

text \<open>
  No event type is without a template: if the library accepts the two sources of the custom template, then after any
  registrations, successful or not, a message is rendered from the template of the event's type or from the custom one.
\<close>

lemma fold_register_keeps:
  "\<exists>c. map_of te ty = Some c \<Longrightarrow> \<exists>c. map_of (fold (\<lambda>(t, tmpl) te. snd (RegisterTemplate X t tmpl te)) regs te) ty = Some c"
proof (induction regs arbitrary: te)
  case (Cons reg regs)
  from registered_mono Cons.prems have "\<exists>c. map_of (snd (RegisterTemplate X (fst reg) (snd reg) te)) ty = Some c" by metis
  from Cons.IH [OF this] show ?case by (simp add: split_beta)
qed simp

theorem every_event_has_a_template:
  assumes "tx_Parse X ''{{.title}}'' = Inr p1" and "tx_Parse X ''{{.body}}'' = Inr p2"
  shows "\<exists>c. BuildMessage X event (fold (\<lambda>(t, tmpl) te. snd (RegisterTemplate X t tmpl te)) regs (NewTemplateEngine X)) =
           renderMessage X c event"
proof -
  have "\<exists>c. map_of (snd (RegisterTemplate X EventTypeCustom (snd (hd default_templates)) [])) EventTypeCustom = Some c"
    using assms by (simp add: RegisterTemplate_def compileTemplate_def default_templates_def simple_template_def)
  then have "\<exists>c. map_of (NewTemplateEngine X) EventTypeCustom = Some c"
    using fold_register_keeps [of _ EventTypeCustom X "tl default_templates"]
    by (simp add: NewTemplateEngine_def registerDefaults_def default_templates_def)
  then obtain c where "map_of (fold (\<lambda>(t, tmpl) te. snd (RegisterTemplate X t tmpl te)) regs (NewTemplateEngine X)) EventTypeCustom = Some c"
    using fold_register_keeps by blast
  then show ?thesis
    by (cases "map_of (fold (\<lambda>(t, tmpl) te. snd (RegisterTemplate X t tmpl te)) regs (NewTemplateEngine X)) (ev_Type event)")
      (auto simp: BuildMessage_def)
qed

text \<open>What was registered last for a type and a locale is what is found, else the template of the default locale.\<close>

lemma localized_lookup:
  "GetLocalizedTemplate ty loc (RegisterLocalizedTemplate ty loc t s) = Inr t"
  "ty' \<noteq> ty \<Longrightarrow> GetLocalizedTemplate ty' loc' (RegisterLocalizedTemplate ty loc t s) = GetLocalizedTemplate ty' loc' s"
  "map_of s ty = None \<Longrightarrow> loc \<noteq> ''en'' \<Longrightarrow> loc' \<noteq> loc \<Longrightarrow>
     GetLocalizedTemplate ty loc' (RegisterLocalizedTemplate ty loc t s) = Inl (Sentinel ErrTemplateNotFound)"
  by (simp_all add: GetLocalizedTemplate_def RegisterLocalizedTemplate_def Let_def split: option.split)

lemma registry_roundtrip:
  "eventtype_IsValid t \<Longrightarrow> Lookup t (snd (Register t m r)) = Some m"
  "t' \<noteq> t \<Longrightarrow> Lookup t' (snd (Register t m r)) = Lookup t' r"
  "AllTypes NewEventTypeRegistry = map fst default_templates"
  by (simp_all add: Lookup_def Register_def AllTypes_def NewEventTypeRegistry_def default_templates_def)

end
