(* ===== verification/Grnoti_System.thy ===== *)
theory Grnoti_System
  imports Grnoti_Cache Grnoti_Kafka Grnoti_Templates Grnoti_Mongo Grnoti_DLQ_Mongo
begin

text \<open>
  The components put together the way \<^verbatim>\<open>example/main.go\<close> does it: one world that holds a device store, the in-memory
  preferences store, a dead-letter queue, the cache under the idempotency store, the state of the dispatcher and the
  clock, and the service that \<^verbatim>\<open>NewNotificationService\<close> builds on them.  What the single theories assume of a
  collaborator of the service is proved here of the component that is wired in.
\<close>

section \<open>The world\<close>

text \<open>The clock has been read \<open>sy_reads\<close> times; the \<open>n\<close>-th reading is a parameter.\<close>

record ('s, 'q, 'd, 'c) system =
  sy_devices :: 's
  sy_prefs :: memoryPreferencesStore
  sy_dlq :: 'q
  sy_cache :: 'c
  sy_disp :: 'd
  sy_reads :: nat

text \<open>The device store is one of the three; its operations are what the service calls of it.\<close>

record 's device_ops =
  do_GetActiveDevices :: "string \<Rightarrow> 's \<Rightarrow> (error + Device list) \<times> 's"
  do_GetActiveDevicesByAnonymousID :: "string \<Rightarrow> 's \<Rightarrow> (error + Device list) \<times> 's"
  do_MarkInvalid :: "Time \<Rightarrow> string \<Rightarrow> 's \<Rightarrow> error option \<times> 's"

definition memory_devices :: "memoryDeviceStore device_ops" where
  "memory_devices = \<lparr>do_GetActiveDevices = (\<lambda>u s. (Inr (mem_GetActiveDevices u s), s)),
     do_GetActiveDevicesByAnonymousID = (\<lambda>a s. (Inr (mem_GetActiveDevicesByAnonymousID a s), s)),
     do_MarkInvalid = (\<lambda>now fid s. (None, mem_MarkInvalid now fid s))\<rparr>"

definition postgres_devices :: "postgresDeviceStore device_ops" where
  "postgres_devices = \<lparr>do_GetActiveDevices = pg_GetActiveDevices,
     do_GetActiveDevicesByAnonymousID = pg_GetActiveDevicesByAnonymousID, do_MarkInvalid = pg_MarkInvalid\<rparr>"

definition mongo_devices :: "mongoDeviceStore device_ops" where
  "mongo_devices = \<lparr>do_GetActiveDevices = mongo_GetActiveDevices,
     do_GetActiveDevicesByAnonymousID = mongo_GetActiveDevicesByAnonymousID, do_MarkInvalid = mongo_MarkInvalid\<rparr>"

text \<open>Of the dead-letter queue the service calls one operation.\<close>

type_synonym 'q publish_op = "Time \<Rightarrow> Event \<Rightarrow> string \<Rightarrow> 'q \<Rightarrow> error option \<times> 'q"

definition memory_publish :: "memoryDLQHandler publish_op" where
  "memory_publish now event reason h = (None, mem_PublishToDLQ now event reason h)"

record ('s, 'q, 't, 'd, 'c) wiring =
  wr_devices :: "'s device_ops"
  wr_publish :: "'q publish_op"
  wr_text :: "'t text_lib"
  wr_templates :: "'t defaultTemplateEngine"
  wr_tzdb :: "string \<Rightarrow> error + Location"
  wr_cache :: "'c Cache"
  wr_rfc3339 :: "Time \<Rightarrow> string"
  wr_dispatcher :: "'d PushDispatcher"
  wr_readings :: "nat \<Rightarrow> Time"
  wr_config :: ServiceConfig

text \<open>An operation of a component, as an operation of the world that holds it.\<close>

definition via :: "('w \<Rightarrow> 'a) \<Rightarrow> (('a \<Rightarrow> 'a) \<Rightarrow> 'w \<Rightarrow> 'w) \<Rightarrow> ('a \<Rightarrow> 'r \<times> 'a) \<Rightarrow> 'w \<Rightarrow> 'r \<times> 'w" where
  "via get put f w = (case f (get w) of (r, a) \<Rightarrow> (r, put (\<lambda>_. a) w))"

definition system_clock :: "(nat \<Rightarrow> Time) \<Rightarrow> ('s, 'q, 'd, 'c) system \<Rightarrow> Time \<times> ('s, 'q, 'd, 'c) system" where
  "system_clock readings w = (readings (sy_reads w), w\<lparr>sy_reads := Suc (sy_reads w)\<rparr>)"

definition system_DeviceStore :: "(nat \<Rightarrow> Time) \<Rightarrow> 's device_ops \<Rightarrow> ('s, 'q, 'd, 'c) system DeviceStore" where
  "system_DeviceStore readings D =
     \<lparr>ds_GetActiveDevices = (\<lambda>u. via sy_devices sy_devices_update (do_GetActiveDevices D u)),
      ds_GetActiveDevicesByAnonymousID = (\<lambda>a. via sy_devices sy_devices_update (do_GetActiveDevicesByAnonymousID D a)),
      ds_MarkInvalid = (\<lambda>fid w. case system_clock readings w of (now, w') \<Rightarrow>
         via sy_devices sy_devices_update (do_MarkInvalid D now fid) w')\<rparr>"

definition on_prefs :: "(memoryPreferencesStore \<times> ('s, 'q, 'd, 'c) system \<Rightarrow> 'r \<times> memoryPreferencesStore \<times> ('s, 'q, 'd, 'c) system) \<Rightarrow>
    ('s, 'q, 'd, 'c) system \<Rightarrow> 'r \<times> ('s, 'q, 'd, 'c) system" where
  "on_prefs f w = (case f (sy_prefs w, w) of (r, s, w') \<Rightarrow> (r, w'\<lparr>sy_prefs := s\<rparr>))"

definition system_PreferencesStore :: "(nat \<Rightarrow> Time) \<Rightarrow> ('s, 'q, 'd, 'c) system PreferencesStore" where
  "system_PreferencesStore readings =
     (let S = mem_PreferencesStore (system_clock readings) in
      \<lparr>ps_GetPreferences = (\<lambda>u. on_prefs (ps_GetPreferences S u)),
       ps_SavePreferences = (\<lambda>p. on_prefs (ps_SavePreferences S p)),
       ps_IsEventTypeEnabled = (\<lambda>u t. on_prefs (ps_IsEventTypeEnabled S u t))\<rparr>)"

definition system_Cache :: "'c Cache \<Rightarrow> ('s, 'q, 'd, 'c) system Cache" where
  "system_Cache C =
     \<lparr>gc_Get = (\<lambda>k. via sy_cache sy_cache_update (gc_Get C k)),
      gc_Set = (\<lambda>k v ttl tags. via sy_cache sy_cache_update (gc_Set C k v ttl tags)),
      gc_Exists = (\<lambda>k. via sy_cache sy_cache_update (gc_Exists C k)),
      gc_InvalidateTag = (\<lambda>t. via sy_cache sy_cache_update (gc_InvalidateTag C t))\<rparr>"

definition system_Dispatcher :: "'d PushDispatcher \<Rightarrow> ('s, 'q, 'd, 'c) system PushDispatcher" where
  "system_Dispatcher D =
     \<lparr>pd_Send = (\<lambda>ds msg. via sy_disp sy_disp_update (pd_Send D ds msg)),
      pd_SendToTopic = (\<lambda>t msg. via sy_disp sy_disp_update (pd_SendToTopic D t msg))\<rparr>"

definition system_PublishToDLQ ::
  "(nat \<Rightarrow> Time) \<Rightarrow> 'q publish_op \<Rightarrow> Event \<Rightarrow> string \<Rightarrow> ('s, 'q, 'd, 'c) system \<Rightarrow> error option \<times> ('s, 'q, 'd, 'c) system" where
  "system_PublishToDLQ readings publish event reason w =
     (case system_clock readings w of (now, w') \<Rightarrow> via sy_dlq sy_dlq_update (publish now event reason) w')"

section \<open>The service\<close>

definition system_deps :: "('s, 'q, 't, 'd, 'c) wiring \<Rightarrow> ('s, 'q, 'd, 'c) system ServiceDeps" where
  "system_deps W =
     \<lparr>sd_DeviceStore = Some (system_DeviceStore (wr_readings W) (wr_devices W)),
      sd_Dispatcher = Some (system_Dispatcher (wr_dispatcher W)),
      sd_Templates = Some (\<lambda>event w. (BuildMessage (wr_text W) event (wr_templates W), w)),
      sd_Idempotency = Some (cache_IdempotencyStore (system_Cache (wr_cache W)) (system_clock (wr_readings W)) (wr_rfc3339 W)),
      sd_PreferencesFilter = Some (ShouldSendNotification (wr_tzdb W) (system_clock (wr_readings W))
        (system_PreferencesStore (wr_readings W))),
      sd_TopicRouter = None, sd_DLQHandler = Some (system_PublishToDLQ (wr_readings W) (wr_publish W)), sd_EventBus = None,
      sd_Metrics = None, sd_Config = wr_config W,
      sd_WorkerPoolConfig = \<lparr>wpc_Workers = 0, wpc_QueueSize = 0\<rparr>\<rparr>"

definition system_service :: "('s, 'q, 't, 'd, 'c) wiring \<Rightarrow> ('s, 'q, 'd, 'c) system notificationService" where
  "system_service W =
     \<lparr>sv_deviceStore = system_DeviceStore (wr_readings W) (wr_devices W), sv_dispatcher = system_Dispatcher (wr_dispatcher W),
      sv_BuildMessage = (\<lambda>event w. (BuildMessage (wr_text W) event (wr_templates W), w)),
      sv_idempotency = cache_IdempotencyStore (system_Cache (wr_cache W)) (system_clock (wr_readings W)) (wr_rfc3339 W),
      sv_ShouldSend = Some (ShouldSendNotification (wr_tzdb W) (system_clock (wr_readings W))
        (system_PreferencesStore (wr_readings W))),
      sv_ResolveTarget = None, sv_PublishToDLQ = Some (system_PublishToDLQ (wr_readings W) (wr_publish W)), sv_bus = None,
      sv_metrics = None, sv_clock = system_clock (wr_readings W), sv_config = wr_config W\<rparr>"

lemma NewNotificationService_system:
  "NewNotificationService (system_clock (wr_readings W)) (system_deps W) =
     Inr (system_service W,
          if sc_EnableBackpressure (wr_config W)
          then Some (Start \<lparr>wp_workers = 10, wp_cap = 1000, wp_queue = [], wp_queue_closed = False, wp_ctx_canceled = False,
            wp_threads = [], wp_stop = Running, wp_has_metrics = False, wp_skipped = 0, wp_accepted = [], wp_taken = [],
            wp_handled = []\<rparr>) else None)"
  by (simp add: NewNotificationService_def system_deps_def system_service_def NewWorkerPool_def)

section \<open>What the wired components keep of each other\<close>

lemma system_service_simps [simp]:
  "sv_clock (system_service W) = system_clock (wr_readings W)"
  "sv_idempotency (system_service W) =
     cache_IdempotencyStore (system_Cache (wr_cache W)) (system_clock (wr_readings W)) (wr_rfc3339 W)"
  "sv_PublishToDLQ (system_service W) = Some (system_PublishToDLQ (wr_readings W) (wr_publish W))"
  "sv_config (system_service W) = wr_config W" "sv_metrics (system_service W) = None"
  "sv_bus (system_service W) = None" "sv_ResolveTarget (system_service W) = None"
  "sv_deviceStore (system_service W) = system_DeviceStore (wr_readings W) (wr_devices W)"
  "sv_dispatcher (system_service W) = system_Dispatcher (wr_dispatcher W)"
  "sv_BuildMessage (system_service W) = (\<lambda>event w. (BuildMessage (wr_text W) event (wr_templates W), w))"
  "sv_ShouldSend (system_service W) = Some (ShouldSendNotification (wr_tzdb W) (system_clock (wr_readings W))
     (system_PreferencesStore (wr_readings W)))"
  by (simp_all add: system_service_def)

lemma snd_via [simp]: "snd (via get put f w) = put (\<lambda>_. snd (f (get w))) w"
  and fst_via [simp]: "fst (via get put f w) = fst (f (get w))"
  by (simp_all add: via_def split: prod.split)

lemma snd_system_clock [simp]: "snd (system_clock readings w) = w\<lparr>sy_reads := Suc (sy_reads w)\<rparr>"
  and fst_system_clock [simp]: "fst (system_clock readings w) = readings (sy_reads w)"
  by (simp_all add: system_clock_def)

lemma system_GetPreferences:
  "ps_GetPreferences (system_PreferencesStore readings) u w = (mem_GetPreferences u (sy_prefs w), w)"
  by (simp add: system_PreferencesStore_def on_prefs_def mem_PreferencesStore_def)

lemma system_filter_world:
  "snd (ShouldSendNotification tzdb (system_clock readings) (system_PreferencesStore readings) ev w) =
     w \<or> snd (ShouldSendNotification tzdb (system_clock readings) (system_PreferencesStore readings) ev w) =
     w\<lparr>sy_reads := Suc (sy_reads w)\<rparr>"
  by (auto simp: ShouldSendNotification_def system_GetPreferences system_clock_def split: sum.split)

lemma cache_IsProcessed_via:
  "snd (cache_IsProcessed (system_Cache C) s i w) = w\<lparr>sy_cache := snd (gc_Exists C (ci_keyPrefix s @ i) (sy_cache w))\<rparr>"
  by (simp add: cache_IsProcessed_def system_Cache_def via_def split: prod.split sum.split)

lemma cache_MarkProcessed_via:
  "snd (cache_MarkProcessed (system_Cache C) (system_clock readings) fmt s i ttl w) =
     w\<lparr>sy_reads := Suc (sy_reads w),
       sy_cache := snd (gc_Set C (ci_keyPrefix s @ i) (fmt (readings (sy_reads w))) (if ttl < 0 then 0 else ttl) [] (sy_cache w))\<rparr>"
  by (simp add: cache_MarkProcessed_def system_Cache_def via_def system_clock_def Let_def split: prod.split option.split)

text \<open>A property of the stores survives every operation but a prune, a dead-lettering and a mark.\<close>

lemma system_keeps:
  assumes "\<And>n w. I w \<Longrightarrow> I (w\<lparr>sy_reads := n\<rparr>)" "\<And>d w. I w \<Longrightarrow> I (w\<lparr>sy_disp := d\<rparr>)"
    and "\<And>k w. I w \<Longrightarrow> I (w\<lparr>sy_cache := snd (gc_Exists (wr_cache W) k (sy_cache w))\<rparr>)"
    and "\<And>u w. I w \<Longrightarrow> I (w\<lparr>sy_devices := snd (do_GetActiveDevices (wr_devices W) u (sy_devices w))\<rparr>)"
    and "\<And>a w. I w \<Longrightarrow> I (w\<lparr>sy_devices := snd (do_GetActiveDevicesByAnonymousID (wr_devices W) a (sy_devices w))\<rparr>)"
  shows "svc_keeps (system_service W) I"
proof -
  have "I (snd (ShouldSendNotification tzdb (system_clock readings) (system_PreferencesStore readings) e w))" if "I w"
    for tzdb readings e w
    using system_filter_world [of tzdb readings e w] assms(1) [OF that] that by auto
  then show ?thesis using assms
    by (simp add: svc_keeps_def cache_IdempotencyStore_def cache_IsProcessed_via system_DeviceStore_def system_Dispatcher_def)
qed

section \<open>The idempotency store over the cache\<close>

text \<open>
  A cache that keeps what is written to it for as long as the runs considered here last: the marks have not expired.
\<close>

definition cache_durable :: "'c Cache \<Rightarrow> 'c content \<Rightarrow> bool" where
  "cache_durable C content \<longleftrightarrow> cache_retains C content \<and>
     (\<forall>k c. content (snd (gc_Exists C k c)) = content c) \<and>
     (\<forall>k v ttl tags c. fst (gc_Set C k v ttl tags c) = None)"

definition processed :: "'c content \<Rightarrow> ('s, 'q, 'd, 'c) system \<Rightarrow> string \<Rightarrow> bool" where
  "processed content w i \<longleftrightarrow> content (sy_cache w) (ci_keyPrefix NewCacheIdempotencyStore @ i) \<noteq> None"

lemma durable_Exists:
  assumes "cache_durable C content"
  shows "fst (gc_Exists C k c) = Inr (content c k \<noteq> None)" "content (snd (gc_Exists C k c)) = content c"
  using assms unfolding cache_durable_def cache_retains_def by (metis fst_conv, blast)

lemma durable_Set:
  assumes "cache_durable C content" "0 \<le> ttl"
  shows "content (snd (gc_Set C k v ttl tags c)) = (content c)(k \<mapsto> (v, set tags))"
proof -
  have "gc_Set C k v ttl tags c = (None, snd (gc_Set C k v ttl tags c))"
    using assms(1) unfolding cache_durable_def by (metis prod.collapse)
  then show ?thesis using assms unfolding cache_durable_def cache_retains_def by blast
qed

lemma cache_MarkProcessed_content:
  assumes "cache_durable C content"
  shows "\<exists>v. content (sy_cache (snd (cache_MarkProcessed (system_Cache C) (system_clock readings) fmt s i ttl w))) =
    (content (sy_cache w))(ci_keyPrefix s @ i \<mapsto> v)"
  unfolding cache_MarkProcessed_via by (simp add: durable_Set [OF assms]) blast

lemma system_idempotency:
  assumes "cache_durable (wr_cache W) content"
  shows "idempotency_ok (system_service W) (processed content) i"
proof -
  have "fst (is_IsProcessed (sv_idempotency (system_service W)) i w) = Inr (processed content w i)" for w
    using durable_Exists(1) [OF assms, of "ci_keyPrefix NewCacheIdempotencyStore @ i" "sy_cache w"]
    by (auto simp: cache_IdempotencyStore_def cache_IsProcessed_def system_Cache_def via_def processed_def
        split: prod.splits sum.splits)
  moreover have "processed content (snd (is_MarkProcessed (sv_idempotency (system_service W)) j t w)) i \<longleftrightarrow>
      i = j \<or> processed content w i" for j t w
    using cache_MarkProcessed_content [OF assms, of "wr_readings W" "wr_rfc3339 W" NewCacheIdempotencyStore j t w]
    by (auto simp: cache_IdempotencyStore_def processed_def)
  moreover have "svc_keeps (system_service W) (\<lambda>w. processed content w i)"
    by (rule system_keeps) (simp_all add: processed_def durable_Exists [OF assms])
  ultimately show ?thesis
    by (simp add: idempotency_ok_def dlq_keeps_def mark_keeps_def prune_keeps_def system_PublishToDLQ_def
        system_DeviceStore_def system_clock_def processed_def)
qed

lemma processed_keeps:
  assumes "cache_durable (wr_cache W) content" "processed content w i"
  shows "processed content (snd (processEvent (system_service W) ev w)) i"
  using system_idempotency [OF assms(1), of i] assms(2) unfolding idempotency_ok_def
  by (elim conjE) (rule processEvent_keeps [where I = "\<lambda>w. processed content w i"])

text \<open>A duplicate costs two readings of the clock and one lookup; nothing else in the world changes.\<close>

lemma system_duplicate:
  assumes "cache_durable (wr_cache W) content" "event_Validate ev = None" "processed content w (ev_EventID ev)"
  shows "\<exists>r c. processEvent (system_service W) ev w =
      (Ret (r, None), w\<lparr>sy_cache := c, sy_reads := sy_reads w + 2\<rparr>) \<and> content c = content (sy_cache w) \<and>
      pr_Skipped r \<and> pr_SkipReason r = ''already_processed'' \<and> pr_DispatchResult r = zero_result"
proof -
  let ?k = "ci_keyPrefix NewCacheIdempotencyStore @ ev_EventID ev"
  note x = durable_Exists [OF assms(1), of ?k "sy_cache w"]
  obtain y c where e: "gc_Exists (wr_cache W) ?k (sy_cache w) = (y, c)" by (rule prod.exhaust)
  with x assms(3) have "y = Inr True" "content c = content (sy_cache w)" by (simp_all add: processed_def)
  then show ?thesis using assms(2) e
    by (simp add: processEvent_def cache_IdempotencyStore_def cache_IsProcessed_def system_Cache_def via_def
        system_clock_def svc_skip_def init_result_def) (intro exI [of _ c] conjI refl)
qed

section \<open>Events from Kafka\<close>

text \<open>
  The handler given to the consumer is \<^verbatim>\<open>Submit\<close> of a service without backpressure, and no call of it panics.
\<close>

definition submitting :: "'w notificationService \<Rightarrow> 'w event_handler \<Rightarrow> bool" where
  "submitting s h \<longleftrightarrow> (\<forall>ev w. svc_Submit s False ev (None, w) = (Ret (fst (h ev w)), None, snd (h ev w)))"

lemma submitting_process:
  assumes "submitting s h"
  obtains r where "processEvent s ev w = (Ret (r, fst (h ev w)), snd (h ev w))"
proof -
  have "svc_Submit s False ev (None, w) = (Ret (fst (h ev w)), None, snd (h ev w))"
    using assms unfolding submitting_def by blast
  then show thesis using that by (auto simp: svc_Submit_def split: prod.splits go.splits)
qed

lemma submitting_call:
  assumes "submitting s h" "processEvent s ev w = (Ret (r, err), w')"
  shows "h ev w = (err, w')"
proof -
  obtain r' where "processEvent s ev w = (Ret (r', fst (h ev w)), snd (h ev w))"
    by (rule submitting_process [OF assms(1)])
  with assms(2) show ?thesis by (simp add: prod_eq_iff)
qed

lemma handled_keeps:
  assumes "submitting s h" "\<And>ev w. I w \<Longrightarrow> I (snd (processEvent s ev w))"
  shows "I w \<Longrightarrow> I (handled J h ms w)"
proof (induction ms arbitrary: w)
  case (Cons m ms)
  have "I (snd (h ev w))" for ev
    using submitting_process [OF assms(1), of ev w] assms(2) [OF Cons.prems, of ev] by (metis snd_conv)
  with Cons show ?case by (simp split: option.split)
qed simp

lemma handled_append: "handled J h (ms @ ms') w = handled J h ms' (handled J h ms w)"
  by (simp add: handled_def map_filter_def)

section \<open>Pruning and dead-lettering in the wired stores\<close>

lemma markInvalid_dlq: "sy_dlq (markInvalidFIDs (system_service W) dr w) = sy_dlq w"
proof -
  have "prune_keeps (system_service W) (\<lambda>w'. sy_dlq w' = sy_dlq w)"
    by (simp add: prune_keeps_def system_DeviceStore_def system_clock_def)
  from keeps_markInvalidFIDs [OF disjI1, OF this, of w dr] show ?thesis by simp
qed

text \<open>
  A device store as the service meets it: the operations it calls are those of a store that keeps its contract.
\<close>

locale wired_devices = device_store +
  fixes ops :: "'a device_ops"
  assumes ops_get: "inv s \<Longrightarrow> do_GetActiveDevices ops u s = (Inr (get u s), s)"
    and ops_anon: "inv s \<Longrightarrow> do_GetActiveDevicesByAnonymousID ops a s = (Inr (get_anon a s), s)"
    and ops_mark: "snd (do_MarkInvalid ops now fid s) = mark now fid s"
begin

lemma devices_keeps:
  assumes "wr_devices W = ops" "inv x"
  shows "svc_keeps (system_service W) (\<lambda>v. sy_devices v = x)"
  by (rule system_keeps) (simp_all add: assms ops_get ops_anon)

lemma devices_kept:
  assumes "wr_devices W = ops" "inv (sy_devices w)" "keeps_from (system_service W) w v"
  shows "sy_devices v = sy_devices w"
  using keeps_fromD [OF assms(3) devices_keeps [OF assms(1,2)]] by simp

lemma mark_fids_devices:
  assumes "wr_devices W = ops"
  shows "\<exists>ms. map snd ms = fids \<and> sy_devices (mark_fids (system_service W) fids w) =
     foldl (\<lambda>s (now, fid). mark now fid s) (sy_devices w) ms"
proof (induction fids arbitrary: w)
  case (Cons fid fids)
  let ?w = "snd (ds_MarkInvalid (system_DeviceStore (wr_readings W) (wr_devices W)) fid w)"
  obtain ms where ms: "map snd ms = fids" "sy_devices (mark_fids (system_service W) fids ?w) =
      foldl (\<lambda>s (now, fid). mark now fid s) (sy_devices ?w) ms"
    using Cons [of ?w] by blast
  show ?case
    by (rule exI [of _ "(wr_readings W (sy_reads w), fid) # ms"])
      (use ms in \<open>simp add: system_DeviceStore_def system_clock_def assms ops_mark\<close>)
qed simp

lemma markInvalid_devices:
  assumes "wr_devices W = ops"
  shows "\<exists>ms. map snd ms = dr_InvalidFIDs dr \<and> sy_devices (markInvalidFIDs (system_service W) dr w) =
     foldl (\<lambda>s (now, fid). mark now fid s) (sy_devices w) ms"
  using mark_fids_devices [OF assms, of "dr_InvalidFIDs dr" w] by (auto simp: markInvalidFIDs_def)

text \<open>What is left after a dispatch: the devices that were active, less the FIDs it reported as invalid.\<close>

lemma pruned:
  assumes "wr_devices W = ops" "inv (sy_devices w)" "event_Validate ev = None"
    and "processEvent (system_service W) ev w = (Ret (r, None), w1)" "\<not> pr_Skipped r"
  shows "set (get u (sy_devices w1)) =
           {d \<in> set (get u (sy_devices w)). dev_FID d \<notin> set (dr_InvalidFIDs (pr_DispatchResult r))} \<and> inv (sy_devices w1)"
proof -
  let ?S = "system_service W" and ?dr = "pr_DispatchResult r"
  obtain st r1 d w4 where w4: "keeps_from ?S w w4" and fin: "finish_event ?S ev st r1 ?dr d w4 = (r, w1)"
    by (rule processEvent_finish [OF assms(4,3,5)])
  note same = devices_kept [OF assms(1,2) w4]
  obtain ms where ms: "map snd ms = dr_InvalidFIDs ?dr"
    "sy_devices (markInvalidFIDs ?S ?dr w4) = foldl (\<lambda>s (now, fid). mark now fid s) (sy_devices w4) ms"
    using markInvalid_devices [OF assms(1)] by blast
  then have "snd ` set ms = set (dr_InvalidFIDs ?dr)" by (metis set_map)
  moreover have left: "inv (foldl (\<lambda>s (now, fid). mark now fid s) (sy_devices w) ms)" by (rule marks_inv [OF assms(2)])
  moreover have "sy_devices w1 = foldl (\<lambda>s (now, fid). mark now fid s) (sy_devices w) ms"
    by (rule finish_event_from_dlq [OF _ _ fin, where I = "\<lambda>v. sy_devices v = foldl (\<lambda>s (now, fid). mark now fid s) (sy_devices w) ms"])
      (simp_all add: devices_keeps [OF assms(1) left] mark_keeps_def cache_IdempotencyStore_def cache_MarkProcessed_via
        publishToDLQIfUnresolved_def system_PublishToDLQ_def system_clock_def ms(2) same)
  ultimately show ?thesis using get_marks [OF assms(2), of u ms] by simp
qed

end

interpretation mem_wired: wired_devices "\<lambda>t. t" mds_inv device_at mem_GetActiveDevices mem_GetActiveDevicesByAnonymousID
  mem_MarkInvalid mem_SaveDevice mem_DeleteDevice memory_devices
  by unfold_locales (simp_all add: memory_devices_def)

interpretation pg_wired: wired_devices micros pg_dev_inv pg_device_at
  "\<lambda>u s. value_or [] (fst (pg_GetActiveDevices u s))" "\<lambda>a s. value_or [] (fst (pg_GetActiveDevicesByAnonymousID a s))"
  "\<lambda>now fid s. snd (pg_MarkInvalid now fid s)" pg_SaveDevice "\<lambda>fid s. snd (pg_DeleteDevice fid s)" postgres_devices
  by unfold_locales
    (simp_all add: postgres_devices_def pg_dev_inv_def healthy_def pg_device_ops value_or_def)

interpretation mongo_wired: wired_devices millis mongo_dev_inv mongo_device_at
  "\<lambda>u s. value_or [] (fst (mongo_GetActiveDevices u s))"
  "\<lambda>a s. value_or [] (fst (mongo_GetActiveDevicesByAnonymousID a s))"
  "\<lambda>now fid s. snd (mongo_MarkInvalid now fid s)" mongo_SaveDevice "\<lambda>fid s. snd (mongo_DeleteDevice fid s)" mongo_devices
  by unfold_locales
    (simp_all add: mongo_devices_def mongo_dev_inv_def healthy_def mongo_device_ops value_or_def)

text \<open>Unresolved failures leave the event in the dead-letter queue, and nothing else changes there.\<close>

lemma unresolved_published:
  fixes w :: "('s, 'q, 'd, 'c) system"
  assumes "processEvent (system_service W) ev w = (Ret (r, None), w1)" "event_Validate ev = None" "\<not> pr_Skipped r"
    and "sc_EnableDLQ (wr_config W)" "unresolved (pr_DispatchResult r) > 0"
  shows "\<exists>n. sy_dlq w1 = snd (wr_publish W (wr_readings W n) ev (joinDispatchErrors (dr_Errors (pr_DispatchResult r))) (sy_dlq w))"
proof -
  let ?S = "system_service W" and ?dr = "pr_DispatchResult r"
  obtain st r1 d w4 where w4: "keeps_from ?S w w4" and fin: "finish_event ?S ev st r1 ?dr d w4 = (r, w1)"
    by (rule processEvent_finish [OF assms(1-3)])
  have "svc_keeps ?S (\<lambda>w'. sy_dlq w' = sy_dlq w)" by (rule system_keeps) simp_all
  from keeps_fromD [OF w4 this] have same: "sy_dlq (markInvalidFIDs ?S ?dr w4) = sy_dlq w"
    by (simp add: markInvalid_dlq)
  define dead :: "('s, 'q, 'd, 'c) system \<Rightarrow> bool" where "dead = (\<lambda>w'. \<exists>n.
    sy_dlq w' = snd (wr_publish W (wr_readings W n) ev (joinDispatchErrors (dr_Errors ?dr)) (sy_dlq w)))"
  have keeps: "svc_keeps ?S dead" by (rule system_keeps) (simp_all add: dead_def)
  have marks: "mark_keeps ?S dead"
    by (simp add: mark_keeps_def dead_def cache_IdempotencyStore_def cache_MarkProcessed_via)
  have pub: "dead (snd (system_PublishToDLQ (wr_readings W) (wr_publish W) ev (joinDispatchErrors (dr_Errors ?dr))
      (markInvalidFIDs ?S ?dr w4)))"
    by (auto simp: dead_def system_PublishToDLQ_def system_clock_def same)
  have "dead w1"
    by (rule finish_event_dead_letters [where I = dead and f = "system_PublishToDLQ (wr_readings W) (wr_publish W)",
          OF keeps marks _ _ pub assms(5) fin]) (simp_all add: assms(4))
  then show ?thesis by (simp add: dead_def)
qed

lemma claim_hands_out_due:
  assumes "mdh_inv h" "dlq_at h i = Some e" "retryable now e"
  shows "retrying now e \<in> set (fst (mem_ClaimRetryableEvents now 0 h))"
proof -
  obtain es h' where c: "mem_ClaimRetryableEvents now 0 h = (es, h')" by (rule prod.exhaust)
  have "(i, e) \<in> set (mdh_events h)" using assms(2) by (rule map_of_SomeD)
  then have "(i, e) \<in> set (candidates now 0 h)" using assms(3) by (simp add: candidates_def)
  then have "retrying now e \<in> set es" unfolding mem_Claim_spec(1) [OF assms(1) c] by force
  with c show ?thesis by simp
qed

lemma undelivered_claimed:
  fixes w :: "('s, memoryDLQHandler, 'd, 'c) system"
  assumes "wr_publish W = memory_publish" "mdh_inv (sy_dlq w)" "event_Validate ev = None" "sc_EnableDLQ (wr_config W)"
    and "processEvent (system_service W) ev w = (Ret (r, None), w1)" "\<not> pr_Skipped r"
    and "unresolved (pr_DispatchResult r) > 0" "dlq_at (sy_dlq w) (ev_EventID ev) = None"
    and "\<forall>n. wr_readings W n \<le> t" "time_add t (bc_retryDelay (mdh_config (sy_dlq w))) \<le> now"
  shows "\<exists>e \<in> set (fst (mem_ClaimRetryableEvents now 0 (sy_dlq w1))).
           dq_Event e = ev \<and> dq_RetryCount e = 0 \<and> dq_Status e = DLQStatusRetrying \<and>
           dq_FailureReason e = joinDispatchErrors (dr_Errors (pr_DispatchResult r))"
proof -
  let ?dr = "pr_DispatchResult r"
  obtain n where n: "sy_dlq w1 = mem_PublishToDLQ (wr_readings W n) ev (joinDispatchErrors (dr_Errors ?dr)) (sy_dlq w)"
    using unresolved_published [OF assms(5,3,6,4,7)] by (auto simp: assms(1) memory_publish_def)
  have due: "time_add (wr_readings W n) (bc_retryDelay (mdh_config (sy_dlq w))) \<le> now"
    using assms(9) [rule_format, of n] assms(10) by (simp add: time_add_def)
  obtain e where e: "dlq_at (sy_dlq w1) (ev_EventID ev) = Some e" "dq_Event e = ev" "dq_RetryCount e = 0"
    "dq_FailureReason e = joinDispatchErrors (dr_Errors ?dr)" "retryable now e"
    using assms(8) due by (simp add: n mem_PublishToDLQ_def retryable_def)
  have "mdh_inv (sy_dlq w1)" unfolding n by (rule mem_Publish_inv [OF assms(2)])
  from claim_hands_out_due [OF this e(1,5)] show ?thesis by (rule rev_bexI) (simp add: e(2-4))
qed

section \<open>Properties\<close>

text \<open>A small instance: one device, one template, and a dispatcher that counts its calls and answers as it is told.\<close>

definition scripted :: "(Device list \<Rightarrow> DispatchResult) \<Rightarrow> nat PushDispatcher" where
  "scripted answer =
     \<lparr>pd_Send = (\<lambda>ds msg n. (Ret (answer ds, None), Suc n)), pd_SendToTopic = (\<lambda>t msg n. (None, Suc n))\<rparr>"

definition plain_text :: "string text_lib" where
  "plain_text = \<lparr>tx_Parse = Inr, tx_Execute = (\<lambda>t data. Inr t), tx_ParseDuration = (\<lambda>s. None)\<rparr>"

definition demo_wiring_on :: "'s device_ops \<Rightarrow> (Device list \<Rightarrow> DispatchResult) \<Rightarrow> ('s, memoryDLQHandler, string, nat, list_cache) wiring" where
  "demo_wiring_on D answer =
     \<lparr>wr_devices = D, wr_publish = memory_publish, wr_text = plain_text,
      wr_templates = snd (RegisterTemplate plain_text ''order'' (simple_template ''Hi'' ''There'' [] [] []) []),
      wr_tzdb = demo_tzdb, wr_cache = list_Cache, wr_rfc3339 = (\<lambda>t. ''now''), wr_dispatcher = scripted answer,
      wr_readings = (\<lambda>n. 100), wr_config = DefaultServiceConfig\<lparr>sc_EnablePreferencesFilter := True\<rparr>\<rparr>"

definition demo_system_on :: "'s \<Rightarrow> ('s, memoryDLQHandler, nat, list_cache) system" where
  "demo_system_on s = \<lparr>sy_devices = s, sy_prefs = NewMemoryPreferencesStore, sy_dlq = NewMemoryDLQHandler 3 0 0,
     sy_cache = [], sy_disp = 0, sy_reads = 0\<rparr>"

abbreviation demo_wiring :: "(Device list \<Rightarrow> DispatchResult) \<Rightarrow> (memoryDeviceStore, memoryDLQHandler, string, nat, list_cache) wiring" where
  "demo_wiring \<equiv> demo_wiring_on memory_devices"

abbreviation demo_system :: "(memoryDeviceStore, memoryDLQHandler, nat, list_cache) system" where
  "demo_system \<equiv> demo_system_on demo_store"

lemma list_Cache_durable: "cache_durable list_Cache list_content"
  using list_Cache_retains by (simp add: cache_durable_def) (simp add: list_Cache_def)

lemma demo_wiring_simps [simp]:
  "wr_devices (demo_wiring_on D answer) = D" "wr_publish (demo_wiring_on D answer) = memory_publish" "wr_cache (demo_wiring_on D answer) = list_Cache" "wr_config (demo_wiring_on D answer) = DefaultServiceConfig\<lparr>sc_EnablePreferencesFilter := True\<rparr>"
  "wr_readings (demo_wiring_on D answer) = (\<lambda>n. 100)" "wr_tzdb (demo_wiring_on D answer) = demo_tzdb"
  "wr_dispatcher (demo_wiring_on D answer) = scripted answer" "wr_rfc3339 (demo_wiring_on D answer) = (\<lambda>t. ''now'')"
  by (simp_all add: demo_wiring_on_def)

lemma demo_message: "\<exists>msg. BuildMessage (wr_text (demo_wiring_on D answer)) demo_event (wr_templates (demo_wiring_on D answer)) = Inr msg"
  by (simp add: demo_wiring_on_def plain_text_def BuildMessage_def RegisterTemplate_def compileTemplate_def simple_template_def
      demo_event_def renderMessage_def Let_def)

lemma demo_active: "\<exists>d. mem_GetActiveDevices ''u1'' demo_store = [d] \<and> dev_FID d = ''cabcdefghijklmnopqrstu''"
  by (simp add: demo_store_def demo_device_def direct_device_def mem_SaveDevice_def device_Validate_def
      fid_char_def NewMemoryDeviceStore_def mem_GetActiveDevices_def)

text \<open>The first run of an event: its result is the answer of the dispatcher.\<close>

lemma demo_first_run:
  assumes "\<And>ds. TotalCount (answer ds) \<noteq> 0" "do_GetActiveDevices D ''u1'' s = (Inr [d], s)"
  shows "\<exists>r w1. processEvent (system_service (demo_wiring_on D answer)) demo_event (demo_system_on s) = (Ret (r, None), w1) \<and>
    \<not> pr_Skipped r \<and> pr_DispatchResult r = answer [d]"
proof -
  obtain msg where m: "BuildMessage (wr_text (demo_wiring_on D answer)) demo_event (wr_templates (demo_wiring_on D answer)) = Inr msg"
    using demo_message by blast
  show ?thesis
    by (simp add: processEvent_def build_and_dispatch_def m svc_dispatch_def resolveDevicesForEvent_def demo_event_valid
        system_clock_def cache_IdempotencyStore_def cache_IsProcessed_def system_Cache_def via_def list_Cache_def
        ShouldSendNotification_def system_GetPreferences mem_GetPreferences_def demo_system_on_def NewMemoryPreferencesStore_def
        system_DeviceStore_def system_Dispatcher_def scripted_def dispatchToDevices_def DefaultServiceConfig_def assms
        init_result_def finish_event_def Let_def split_beta)
qed

lemma demo_memory_run:
  assumes "\<And>ds. TotalCount (answer ds) \<noteq> 0"
  shows "\<exists>d r w1. processEvent (system_service (demo_wiring answer)) demo_event demo_system = (Ret (r, None), w1) \<and>
    \<not> pr_Skipped r \<and> pr_DispatchResult r = answer [d]"
proof -
  obtain d where "mem_GetActiveDevices ''u1'' demo_store = [d]" using demo_active by blast
  then have "do_GetActiveDevices memory_devices ''u1'' demo_store = (Inr [d], demo_store)" by (simp add: memory_devices_def)
  from demo_first_run [of answer, OF assms this] show ?thesis by blast
qed

definition demo_handler :: "(Device list \<Rightarrow> DispatchResult) \<Rightarrow> (memoryDeviceStore, memoryDLQHandler, nat, list_cache) system event_handler" where
  "demo_handler answer ev w =
     (case processEvent (system_service (demo_wiring answer)) ev w of
        (Ret (r, e), w') \<Rightarrow> (e, w') | (Panic p, w') \<Rightarrow> (None, w'))"

lemma demo_submitting: "submitting (system_service (demo_wiring answer)) (demo_handler answer)"
proof -
  let ?S = "system_service (demo_wiring answer)"
  have "\<exists>x n w'. svc_dispatch ?S ev msg w = (Ret x, n, w')" for ev msg w
    by (simp add: svc_dispatch_def resolveDevicesForEvent_def dispatchToDevices_def system_DeviceStore_def
        memory_devices_def system_Dispatcher_def scripted_def via_def DefaultServiceConfig_def Let_def split: sum.split)
  then have "\<exists>r e w'. processEvent ?S ev w = (Ret (r, e), w')" for ev w
    by (intro processEvent_returns [of ?S "\<lambda>_. True"]) (simp_all add: system_keeps)
  then show ?thesis
    by (auto simp: submitting_def svc_Submit_def demo_handler_def split: prod.split go.split)
      (metis Pair_inject go.distinct(1))+
qed


abbreviation demo_sent :: "Device list \<Rightarrow> DispatchResult" where
  "demo_sent \<equiv> \<lambda>ds. zero_result\<lparr>dr_SuccessCount := 1\<rparr>"


text \<open>
  After a dispatch each user's active devices are exactly those that were active before, less the FIDs that the dispatch
  reported as invalid.
\<close>

definition prunes_exactly ::
  "('s \<Rightarrow> bool) \<Rightarrow> (string \<Rightarrow> 's \<Rightarrow> Device list) \<Rightarrow> ('s, 'q, 't, 'd, 'c) wiring \<Rightarrow> Event \<Rightarrow> ('s, 'q, 'd, 'c) system \<Rightarrow> bool" where
  "prunes_exactly good get W ev w \<longleftrightarrow>
     (case processEvent (system_service W) ev w of
        (Ret (r, None), w1) \<Rightarrow> pr_Skipped r \<or> good (sy_devices w1) \<and>
          (\<forall>u. set (get u (sy_devices w1)) =
             {d \<in> set (get u (sy_devices w)). dev_FID d \<notin> set (dr_InvalidFIDs (pr_DispatchResult r))})
      | _ \<Rightarrow> True)"

lemma prunes_exactlyI:
  assumes "\<And>r w1 u. processEvent (system_service W) ev w = (Ret (r, None), w1) \<Longrightarrow> \<not> pr_Skipped r \<Longrightarrow>
    set (get u (sy_devices w1)) =
      {d \<in> set (get u (sy_devices w)). dev_FID d \<notin> set (dr_InvalidFIDs (pr_DispatchResult r))} \<and> good (sy_devices w1)"
  shows "prunes_exactly good get W ev w"
proof -
  obtain x w1 where x: "processEvent (system_service W) ev w = (x, w1)" by (rule prod.exhaust)
  show ?thesis
  proof (cases x)
    case (Ret y)
    obtain r e where y: "y = (r, e)" by (rule prod.exhaust)
    show ?thesis using assms [of r w1] x Ret y by (cases e) (auto simp: prunes_exactly_def)
  qed (simp add: prunes_exactly_def x)
qed

text \<open>
  C11. A device that FCM reports as gone is not tried again, whichever store the service is wired to: on the in-memory, the
  Postgres and the Mongo store each user's active devices after a dispatch are exactly those that were active before,
  less the FIDs the dispatch reported as invalid; no other device is lost.
\<close>

theorem invalid_devices_pruned:
  fixes Wm :: "(memoryDeviceStore, 'q, 't, 'd, 'c) wiring" and Wp :: "(postgresDeviceStore, 'q, 't, 'd, 'c) wiring"
    and Wg :: "(mongoDeviceStore, 'q, 't, 'd, 'c) wiring"
  assumes "event_Validate ev = None"
    and "wr_devices Wm = memory_devices" and "mds_inv (sy_devices wm)"
    and "wr_devices Wp = postgres_devices" and "pg_dev_inv (sy_devices wp)"
    and "wr_devices Wg = mongo_devices" and "mongo_dev_inv (sy_devices wg)"
  shows "prunes_exactly mds_inv mem_GetActiveDevices Wm ev wm \<and>
         prunes_exactly pg_dev_inv (\<lambda>u s. value_or [] (fst (pg_GetActiveDevices u s))) Wp ev wp \<and>
         prunes_exactly mongo_dev_inv (\<lambda>u s. value_or [] (fst (mongo_GetActiveDevices u s))) Wg ev wg"
  by (intro conjI prunes_exactlyI mem_wired.pruned [OF assms(2,3,1)] pg_wired.pruned [OF assms(4,5,1)]
      mongo_wired.pruned [OF assms(6,7,1)])

abbreviation demo_gone :: "Device list \<Rightarrow> DispatchResult" where
  "demo_gone \<equiv> \<lambda>ds. zero_result\<lparr>dr_FailureCount := 1, dr_InvalidFIDs := [''cabcdefghijklmnopqrstu'']\<rparr>"

text \<open>The same device in the three stores; its only push fails with an unregistered FID.\<close>

definition demo_pg_store :: postgresDeviceStore where
  "demo_pg_store = snd (pg_SaveDevice 5 demo_device new_backend)"

definition demo_mongo_store :: mongoDeviceStore where
  "demo_mongo_store = snd (mongo_SaveDevice 5 demo_device new_backend)"

lemma demo_stores_inv: "pg_dev_inv demo_pg_store" "mongo_dev_inv demo_mongo_store"
  unfolding demo_pg_store_def demo_mongo_store_def
  by (rule pg_dev.save_inv, simp add: pg_dev_inv_def healthy_def new_backend_def keyed_def)
    (rule mongo_dev.save_inv, simp add: mongo_dev_inv_def healthy_def new_backend_def keyed_def)

lemma prunes_all:
  assumes "prunes_exactly good get W ev w" "processEvent (system_service W) ev w = (Ret (r, None), w1)" "\<not> pr_Skipped r"
    and "set (get u (sy_devices w)) \<subseteq> {d. dev_FID d \<in> set (dr_InvalidFIDs (pr_DispatchResult r))}"
  shows "get u (sy_devices w1) = []"
proof -
  have left: "set (get u (sy_devices w1)) =
      {d \<in> set (get u (sy_devices w)). dev_FID d \<notin> set (dr_InvalidFIDs (pr_DispatchResult r))}"
    using assms(1) unfolding prunes_exactly_def assms(2) by (simp add: assms(3))
  have "set (get u (sy_devices w1)) = {}" unfolding left using assms(4) by (intro equalityI subsetI) auto
  then show ?thesis by simp
qed

theorem invalid_devices_pruned_witness:
  "mem_GetActiveDevices ''u1'' (sy_devices demo_system) \<noteq> [] \<and>
   mem_GetActiveDevices ''u1'' (sy_devices (snd (processEvent (system_service (demo_wiring demo_gone)) demo_event demo_system))) = [] \<and>
   prunes_exactly pg_dev_inv (\<lambda>u s. value_or [] (fst (pg_GetActiveDevices u s))) (demo_wiring_on postgres_devices demo_gone)
     demo_event (demo_system_on demo_pg_store) \<and>
   prunes_exactly mongo_dev_inv (\<lambda>u s. value_or [] (fst (mongo_GetActiveDevices u s))) (demo_wiring_on mongo_devices demo_gone)
     demo_event (demo_system_on demo_mongo_store)"
proof -
  obtain r w1 where run: "processEvent (system_service (demo_wiring demo_gone)) demo_event demo_system = (Ret (r, None), w1)"
    "\<not> pr_Skipped r" "pr_DispatchResult r = demo_gone []"
    using demo_memory_run [of demo_gone] by (auto simp: TotalCount_def)
  obtain d where d: "mem_GetActiveDevices ''u1'' demo_store = [d]" "dev_FID d = ''cabcdefghijklmnopqrstu''"
    using demo_active by blast
  have all: "prunes_exactly mds_inv mem_GetActiveDevices (demo_wiring demo_gone) demo_event demo_system \<and>
    prunes_exactly pg_dev_inv (\<lambda>u s. value_or [] (fst (pg_GetActiveDevices u s))) (demo_wiring_on postgres_devices demo_gone)
      demo_event (demo_system_on demo_pg_store) \<and>
    prunes_exactly mongo_dev_inv (\<lambda>u s. value_or [] (fst (mongo_GetActiveDevices u s))) (demo_wiring_on mongo_devices demo_gone)
      demo_event (demo_system_on demo_mongo_store)"
    by (rule invalid_devices_pruned)
      (simp_all add: demo_event_valid demo_system_on_def demo_store_inv demo_stores_inv)
  have "mem_GetActiveDevices ''u1'' (sy_devices w1) = []"
    by (rule prunes_all [OF all [THEN conjunct1] run(1,2)]) (use run(3) d in \<open>simp add: demo_system_on_def\<close>)
  then show ?thesis using all run d by (simp add: demo_system_on_def)
qed


abbreviation demo_failed :: "Device list \<Rightarrow> DispatchResult" where
  "demo_failed \<equiv> \<lambda>ds. zero_result\<lparr>dr_FailureCount := 1\<rparr>"


text \<open>
  C25. A user who opted out is left alone: if the stored preferences say no at the moment of the check, the event is skipped with
  that reason, nothing is sent, and it is not marked as processed.
\<close>

theorem opted_out_user_untouched:
  assumes "cache_durable (wr_cache W) content" "event_Validate ev = None" "\<not> processed content w (ev_EventID ev)"
    and "sc_EnablePreferencesFilter (wr_config W)" "IsAuthenticated ev"
    and "verdict (wr_tzdb W) (map_of (mps_byUID (sy_prefs w)) (ev_UserID ev)) (ev_Type ev) (wr_readings W (sy_reads w + 1)) =
           (False, reason, None)"
  shows "\<exists>r n c. processEvent (system_service W) ev w = (Ret (r, None), w\<lparr>sy_cache := c, sy_reads := n\<rparr>) \<and>
           pr_Skipped r \<and> pr_SkipReason r = ''preferences_'' @ reason \<and> content c = content (sy_cache w)"
proof -
  let ?k = "ci_keyPrefix NewCacheIdempotencyStore @ ev_EventID ev"
  obtain y c where e: "gc_Exists (wr_cache W) ?k (sy_cache w) = (y, c)" by (rule prod.exhaust)
  with durable_Exists [OF assms(1), of ?k "sy_cache w"] assms(3)
  have y: "y = Inr False" and c: "content c = content (sy_cache w)" by (simp_all add: processed_def)
  define w2 where "w2 = w\<lparr>sy_reads := Suc (sy_reads w), sy_cache := c\<rparr>"
  let ?filter = "ShouldSendNotification (wr_tzdb W) (system_clock (wr_readings W)) (system_PreferencesStore (wr_readings W)) ev w2"
  have "fst ?filter = verdict (wr_tzdb W) (map_of (mps_byUID (sy_prefs w2)) (ev_UserID ev)) (ev_Type ev)
      (fst (system_clock (wr_readings W) w2))"
    by (rule ShouldSend_verdict [OF assms(5) system_GetPreferences])
      (simp add: mem_GetPreferences_def split: option.split)
  then have no: "fst ?filter = (False, reason, None)" using assms(6) by (simp add: w2_def)
  obtain n where w3: "snd ?filter = w2\<lparr>sy_reads := n\<rparr>"
    using system_filter_world [of "wr_tzdb W" "wr_readings W" ev w2] by (cases w2) force
  have f: "?filter = ((False, reason, None), w2\<lparr>sy_reads := n\<rparr>)" using no w3 by (simp add: prod_eq_iff)
  have "\<exists>r. processEvent (system_service W) ev w = (Ret (r, None), w\<lparr>sy_cache := c, sy_reads := Suc n\<rparr>) \<and>
      pr_Skipped r \<and> pr_SkipReason r = ''preferences_'' @ reason"
    using assms(2,4,5) e y f
    by (simp add: processEvent_def cache_IdempotencyStore_def cache_IsProcessed_def system_Cache_def via_def
        system_clock_def svc_skip_def w2_def)
  then show ?thesis using c by blast
qed

theorem opted_out_user_untouched_witness:
  "\<exists>w. mps_byUID (sy_prefs w) \<noteq> [] \<and>
     sy_disp (snd (processEvent (system_service (demo_wiring demo_sent)) demo_event w)) = sy_disp w \<and>
     sy_dlq (snd (processEvent (system_service (demo_wiring demo_sent)) demo_event w)) = sy_dlq w"
proof -
  let ?w = "demo_system\<lparr>sy_prefs := snd (mem_SavePreferences 5 (demo_prefs\<lparr>np_GlobalEnabled := False\<rparr>) NewMemoryPreferencesStore)\<rparr>"
  have prefs: "\<exists>p. mps_byUID (sy_prefs ?w) = [(''u1'', p)] \<and> \<not> np_GlobalEnabled p"
    by (simp add: mem_SavePreferences_def demo_prefs_def NewMemoryPreferencesStore_def Let_def)
  then have "verdict demo_tzdb (map_of (mps_byUID (sy_prefs ?w)) (ev_UserID demo_event)) (ev_Type demo_event) 100 =
      (False, ''global_disabled'', None)"
    by (auto simp: demo_event_valid)
  moreover have "\<not> processed list_content ?w (ev_EventID demo_event)"
    by (simp add: processed_def list_content_def demo_system_on_def)
  ultimately obtain r n c where
    "processEvent (system_service (demo_wiring demo_sent)) demo_event ?w = (Ret (r, None), ?w\<lparr>sy_cache := c, sy_reads := n\<rparr>)"
    using opted_out_user_untouched [of "demo_wiring demo_sent" list_content demo_event ?w "''global_disabled''"]
    by (auto simp: list_Cache_durable demo_event_valid)
  then show ?thesis using prefs by (intro exI [of _ ?w]) auto
qed

end
