(* ===== verification/Grnoti_Delivery.thy ===== *)
theory Grnoti_Delivery
  imports Grnoti_System
begin

text \<open>
  The FCM dispatcher in the place of the service's \<^verbatim>\<open>PushDispatcher\<close>: what the wired service as a whole does with the
  devices of an event.
\<close>

section \<open>The dispatcher in the system\<close>

definition fcm_PushDispatcher ::
  "'w fcmDispatcher \<Rightarrow> ((Platform \<times> Device list) list \<Rightarrow> (Platform \<times> Device list) list) \<Rightarrow> 'w dstate PushDispatcher" where
  "fcm_PushDispatcher d order = \<lparr>pd_Send = fcm_Send d order, pd_SendToTopic = SendToTopic d\<rparr>"

text \<open>The contract of the dispatcher survives its embedding into the world.\<close>

interpretation wired_fcm: push_dispatcher
  "\<lambda>(d, order). disp_ok d \<and> (\<forall>gs. mset (order gs) = mset gs)"
  "\<lambda>(d, order) devices msg. via sy_disp (sy_disp_update :: _ \<Rightarrow> ('s, 'q, 'w dstate, 'c) system \<Rightarrow> _) (fcm_Send d order devices msg)"
proof unfold_locales
  fix dd :: "'w fcmDispatcher \<times> ((string \<times> Device list) list \<Rightarrow> (string \<times> Device list) list)"
    and devices :: "Device list" and msg and w :: "('s, 'q, 'w dstate, 'c) system"
  obtain d order where dd: "dd = (d, order)" by (cases dd)
  assume "case dd of (d, order) \<Rightarrow> disp_ok d \<and> (\<forall>gs. mset (order gs) = mset gs)" "devices \<noteq> []"
    "distinct (map dev_FID devices)" "int (length devices) + FCMMaxBatchSize \<le> max_int64"
  from fcm.send_accounts [OF this, of msg "sy_disp w"] obtain r e st
    where "fcm_Send d order devices msg (sy_disp w) = (Ret (r, e), st)" "accounts devices r"
    by (auto simp: dd)
  then show "\<exists>r e w'. (case dd of (d, order) \<Rightarrow> \<lambda>devices msg. via sy_disp sy_disp_update (fcm_Send d order devices msg))
      devices msg w = (Ret (r, e), w') \<and> accounts devices r"
    by (simp add: dd via_def)
qed

text \<open>The devices an event is for: the FIDs it carries, or those of its user or of its anonymous id.\<close>

definition recipients ::
  "(string \<Rightarrow> 's \<Rightarrow> Device list) \<Rightarrow> (string \<Rightarrow> 's \<Rightarrow> Device list) \<Rightarrow> Event \<Rightarrow> 's \<Rightarrow> Device list" where
  "recipients get get_anon ev s =
     (if HasDirectFIDs ev then map direct_device (ev_FIDs ev)
      else if IsAuthenticated ev then get (ev_UserID ev) s
      else if IsAnonymous ev then get_anon (ev_AnonymousID ev) s
      else [])"

text \<open>
  What the wired service needs: a dispatcher over a documented client, and lists that Go can allocate.  Without
  deduplication in the service, FIDs that an event carries twice are counted twice there and once by the dispatcher.
\<close>

definition delivery_ok :: "('s, 'q, 't, 'w dstate, 'c) wiring \<Rightarrow> Event \<Rightarrow> Device list \<Rightarrow> bool" where
  "delivery_ok W ev devices \<longleftrightarrow>
     (\<exists>d order. wr_dispatcher W = fcm_PushDispatcher d order \<and> disp_ok d \<and> (\<forall>gs. mset (order gs) = mset gs)) \<and>
     (HasDirectFIDs ev \<longrightarrow> sc_EnableDeviceDeduplication (wr_config W)) \<and>
     int (length devices) + FCMMaxBatchSize \<le> max_int64 \<and>
     int (length devices) + sc_MaxDevicesPerBatch (wr_config W) \<le> max_int64"

text \<open>
  The outcome of a call: it never panics.  An error leaves the devices, the queue and the marks as they were.  The reason
  \<^verbatim>\<open>no_active_devices\<close> is given only if there are none.  Otherwise each of the \<open>n\<close> distinct FIDs is counted, and all of them
  are successes or gone, or the event is in the dead-letter queue.
\<close>

definition loses_nothing ::
  "'c content \<Rightarrow> ('q \<Rightarrow> string \<Rightarrow> bool) \<Rightarrow> Device list \<Rightarrow> ('s, 'q, 't, 'd, 'c) wiring \<Rightarrow> Event \<Rightarrow> ('s, 'q, 'd, 'c) system \<Rightarrow> bool" where
  "loses_nothing content recorded devices W ev w \<longleftrightarrow>
     (let n = int (card (dev_FID ` set devices)) in
      case processEvent (system_service W) ev w of
        (Panic p, w1) \<Rightarrow> False
      | (Ret (r, Some err), w1) \<Rightarrow>
          sy_devices w1 = sy_devices w \<and> sy_dlq w1 = sy_dlq w \<and> content (sy_cache w1) = content (sy_cache w)
      | (Ret (r, None), w1) \<Rightarrow>
          if pr_Skipped r then pr_SkipReason r \<noteq> ''no_active_devices'' \<or> n = 0
          else pr_DeviceCount r = n \<and> TotalCount (pr_DispatchResult r) = n \<and>
               (dr_SuccessCount (pr_DispatchResult r) + int (length (dr_InvalidFIDs (pr_DispatchResult r))) = n \<or>
                recorded (sy_dlq w1) (ev_EventID ev)))"

lemma dlq_kept: "keeps_from (system_service W) w v \<Longrightarrow> sy_dlq v = sy_dlq w"
  by (drule keeps_fromD [where I = "\<lambda>v. sy_dlq v = sy_dlq w"]) (simp_all add: system_keeps)

lemma content_kept:
  assumes "cache_durable (wr_cache W) content" "keeps_from (system_service W) w v"
  shows "content (sy_cache v) = content (sy_cache w)"
proof -
  have "svc_keeps (system_service W) (\<lambda>v. content (sy_cache v) = content (sy_cache w))"
    by (rule system_keeps) (simp_all add: durable_Exists [OF assms(1)])
  from keeps_fromD [OF assms(2) this] show ?thesis by simp
qed

context wired_devices
begin

lemma resolve:
  "inv (sy_devices w) \<Longrightarrow> resolveDevicesForEvent (system_DeviceStore readings ops) ev w =
     (Inr (recipients get get_anon ev (sy_devices w)), w)"
  by (simp add: resolveDevicesForEvent_def recipients_def system_DeviceStore_def via_def ops_get ops_anon)

lemma dispatch_accounts:
  assumes "wr_devices W = ops" "inv (sy_devices w)" "devices = recipients get get_anon ev (sy_devices w)" "delivery_ok W ev devices"
  shows "\<exists>r e w'. svc_dispatch (system_service W) ev msg w = (Ret (r, e), Some (int (card (dev_FID ` set devices))), w') \<and>
           accounts (Deduplicate devices) r"
proof -
  let ?S = "system_service W"
  obtain d order where d: "wr_dispatcher W = fcm_PushDispatcher d order" "disp_ok d" "\<forall>gs. mset (order gs) = mset gs"
    using assms(4) unfolding delivery_ok_def by blast
  have split: "svc_dispatch ?S ev msg w = (case dispatchToDevices ?S devices msg w of (r, n, w1) \<Rightarrow> (r, Some n, w1))"
    by (simp add: svc_dispatch_def assms(1) resolve [OF assms(2)] assms(3) Let_def)
  show ?thesis
  proof (cases "devices = []")
    case True
    then show ?thesis by (simp add: split dispatchToDevices_def accounts_Nil Deduplicate_eq Let_def)
  next
    case False
    have send: "pd_Send (sv_dispatcher ?S) =
        (case (d, order) of (d, order) \<Rightarrow> \<lambda>devices msg. via sy_disp sy_disp_update (fcm_Send d order devices msg))"
      by (simp add: system_Dispatcher_def d(1) fcm_PushDispatcher_def)
    have "distinct (map dev_FID devices)" if "\<not> HasDirectFIDs ev"
      using that get_distinct [OF assms(2)] anon_distinct [OF assms(2)] by (simp add: assms(3) recipients_def)
    then have "sc_EnableDeviceDeduplication (sv_config ?S) \<or> distinct (map dev_FID devices)"
      using assms(4) by (auto simp: delivery_ok_def)
    with wired_fcm.dispatchToDevices_accounts [OF send _ _ False, of msg w] d(2,3) assms(4)
    obtain r e w' where "dispatchToDevices ?S devices msg w = (Ret (r, e), int (card (dev_FID ` set devices)), w')"
      "accounts (Deduplicate devices) r" by (auto simp: delivery_ok_def)
    then show ?thesis by (simp add: split)
  qed
qed

text \<open>A call that passed its checks: the dispatch result accounts for the recipients.\<close>

lemma passed_accounts:
  assumes "wr_devices W = ops" "inv (sy_devices w)" "devices = recipients get get_anon ev (sy_devices w)" "delivery_ok W ev devices"
    and "event_Validate ev = None" "processEvent (system_service W) ev w = (Ret (r, None), w1)"
    and "pr_Skipped r \<longrightarrow> pr_SkipReason r = ''no_active_devices''"
  shows "if pr_Skipped r then devices = []
         else accounts (Deduplicate devices) (pr_DispatchResult r) \<and> pr_DeviceCount r = int (card (dev_FID ` set devices))"
proof -
  let ?S = "system_service W"
  from processEvent_passed [OF assms(6,5,7)] obtain st r0 v
    where v: "keeps_from ?S w v" "\<not> pr_Skipped r0" and b: "build_and_dispatch ?S ev st r0 v = (Ret (r, None), w1)" by blast
  have dispatch: "accounts (Deduplicate devices) dr \<and> n = Some (int (card (dev_FID ` set devices)))"
    if "sv_BuildMessage ?S ev v = (Inr msg, v1)" "sv_clock ?S v1 = (t, v2)" "svc_dispatch ?S ev msg v2 = (Ret (dr, de), n, v3)"
    for msg v1 t v2 dr de n v3
  proof -
    have "keeps_from ?S v v2"
      by (rule keeps_fromI) (rule keeps_clock [OF _ keeps_build [OF _ _ that(1)] that(2)])
    note same = devices_kept [OF assms(1,2) keeps_from_trans [OF v(1) this]]
    have "inv (sy_devices v2)" "devices = recipients get get_anon ev (sy_devices v2)" using assms(2,3) by (simp_all add: same)
    from dispatch_accounts [OF assms(1) this assms(4), of msg] show ?thesis unfolding that(3) by auto
  qed
  from b show ?thesis
  proof (cases rule: build_and_dispatch_cases)
    case none
    from dispatch [OF none(3-5)] none(6) have "card (dev_FID ` set devices) = 0"
      by (simp add: accounts_def Deduplicate_length)
    then have "devices = []" by simp
    with svc_skip_result [OF none(2)] show ?thesis by simp
  next
    case sent
    from dispatch [OF sent(1-3)] finish_event_result [OF sent(5)] v(2) show ?thesis by auto
  qed
qed

lemma returns:
  fixes w :: "('a, 'q, 'w dstate, 'c) system"
  assumes "wr_devices W = ops" "inv (sy_devices w)" "devices = recipients get get_anon ev (sy_devices w)" "delivery_ok W ev devices"
  shows "\<exists>r e w1. processEvent (system_service W) ev w = (Ret (r, e), w1)"
proof (rule processEvent_returns [OF devices_keeps [OF assms(1,2)]])
  fix msg and v :: "('a, 'q, 'w dstate, 'c) system" assume same: "sy_devices v = sy_devices w"
  have "inv (sy_devices v)" "devices = recipients get get_anon ev (sy_devices v)" using assms(2,3) by (simp_all add: same)
  from dispatch_accounts [OF assms(1) this assms(4), of msg] obtain x n v'
    where "svc_dispatch (system_service W) ev msg v = (Ret x, n, v')" by (elim exE conjE)
  then show "\<exists>x n v'. svc_dispatch (system_service W) ev msg v = (Ret x, n, v')" by (intro exI)
qed simp

end

text \<open>
  A dead-letter queue as the service meets it: what is published is there afterwards, on a queue that can take it.
\<close>

locale recording_queue =
  fixes publish :: "'q publish_op"
    and queue_ok :: "'q \<Rightarrow> bool"
    and recorded :: "'q \<Rightarrow> string \<Rightarrow> bool"
  assumes publish_recorded: "queue_ok q \<Longrightarrow> recorded (snd (publish now ev reason q)) (ev_EventID ev)"

locale wired_system = wired_devices + recording_queue
begin

lemma nothing_lost:
  assumes "wr_devices W = ops" "wr_publish W = publish" "inv (sy_devices w)" "queue_ok (sy_dlq w)"
    and "devices = recipients get get_anon ev (sy_devices w)" "delivery_ok W ev devices"
    and "event_Validate ev = None" "sc_EnableDLQ (wr_config W)" "cache_durable (wr_cache W) content"
  shows "loses_nothing content recorded devices W ev w"
proof -
  let ?S = "system_service W" and ?n = "int (card (dev_FID ` set devices))"
  obtain r e w1 where run: "processEvent ?S ev w = (Ret (r, e), w1)" using returns [OF assms(1,3,5,6)] by blast
  show ?thesis
  proof (cases e)
    case (Some err)
    note k = processEvent_error [OF run [unfolded Some]]
    show ?thesis using run Some devices_kept [OF assms(1,3) k] dlq_kept [OF k] content_kept [OF assms(9) k]
      by (simp add: loses_nothing_def)
  next
    case None
    note acc = passed_accounts [OF assms(1,3,5-7) run [unfolded None]]
    show ?thesis
    proof (cases "pr_Skipped r")
      case True
      with acc run None show ?thesis by (auto simp: loses_nothing_def)
    next
      case False
      with acc have a: "accounts (Deduplicate devices) (pr_DispatchResult r)" "pr_DeviceCount r = ?n" by simp_all
      from a(1) have tot: "TotalCount (pr_DispatchResult r) = ?n" by (simp add: accounts_def Deduplicate_length)
      have "recorded (sy_dlq w1) (ev_EventID ev)" if "unresolved (pr_DispatchResult r) > 0"
        using unresolved_published [OF run [unfolded None] assms(7) False assms(8) that] publish_recorded [OF assms(4)]
        by (auto simp: assms(2))
      moreover have "dr_SuccessCount (pr_DispatchResult r) + int (length (dr_InvalidFIDs (pr_DispatchResult r))) = ?n"
        if "\<not> unresolved (pr_DispatchResult r) > 0"
        using a(1) tot that unfolding accounts_def unresolved_def TotalCount_def by linarith
      ultimately show ?thesis using run None False a(2) tot by (auto simp: loses_nothing_def)
    qed
  qed
qed

end

interpretation mem_system: wired_system "\<lambda>t. t" mds_inv device_at mem_GetActiveDevices mem_GetActiveDevicesByAnonymousID
  mem_MarkInvalid mem_SaveDevice mem_DeleteDevice memory_devices memory_publish "\<lambda>q. True" "\<lambda>q i. dlq_at q i \<noteq> None"
  by unfold_locales (auto simp: memory_publish_def mem_PublishToDLQ_def Let_def split: option.splits)

text \<open>Postgres and Mongo take what they can encode as long as they answer.\<close>

definition pg_queue_ok :: "dlq_json \<Rightarrow> postgresDLQHandler \<Rightarrow> bool" where
  "pg_queue_ok J q \<longleftrightarrow> healthy (pq_db q) \<and> codec_total (dj_event J) \<and> codec_total (dj_attempt J)"

definition mongo_queue_ok :: "(Event \<Rightarrow> Event option) \<Rightarrow> mongoDLQHandler \<Rightarrow> bool" where
  "mongo_queue_ok bson q \<longleftrightarrow> healthy (mq_db q) \<and> (\<forall>e. bson e \<noteq> None)"

lemma pg_publish_recorded:
  assumes "pg_queue_ok J q"
  shows "row_status (pq_rows (snd (pg_PublishToDLQ J now ev reason q))) (ev_EventID ev) \<noteq> None"
proof -
  obtain raw where "Marshal (dj_event J) ev = Some raw" using assms unfolding pg_queue_ok_def codec_total_def by blast
  moreover obtain raw' where
    "Marshal (dj_attempt J) \<lparr>at_AttemptNumber = 0, at_AttemptedAt = now, at_Success = False, at_ErrorMessage = reason\<rparr> = Some raw'"
    using assms unfolding pg_queue_ok_def codec_total_def by blast
  ultimately show ?thesis using assms
    by (auto simp: pg_queue_ok_def pg_PublishToDLQ_def healthy_def sql_UpsertDLQEvent_def split: option.splits)
qed

lemma mongo_publish_recorded:
  assumes "mongo_queue_ok bson q"
  shows "doc_status (mq_docs (snd (mongo_PublishToDLQ bson now ev reason q))) (ev_EventID ev) \<noteq> None"
proof -
  obtain raw where "bson ev = Some raw" using assms unfolding mongo_queue_ok_def by blast
  with assms show ?thesis
    by (auto simp: mongo_queue_ok_def mongo_PublishToDLQ_def healthy_def bson_upsert_dlq_def Let_def split: option.splits)
qed

interpretation pg_system: wired_system micros pg_dev_inv pg_device_at
  "\<lambda>u s. value_or [] (fst (pg_GetActiveDevices u s))" "\<lambda>a s. value_or [] (fst (pg_GetActiveDevicesByAnonymousID a s))"
  "\<lambda>now fid s. snd (pg_MarkInvalid now fid s)" pg_SaveDevice "\<lambda>fid s. snd (pg_DeleteDevice fid s)" postgres_devices
  "pg_PublishToDLQ J" "pg_queue_ok J" "\<lambda>q i. row_status (pq_rows q) i \<noteq> None" for J
  by unfold_locales (rule pg_publish_recorded)

interpretation mongo_system: wired_system millis mongo_dev_inv mongo_device_at
  "\<lambda>u s. value_or [] (fst (mongo_GetActiveDevices u s))"
  "\<lambda>a s. value_or [] (fst (mongo_GetActiveDevicesByAnonymousID a s))"
  "\<lambda>now fid s. snd (mongo_MarkInvalid now fid s)" mongo_SaveDevice "\<lambda>fid s. snd (mongo_DeleteDevice fid s)" mongo_devices
  "mongo_PublishToDLQ bson" "mongo_queue_ok bson" "\<lambda>q i. doc_status (mq_docs q) i \<noteq> None" for bson
  by unfold_locales (rule mongo_publish_recorded)

section \<open>Properties\<close>

abbreviation memory_recipients :: "Event \<Rightarrow> memoryDeviceStore \<Rightarrow> Device list" where
  "memory_recipients \<equiv> recipients mem_GetActiveDevices mem_GetActiveDevicesByAnonymousID"

abbreviation postgres_recipients :: "Event \<Rightarrow> postgresDeviceStore \<Rightarrow> Device list" where
  "postgres_recipients \<equiv> recipients (\<lambda>u s. value_or [] (fst (pg_GetActiveDevices u s)))
     (\<lambda>a s. value_or [] (fst (pg_GetActiveDevicesByAnonymousID a s)))"

abbreviation mongo_recipients :: "Event \<Rightarrow> mongoDeviceStore \<Rightarrow> Device list" where
  "mongo_recipients \<equiv> recipients (\<lambda>u s. value_or [] (fst (mongo_GetActiveDevices u s)))
     (\<lambda>a s. value_or [] (fst (mongo_GetActiveDevicesByAnonymousID a s)))"

definition dead_lettering :: "'c content \<Rightarrow> ('s, 'q, 't, 'd, 'c) wiring \<Rightarrow> bool" where
  "dead_lettering content W \<longleftrightarrow> sc_EnableDLQ (wr_config W) \<and> cache_durable (wr_cache W) content"


text \<open>The demonstration system of the previous theory, on each of the stores, with the FCM dispatcher in it.\<close>

definition fcm_wiring :: "'s device_ops \<Rightarrow> 'q publish_op \<Rightarrow> ('s, 'q, string, string list list dstate, list_cache) wiring" where
  "fcm_wiring D P =
     \<lparr>wr_devices = D, wr_publish = P, wr_text = plain_text,
      wr_templates = snd (RegisterTemplate plain_text ''order'' (simple_template ''Hi'' ''There'' [] [] []) []),
      wr_tzdb = demo_tzdb, wr_cache = list_Cache, wr_rfc3339 = (\<lambda>t. ''now''),
      wr_dispatcher = fcm_PushDispatcher demo_dispatcher (\<lambda>gs. gs), wr_readings = (\<lambda>n. 100),
      wr_config = DefaultServiceConfig\<rparr>"

definition fcm_system :: "'s \<Rightarrow> 'q \<Rightarrow> ('s, 'q, string list list dstate, list_cache) system" where
  "fcm_system s q = \<lparr>sy_devices = s, sy_prefs = NewMemoryPreferencesStore, sy_dlq = q,
     sy_cache = [], sy_disp = \<lparr>ds_cb = None, ds_w = []\<rparr>, sy_reads = 0\<rparr>"

lemma fcm_wiring_simps [simp]:
  "wr_devices (fcm_wiring D P) = D" "wr_publish (fcm_wiring D P) = P" "wr_cache (fcm_wiring D P) = list_Cache"
  "wr_config (fcm_wiring D P) = DefaultServiceConfig" "wr_readings (fcm_wiring D P) = (\<lambda>n. 100)"
  "wr_dispatcher (fcm_wiring D P) = fcm_PushDispatcher demo_dispatcher (\<lambda>gs. gs)"
  by (simp_all add: fcm_wiring_def)

lemma fcm_dead_lettering: "dead_lettering list_content (fcm_wiring D P)"
  by (simp add: dead_lettering_def DefaultServiceConfig_def list_Cache_durable)

lemma fcm_delivery_ok: "length devices \<le> 1 \<Longrightarrow> delivery_ok (fcm_wiring D P) demo_event devices"
  using demo_dispatcher_ok demo_event_valid
  by (auto simp: delivery_ok_def DefaultServiceConfig_def FCMMaxBatchSize_def max_int64_def)

lemma fcm_queues: "pg_queue_ok (demo_json (Some demo_event)) (pg_dlq_new 3 0 0)" "mongo_queue_ok Some (mongo_dlq_new 3 0 0)"
  by (simp_all add: pg_queue_ok_def mongo_queue_ok_def pg_dlq_new_def mongo_dlq_new_def healthy_def new_backend_def demo_json_def
      codec_total_def)

lemma fcm_recipients:
  "\<exists>d. memory_recipients demo_event demo_store = [d]" "\<exists>d. postgres_recipients demo_event demo_pg_store = [d]"
  "\<exists>d. mongo_recipients demo_event demo_mongo_store = [d]"
proof -
  show "\<exists>d. memory_recipients demo_event demo_store = [d]"
    using demo_active by (auto simp: recipients_def demo_event_valid)
  show "\<exists>d. postgres_recipients demo_event demo_pg_store = [d]"
    by (simp add: recipients_def demo_event_valid)
       (simp add: demo_pg_store_def pg_device_ops sql_device_ops new_backend_def demo_device_def direct_device_def device_Validate_def
        fid_char_def device_row_def value_or_def db_query_def db_exec_def db_stmt_def)
  show "\<exists>d. mongo_recipients demo_event demo_mongo_store = [d]"
    by (simp add: recipients_def demo_event_valid)
       (simp add: demo_mongo_store_def mongo_device_ops new_backend_def demo_device_def direct_device_def device_Validate_def
        fid_char_def value_or_def db_query_def db_exec_def db_stmt_def Let_def)
qed


text \<open>
  C36. A dead-lettered event cannot be resubmitted while its mark lives: an event whose dispatch left unresolved failures is handed
  out by a later claim of the dead-letter queue, but the same call marked it as processed.  Giving the claimed event to the
  service again returns no error, reports \<^verbatim>\<open>already_processed\<close>, and only reads the clock and looks the mark
  up: nothing is sent, and no failure is counted.
\<close>

theorem claimed_event_resubmission_skipped:
  fixes w :: "('s, memoryDLQHandler, 'd, 'c) system"
  assumes "cache_durable (wr_cache W) content" and "wr_publish W = memory_publish" and "mdh_inv (sy_dlq w)" and "event_Validate ev = None"
    and "sc_EnableDLQ (wr_config W)" and "processEvent (system_service W) ev w = (Ret (r, None), w1)" and "\<not> pr_Skipped r"
    and "unresolved (pr_DispatchResult r) > 0" and "dlq_at (sy_dlq w) (ev_EventID ev) = None"
    and "\<forall>n. wr_readings W n \<le> t" and "time_add t (bc_retryDelay (mdh_config (sy_dlq w))) \<le> now"
    and "mem_ClaimRetryableEvents now 0 (sy_dlq w1) = (claimed, dlq)" and "w2 = w1\<lparr>sy_dlq := dlq\<rparr>"
  shows "\<exists>e \<in> set claimed. dq_Event e = ev \<and>
    (\<exists>r' c. processEvent (system_service W) (dq_Event e) w2 =
        (Ret (r', None), w2\<lparr>sy_cache := c, sy_reads := sy_reads w2 + 2\<rparr>) \<and>
      pr_Skipped r' \<and> pr_SkipReason r' = ''already_processed'' \<and> pr_DispatchResult r' = zero_result)"
proof -
  let ?S = "system_service W"
  obtain e where e: "e \<in> set claimed" "dq_Event e = ev"
    using undelivered_claimed [OF assms(2-11)] assms(12) by auto
  from processEvent_passed [OF assms(6,4)] assms(7) obtain st r0 w0
    where "build_and_dispatch ?S ev st r0 w0 = (Ret (r, None), w1)" by blast
  then have "processed content w1 (ev_EventID ev)"
    using build_and_dispatch_marks [of ?S "\<lambda>w. processed content w (ev_EventID ev)" ev]
      system_idempotency [OF assms(1), of "ev_EventID ev"] by (simp add: idempotency_ok_def)
  then have "processed content w2 (ev_EventID ev)" by (simp add: processed_def assms(13))
  from system_duplicate [OF assms(1,4) this] e show ?thesis by blast
qed

theorem claimed_event_resubmission_skipped_witness:
  "\<exists>w1 e w2 r'. w1 = snd (processEvent (system_service (demo_wiring demo_failed)) demo_event demo_system) \<and>
     e \<in> set (fst (mem_ClaimRetryableEvents 100 0 (sy_dlq w1))) \<and>
     processEvent (system_service (demo_wiring demo_failed)) (dq_Event e)
       (w1\<lparr>sy_dlq := snd (mem_ClaimRetryableEvents 100 0 (sy_dlq w1))\<rparr>) = (Ret (r', None), w2) \<and>
     pr_Skipped r' \<and> sy_disp w2 = sy_disp w1"
proof -
  obtain r w1 where run: "processEvent (system_service (demo_wiring demo_failed)) demo_event demo_system = (Ret (r, None), w1)"
    "\<not> pr_Skipped r" "pr_DispatchResult r = demo_failed []"
    using demo_memory_run [of demo_failed] by (auto simp: TotalCount_def)
  have "mdh_inv (sy_dlq demo_system)" by (simp add: demo_system_on_def mdh_inv_new)
  from claimed_event_resubmission_skipped [OF _ _ this demo_event_valid(1) _ run(1,2) _ _ _ _ prod.collapse [symmetric] refl,
      of list_content 100 100] run list_Cache_durable
  obtain e r' c where "e \<in> set (fst (mem_ClaimRetryableEvents 100 0 (sy_dlq w1)))" "pr_Skipped r'"
    "processEvent (system_service (demo_wiring demo_failed)) (dq_Event e)
       (w1\<lparr>sy_dlq := snd (mem_ClaimRetryableEvents 100 0 (sy_dlq w1))\<rparr>) =
     (Ret (r', None), w1\<lparr>sy_dlq := snd (mem_ClaimRetryableEvents 100 0 (sy_dlq w1)), sy_cache := c, sy_reads := sy_reads w1 + 2\<rparr>)"
    by (auto simp: demo_system_on_def NewMemoryDLQHandler_def unresolved_def time_add_def DefaultServiceConfig_def)
  then show ?thesis using run(1) by auto
qed

end
