(* ===== verification/Grnoti_Example.thy ===== *)
theory Grnoti_Example
  imports Grnoti_System
begin

text \<open>
  The walkthrough program \<^verbatim>\<open>example/main.go\<close>: its dispatcher, which prints instead of sending, and its function \<^verbatim>\<open>run\<close>, which
  builds a service on the in-memory stores and processes three events.  The printed lines are the state of the
  dispatcher; a line is kept as the arguments of the print call.  The calls to \<^verbatim>\<open>Close\<close> that \<^verbatim>\<open>run\<close> defers come after
  everything it prints and are left out.
\<close>

section \<open>The dispatcher\<close>

definition EventTypeOrderShipped :: EventType where
  "EventTypeOrderShipped = ''order_shipped''"

datatype stdout_line =
    Println string
  | PushToDevice string Platform string string
  | PushToTopic string string string
  | PrintCounts int int int bool
  | PrintSkipped bool string

fun logging_send :: "Message \<Rightarrow> Device list \<Rightarrow> DispatchResult \<Rightarrow> stdout_line list \<Rightarrow> DispatchResult \<times> stdout_line list" where
  "logging_send msg [] result out = (result, out)"
| "logging_send msg (dev # devices) result out =
     logging_send msg devices
       (result\<lparr>dr_SuccessByPlatform := bump (dev_Platform dev) 1 (dr_SuccessByPlatform result)\<rparr>)
       (out @ [PushToDevice (dev_FID dev) (dev_Platform dev) (msg_Title msg) (msg_Body msg)])"

definition logging_SendToDevice :: "Device \<Rightarrow> Message \<Rightarrow> stdout_line list \<Rightarrow> error option \<times> stdout_line list" where
  "logging_SendToDevice device msg out =
     (None, out @ [PushToDevice (dev_FID device) (dev_Platform device) (msg_Title msg) (msg_Body msg)])"

definition loggingDispatcher :: "stdout_line list PushDispatcher" where
  "loggingDispatcher =
     \<lparr>pd_Send = (\<lambda>devices msg out.
        case logging_send msg devices (zero_result\<lparr>dr_SuccessCount := int (length devices)\<rparr>) out of
          (result, out') \<Rightarrow> (Ret (result, None), out')),
      pd_SendToTopic = (\<lambda>topic msg out. (None, out @ [PushToTopic topic (msg_Title msg) (msg_Body msg)]))\<rparr>"

section \<open>The run\<close>

text \<open>The dash in the text is a character of three bytes.\<close>

definition order_template :: MessageTemplate where
  "order_template =
     \<lparr>mt_TitleTemplate = ''Your order has shipped!'',
      mt_BodyTemplate = ''Order #{{.order_id}} is on its way '' @ bytes [226, 128, 148] @ '' track it at {{.tracking_url}}.'',
      mt_DefaultData = [], mt_DefaultTTL = 0, mt_CollapseKey = [], mt_ChannelID = ''orders'', mt_Sound = ''default'',
      mt_Actions = [], mt_DeepLink = ''myapp://orders/{{.order_id}}'', mt_Category = CategoryTransactional\<rparr>"

definition example_device :: Device where
  "example_device =
     \<lparr>dev_FID = ''fExampleInstallId012_-'', dev_Platform = PlatformAndroid, dev_UserID = ''user-42'', dev_AnonymousID = [],
      dev_DeviceID = [], dev_AppVersion = [], dev_IsActive = False, dev_CreatedAt = zero_time, dev_UpdatedAt = zero_time\<rparr>"

definition example_prefs :: NotificationPreferences where
  "example_prefs =
     \<lparr>np_UserID = ''user-42'', np_GlobalEnabled = True, np_QuietHoursEnabled = False, np_QuietHoursStart = [],
      np_QuietHoursEnd = [], np_Timezone = [], np_Locale = ''en'', np_EventTypeSettings = [],
      np_CreatedAt = zero_time, np_UpdatedAt = zero_time\<rparr>"

text \<open>The first two events are the same value.\<close>

definition example_order :: Event where
  "example_order =
     \<lparr>ev_EventID = ''evt-1'', ev_UserID = ''user-42'', ev_AnonymousID = [], ev_FIDs = [], ev_Type = EventTypeOrderShipped,
      ev_Payload = [(''order_id'', ''1001''), (''tracking_url'', ''https://example.com/t/1001'')],
      ev_Priority = PriorityHigh, ev_Timestamp = zero_time, ev_ExperimentID = []\<rparr>"

definition example_visitor :: Event where
  "example_visitor =
     \<lparr>ev_EventID = ''evt-2'', ev_UserID = [], ev_AnonymousID = ''anon-session-999'', ev_FIDs = [],
      ev_Type = EventTypeOrderShipped,
      ev_Payload = [(''order_id'', ''1002''), (''tracking_url'', ''https://example.com/t/1002'')],
      ev_Priority = PriorityNormal, ev_Timestamp = zero_time, ev_ExperimentID = []\<rparr>"

text \<open>What the program takes from its environment: the template library, the time zones, the clock and the cache.\<close>

record ('t, 'c) environment =
  en_text :: "'t text_lib"
  en_tzdb :: "string \<Rightarrow> error + Location"
  en_rfc3339 :: "Time \<Rightarrow> string"
  en_readings :: "nat \<Rightarrow> Time"
  en_cache :: "'c Cache"
  en_NewMemoryCache :: "error + 'c"

definition example_wiring :: "('t, 'c) environment \<Rightarrow> 't defaultTemplateEngine \<Rightarrow> (memoryDeviceStore, memoryDLQHandler, 't, stdout_line list, 'c) wiring" where
  "example_wiring E templates =
     \<lparr>wr_devices = memory_devices, wr_publish = memory_publish, wr_text = en_text E, wr_templates = templates, wr_tzdb = en_tzdb E, wr_cache = en_cache E,
      wr_rfc3339 = en_rfc3339 E, wr_dispatcher = loggingDispatcher, wr_readings = en_readings E,
      wr_config = DefaultServiceConfig\<lparr>sc_EnablePreferencesFilter := True, sc_EnableDLQ := True\<rparr>\<rparr>"

definition printing :: "stdout_line \<Rightarrow> (memoryDeviceStore, memoryDLQHandler, stdout_line list, 'c) system \<Rightarrow> (memoryDeviceStore, memoryDLQHandler, stdout_line list, 'c) system" where
  "printing line w = w\<lparr>sy_disp := sy_disp w @ [line]\<rparr>"

text \<open>The registration of the user, as \<^verbatim>\<open>SaveDevice\<close> and \<^verbatim>\<open>SavePreferences\<close>.\<close>

definition example_seed ::
  "(nat \<Rightarrow> Time) \<Rightarrow> (memoryDeviceStore, memoryDLQHandler, stdout_line list, 'c) system \<Rightarrow> error option \<times> (memoryDeviceStore, memoryDLQHandler, stdout_line list, 'c) system" where
  "example_seed readings w =
     (let (now, w1) = system_clock readings w in
      case mem_SaveDevice now example_device (sy_devices w1) of
        (Some err, devices) \<Rightarrow> (Some (Wrap ''SaveDevice: '' err []), w1)
      | (None, devices) \<Rightarrow>
          (case ps_SavePreferences (system_PreferencesStore readings) example_prefs (w1\<lparr>sy_devices := devices\<rparr>) of
             (Some err, w2) \<Rightarrow> (Some (Wrap ''SavePreferences: '' err []), w2)
           | (None, w2) \<Rightarrow> (None, w2)))"

definition example_process ::
  "'w notificationService \<Rightarrow> Event \<Rightarrow> (ProcessingResult \<Rightarrow> 'w \<Rightarrow> error option go \<times> 'w) \<Rightarrow> 'w \<Rightarrow> error option go \<times> 'w" where
  "example_process svc event continue w =
     (case ProcessEvent svc False event w of
        (Panic p, w1) \<Rightarrow> (Panic p, w1)
      | (Ret (result, Some err), w1) \<Rightarrow> (Ret (Some (Wrap ''ProcessEvent: '' err [])), w1)
      | (Ret (result, None), w1) \<Rightarrow> continue result w1)"

definition example_events ::
  "(memoryDeviceStore, memoryDLQHandler, stdout_line list, 'c) system notificationService \<Rightarrow> (memoryDeviceStore, memoryDLQHandler, stdout_line list, 'c) system \<Rightarrow>
     error option go \<times> (memoryDeviceStore, memoryDLQHandler, stdout_line list, 'c) system" where
  "example_events svc w =
     example_process svc example_order (\<lambda>r1 w.
       example_process svc example_order (\<lambda>r2 w.
         example_process svc example_visitor (\<lambda>r3 w.
           (Ret None, printing (PrintSkipped (pr_Skipped r3) (pr_SkipReason r3)) w))
         (printing (Println ''--- event 3: anonymous visitor, no device registered -> skipped, not an error ---'')
           (printing (PrintSkipped (pr_Skipped r2) (pr_SkipReason r2)) w)))
       (printing (Println ''--- event 2: same EventID resubmitted, idempotency short-circuits it ---'')
         (printing (PrintCounts (pr_DeviceCount r1) (dr_SuccessCount (pr_DispatchResult r1))
            (dr_FailureCount (pr_DispatchResult r1)) (pr_Skipped r1)) w)))
     (printing (Println ''--- event 1: order shipped, notification succeeds ---'') w)"

definition example_run :: "('t, 'c) environment \<Rightarrow> error option go \<times> stdout_line list" where
  "example_run E =
     (case RegisterTemplate (en_text E) EventTypeOrderShipped order_template (NewTemplateEngine (en_text E)) of
        (Some err, te) \<Rightarrow> (Ret (Some (Wrap ''RegisterTemplate: '' err [])), [])
      | (None, templates) \<Rightarrow>
          (case en_NewMemoryCache E of
             Inl err \<Rightarrow> (Ret (Some (Wrap ''grcache.NewMemoryCache: '' err [])), [])
           | Inr c \<Rightarrow>
               (let W = example_wiring E templates;
                    w0 = \<lparr>sy_devices = NewMemoryDeviceStore, sy_prefs = NewMemoryPreferencesStore,
                          sy_dlq = NewMemoryDLQHandler 3 Minute (10 * Minute), sy_cache = c, sy_disp = [], sy_reads = 0\<rparr>
                in case NewNotificationService (system_clock (en_readings E)) (system_deps W) of
                     Inl err \<Rightarrow> (Ret (Some (Wrap ''NewNotificationService: '' err [])), [])
                   | Inr (svc, pool) \<Rightarrow>
                       (case example_seed (en_readings E) w0 of
                          (Some err, w1) \<Rightarrow> (Ret (Some err), sy_disp w1)
                        | (None, w1) \<Rightarrow> (case example_events svc w1 of (r, w2) \<Rightarrow> (r, sy_disp w2))))))"

text \<open>
  \<^verbatim>\<open>main\<close>: the exit status and the standard output.  \<^verbatim>\<open>log.Fatal\<close> exits with 1, an uncaught panic with 2.
\<close>

definition example_main :: "('t, 'c) environment \<Rightarrow> int \<times> stdout_line list" where
  "example_main E =
     (case example_run E of
        (Ret None, out) \<Rightarrow> (0, out) | (Ret (Some err), out) \<Rightarrow> (1, out) | (Panic p, out) \<Rightarrow> (2, out))"

section \<open>The three events\<close>

abbreviation example_devices :: "Time \<Rightarrow> memoryDeviceStore" where
  "example_devices now \<equiv> \<lparr>mds_devices = [(''fExampleInstallId012_-'',
     example_device\<lparr>dev_IsActive := True, dev_CreatedAt := now, dev_UpdatedAt := now\<rparr>)]\<rparr>"

abbreviation example_saved :: "Time \<Rightarrow> memoryPreferencesStore" where
  "example_saved now \<equiv> \<lparr>mps_byUID = [(''user-42'', example_prefs\<lparr>np_CreatedAt := now, np_UpdatedAt := now\<rparr>)]\<rparr>"

lemma example_seed_ok:
  assumes "sy_devices w = NewMemoryDeviceStore" "sy_prefs w = NewMemoryPreferencesStore"
  shows "example_seed readings w = (None, w\<lparr>sy_devices := example_devices (readings (sy_reads w)),
    sy_prefs := example_saved (readings (sy_reads w + 1)), sy_reads := sy_reads w + 2\<rparr>)"
  using assms
  by (simp add: example_seed_def system_clock_def mem_SaveDevice_def device_Validate_def example_device_def fid_char_def
      NewMemoryDeviceStore_def NewMemoryPreferencesStore_def system_PreferencesStore_def on_prefs_def mem_PreferencesStore_def
      mem_SavePreferences_def example_prefs_def Let_def)

lemma example_valid:
  "event_Validate example_order = None" "event_Validate example_visitor = None"
  by (simp_all add: event_Validate_def example_order_def example_visitor_def eventtype_IsValid_def EventTypeOrderShipped_def
      priority_IsValid_def PriorityHigh_def PriorityNormal_def)

lemma example_fields:
  "ev_EventID example_order = ''evt-1''" "ev_UserID example_order = ''user-42''" "ev_FIDs example_order = []"
  "ev_EventID example_visitor = ''evt-2''" "ev_UserID example_visitor = []" "ev_FIDs example_visitor = []"
  "ev_AnonymousID example_visitor = ''anon-session-999''" "IsAuthenticated example_order" "\<not> IsAuthenticated example_visitor"
  by (simp_all add: example_order_def example_visitor_def IsAuthenticated_def)

lemma example_wiring_simps [simp]:
  "wr_devices (example_wiring E te) = memory_devices" "wr_publish (example_wiring E te) = memory_publish" "wr_cache (example_wiring E te) = en_cache E" "wr_readings (example_wiring E te) = en_readings E"
  "wr_tzdb (example_wiring E te) = en_tzdb E" "wr_text (example_wiring E te) = en_text E"
  "wr_dispatcher (example_wiring E te) = loggingDispatcher" "wr_rfc3339 (example_wiring E te) = en_rfc3339 E"
  "wr_templates (example_wiring E te) = te"
  "wr_config (example_wiring E te) = DefaultServiceConfig\<lparr>sc_EnablePreferencesFilter := True, sc_EnableDLQ := True\<rparr>"
  by (simp_all add: example_wiring_def)

abbreviation example_service :: "('t, 'c) environment \<Rightarrow> 't defaultTemplateEngine \<Rightarrow> (memoryDeviceStore, memoryDLQHandler, stdout_line list, 'c) system notificationService" where
  "example_service E te \<equiv> system_service (example_wiring E te)"

lemma example_built: "NewNotificationService (system_clock (en_readings E)) (system_deps (example_wiring E te)) =
    Inr (example_service E te, None)"
  using NewNotificationService_system [of "example_wiring E te"] by (simp add: DefaultServiceConfig_def)

abbreviation mark_key :: "string \<Rightarrow> string" where
  "mark_key i \<equiv> ci_keyPrefix NewCacheIdempotencyStore @ i"

text \<open>An event that is not marked and that the preferences do not stop reaches the dispatch.\<close>

lemma example_passes:
  assumes "event_Validate ev = None" "gc_Exists (en_cache E) (mark_key (ev_EventID ev)) (sy_cache w) = (Inr False, c)"
    and "ev_UserID ev = ''user-42'' \<and> sy_prefs w = example_saved t \<or> ev_UserID ev = []"
  shows "\<exists>n. processEvent (example_service E te) ev w =
    build_and_dispatch (example_service E te) ev (en_readings E (sy_reads w)) (init_result ev (en_readings E (sy_reads w)))
      (w\<lparr>sy_cache := c, sy_reads := n\<rparr>)"
proof (cases "IsAuthenticated ev")
  case True
  then have "ev_UserID ev = ''user-42''" "sy_prefs w = example_saved t" using assms(3) by (simp_all add: IsAuthenticated_def)
  with True assms(1,2) show ?thesis
    by (intro exI [of _ "sy_reads w + 2"])
      (simp add: processEvent_def system_clock_def cache_IdempotencyStore_def cache_IsProcessed_def system_Cache_def via_def
        ShouldSendNotification_def system_GetPreferences mem_GetPreferences_def prefs_IsEventTypeEnabled_def isWithinQuietHours_def
        example_prefs_def)
next
  case False
  with assms(1,2) show ?thesis
    by (intro exI [of _ "sy_reads w + 1"], cases w)
      (simp add: processEvent_def system_clock_def cache_IdempotencyStore_def cache_IsProcessed_def system_Cache_def via_def)
qed

lemma example_dispatch_order:
  assumes "sy_devices w = example_devices t"
  shows "\<exists>dr. svc_dispatch (example_service E te) example_order msg w = (Ret (dr, None), Some 1,
      w\<lparr>sy_disp := sy_disp w @ [PushToDevice ''fExampleInstallId012_-'' PlatformAndroid (msg_Title msg) (msg_Body msg)]\<rparr>) \<and>
    dr_SuccessCount dr = 1 \<and> dr_FailureCount dr = 0 \<and> dr_InvalidFIDs dr = []"
  using assms
  by (simp add: svc_dispatch_def resolveDevicesForEvent_def HasDirectFIDs_def example_fields system_DeviceStore_def memory_devices_def via_def
      mem_GetActiveDevices_def example_device_def dispatchToDevices_def DefaultServiceConfig_def system_Dispatcher_def via_def
      loggingDispatcher_def zero_result_def)

lemma example_dispatch_visitor:
  assumes "sy_devices w = example_devices t"
  shows "svc_dispatch (example_service E te) example_visitor msg w = (Ret (zero_result, None), Some 0, w)"
  using assms
  by (simp add: svc_dispatch_def resolveDevicesForEvent_def HasDirectFIDs_def IsAnonymous_def example_fields system_DeviceStore_def memory_devices_def via_def
      mem_GetActiveDevicesByAnonymousID_def example_device_def dispatchToDevices_def DefaultServiceConfig_def)

text \<open>A dispatch without failures is marked, and nothing else happens to the stores.\<close>

lemma example_finish:
  assumes "dr_FailureCount dr = 0" "dr_InvalidFIDs dr = []"
  shows "\<exists>r n v. finish_event (example_service E te) ev st r1 dr d w =
      (r, w\<lparr>sy_cache := snd (gc_Set (en_cache E) (mark_key (ev_EventID ev)) v (24 * Hour) [] (sy_cache w)), sy_reads := n\<rparr>) \<and>
    pr_DispatchResult r = dr \<and> pr_DeviceCount r = pr_DeviceCount r1 \<and> pr_Skipped r = pr_Skipped r1"
  using assms
  by (intro exI [of _ "r1\<lparr>pr_DispatchResult := dr, pr_Duration := time_sub (en_readings E (sy_reads w + 1)) st\<rparr>"]
      exI [of _ "sy_reads w + 2"] exI [of _ "en_rfc3339 E (en_readings E (sy_reads w))"])
    (simp add: finish_event_def markInvalidFIDs_def publishToDLQIfUnresolved_def unresolved_def recordMetrics_def
      publishLifecycleEvent_def DefaultServiceConfig_def cache_IdempotencyStore_def cache_MarkProcessed_via
      system_clock_def Let_def)

lemma unmarked_Exists:
  assumes "cache_durable C content" "\<not> processed content w i"
  obtains c where "gc_Exists C (mark_key i) (sy_cache w) = (Inr False, c)" "content c = content (sy_cache w)"
proof -
  obtain y c where e: "gc_Exists C (mark_key i) (sy_cache w) = (y, c)" by (rule prod.exhaust)
  with durable_Exists [OF assms(1), of "mark_key i" "sy_cache w"] assms(2) show thesis
    by (intro that [of c]) (simp_all add: processed_def)
qed

text \<open>The first event is sent to the one device of the user and marked.\<close>

lemma example_first:
  assumes durable: "cache_durable (en_cache E) content" and new: "\<not> processed content w ''evt-1''"
    and msg: "BuildMessage (en_text E) example_order te = Inr msg"
    and stores: "sy_devices w = example_devices t1" "sy_prefs w = example_saved t2"
  obtains r c n v where "processEvent (example_service E te) example_order w =
      (Ret (r, None), w\<lparr>sy_disp := sy_disp w @ [PushToDevice ''fExampleInstallId012_-'' PlatformAndroid
         (msg_Title msg) (msg_Body msg)], sy_cache := c, sy_reads := n\<rparr>)"
    "pr_DeviceCount r = 1" "dr_SuccessCount (pr_DispatchResult r) = 1" "dr_FailureCount (pr_DispatchResult r) = 0"
    "\<not> pr_Skipped r" "content c = (content (sy_cache w))(mark_key ''evt-1'' \<mapsto> v)"
proof -
  let ?S = "example_service E te" and ?st = "en_readings E (sy_reads w)"
  obtain c where c: "gc_Exists (en_cache E) (mark_key ''evt-1'') (sy_cache w) = (Inr False, c)" "content c = content (sy_cache w)"
    by (rule unmarked_Exists [OF durable new])
  obtain n where run: "processEvent ?S example_order w =
      build_and_dispatch ?S example_order ?st (init_result example_order ?st) (w\<lparr>sy_cache := c, sy_reads := n\<rparr>)"
    using example_passes [OF example_valid(1), of E w c t2 te] c stores by (auto simp: example_fields)
  let ?w = "w\<lparr>sy_cache := c, sy_reads := Suc n\<rparr>"
  let ?out = "sy_disp w @ [PushToDevice ''fExampleInstallId012_-'' PlatformAndroid (msg_Title msg) (msg_Body msg)]"
  obtain dr where dr: "svc_dispatch ?S example_order msg ?w = (Ret (dr, None), Some 1, ?w\<lparr>sy_disp := ?out\<rparr>)"
    "dr_SuccessCount dr = 1" "dr_FailureCount dr = 0" "dr_InvalidFIDs dr = []"
    using example_dispatch_order [of ?w t1 E te msg] stores by auto
  let ?w' = "w\<lparr>sy_cache := c, sy_disp := ?out, sy_reads := Suc (Suc n)\<rparr>"
  let ?r1 = "(init_result example_order ?st)\<lparr>pr_DeviceCount := 1\<rparr>"
  let ?d = "time_sub (en_readings E (Suc n)) (en_readings E n)"
  obtain r m v where fin: "finish_event ?S example_order ?st ?r1 dr ?d ?w' =
      (r, ?w'\<lparr>sy_cache := snd (gc_Set (en_cache E) (mark_key ''evt-1'') v (24 * Hour) [] c), sy_reads := m\<rparr>)"
    "pr_DispatchResult r = dr" "pr_DeviceCount r = 1" "\<not> pr_Skipped r"
    using example_finish [OF dr(3,4), of E te example_order ?st ?r1 ?d ?w'] by (auto simp: example_fields init_result_def)
  have "build_and_dispatch ?S example_order ?st (init_result example_order ?st) (w\<lparr>sy_cache := c, sy_reads := n\<rparr>) =
      (Ret (r, None), ?w'\<lparr>sy_cache := snd (gc_Set (en_cache E) (mark_key ''evt-1'') v (24 * Hour) [] c), sy_reads := m\<rparr>)"
    using msg dr(1,2) fin(1) by (simp add: build_and_dispatch_def system_clock_def TotalCount_def Let_def)
  moreover have "content (snd (gc_Set (en_cache E) (mark_key ''evt-1'') v (24 * Hour) [] c)) =
      (content (sy_cache w))(mark_key ''evt-1'' \<mapsto> (v, {}))"
    using durable_Set [OF durable, of "24 * Hour" "mark_key ''evt-1''" v "[]" c] c(2) by simp
  ultimately show thesis using run dr fin by (intro that) simp_all
qed

text \<open>The visitor has no device: the event is skipped and marked.\<close>

lemma example_third:
  assumes durable: "cache_durable (en_cache E) content" and new: "\<not> processed content w ''evt-2''"
    and msg: "BuildMessage (en_text E) example_visitor te = Inr msg" and stores: "sy_devices w = example_devices t1"
  obtains r w' where "processEvent (example_service E te) example_visitor w = (Ret (r, None), w')" "sy_disp w' = sy_disp w"
    "pr_Skipped r" "pr_SkipReason r = ''no_active_devices''"
proof -
  let ?S = "example_service E te" and ?st = "en_readings E (sy_reads w)"
  obtain c where c: "gc_Exists (en_cache E) (mark_key ''evt-2'') (sy_cache w) = (Inr False, c)" "content c = content (sy_cache w)"
    by (rule unmarked_Exists [OF durable new])
  obtain n where run: "processEvent ?S example_visitor w =
      build_and_dispatch ?S example_visitor ?st (init_result example_visitor ?st) (w\<lparr>sy_cache := c, sy_reads := n\<rparr>)"
    using example_passes [OF example_valid(2), of E w c _ te] c by (auto simp: example_fields)
  have sent: "svc_dispatch ?S example_visitor msg (w\<lparr>sy_cache := c, sy_reads := Suc n\<rparr>) =
      (Ret (zero_result, None), Some 0, w\<lparr>sy_cache := c, sy_reads := Suc n\<rparr>)"
    by (rule example_dispatch_visitor) (simp add: stores)
  have "\<exists>r w'. build_and_dispatch ?S example_visitor ?st (init_result example_visitor ?st) (w\<lparr>sy_cache := c, sy_reads := n\<rparr>) =
      (Ret (r, None), w') \<and> sy_disp w' = sy_disp w \<and> pr_Skipped r \<and> pr_SkipReason r = ''no_active_devices''"
    by (simp add: build_and_dispatch_def msg sent system_clock_def Let_def init_result_def TotalCount_def zero_result_def svc_skip_def
        cache_IdempotencyStore_def cache_MarkProcessed_via)
  with run that show thesis by auto
qed

section \<open>Property\<close>

text \<open>
  C33. The program does what its comments say.  If the template library accepts the template and renders it for the two orders, and
  the cache starts empty and keeps what is written, the program exits with status 0 and prints exactly these lines: one push, to
  the registered device, for the first event; the second is recognised as a repetition of the first; the visitor's event is
  skipped because there is no device to send it to.
\<close>

theorem example_run_prints:
  assumes "RegisterTemplate (en_text E) EventTypeOrderShipped order_template (NewTemplateEngine (en_text E)) = (None, te)"
    and "BuildMessage (en_text E) example_order te = Inr msg" and "BuildMessage (en_text E) example_visitor te = Inr msg'"
    and "cache_durable (en_cache E) content" and "en_NewMemoryCache E = Inr c0" and "content c0 = (\<lambda>k. None)"
  shows "example_main E = (0,
    [Println ''--- event 1: order shipped, notification succeeds ---'',
     PushToDevice ''fExampleInstallId012_-'' PlatformAndroid (msg_Title msg) (msg_Body msg),
     PrintCounts 1 1 0 False,
     Println ''--- event 2: same EventID resubmitted, idempotency short-circuits it ---'',
     PrintSkipped True ''already_processed'',
     Println ''--- event 3: anonymous visitor, no device registered -> skipped, not an error ---'',
     PrintSkipped True ''no_active_devices''])"
proof -
  let ?S = "example_service E te" and ?t = "en_readings E"
  define w1 where "w1 = \<lparr>sy_devices = example_devices (?t 0), sy_prefs = example_saved (?t 1),
    sy_dlq = NewMemoryDLQHandler 3 Minute (10 * Minute), sy_cache = c0,
    sy_disp = [Println ''--- event 1: order shipped, notification succeeds ---''], sy_reads = 2\<rparr>"
  have new: "\<not> processed content w1 ''evt-1''" using assms(6) by (simp add: processed_def w1_def)
  have stores: "sy_devices w1 = example_devices (?t 0)" "sy_prefs w1 = example_saved (?t 1)" by (simp_all add: w1_def)
  obtain r1 c n v where one: "processEvent ?S example_order w1 =
      (Ret (r1, None), w1\<lparr>sy_disp := sy_disp w1 @ [PushToDevice ''fExampleInstallId012_-'' PlatformAndroid
         (msg_Title msg) (msg_Body msg)], sy_cache := c, sy_reads := n\<rparr>)"
    "pr_DeviceCount r1 = 1" "dr_SuccessCount (pr_DispatchResult r1) = 1" "dr_FailureCount (pr_DispatchResult r1) = 0"
    "\<not> pr_Skipped r1" "content c = (content (sy_cache w1))(mark_key ''evt-1'' \<mapsto> v)"
    by (rule example_first [OF assms(4) new assms(2) stores])
  define w2 where "w2 = w1\<lparr>sy_cache := c, sy_disp := sy_disp w1 @ [PushToDevice ''fExampleInstallId012_-'' PlatformAndroid
      (msg_Title msg) (msg_Body msg), PrintCounts 1 1 0 False,
      Println ''--- event 2: same EventID resubmitted, idempotency short-circuits it ---''], sy_reads := n\<rparr>"
  have "processed content w2 (ev_EventID example_order)" using one(6) by (simp add: processed_def w2_def example_fields)
  from system_duplicate [of "example_wiring E te", simplified, OF assms(4) example_valid(1) this] obtain r2 c2 where two:
    "processEvent ?S example_order w2 = (Ret (r2, None), w2\<lparr>sy_cache := c2, sy_reads := sy_reads w2 + 2\<rparr>)"
    "content c2 = content c" "pr_Skipped r2" "pr_SkipReason r2 = ''already_processed''" by (auto simp: w2_def)
  define w3 where "w3 = w2\<lparr>sy_cache := c2, sy_reads := sy_reads w2 + 2, sy_disp := sy_disp w2 @ [PrintSkipped True ''already_processed'',
      Println ''--- event 3: anonymous visitor, no device registered -> skipped, not an error ---'']\<rparr>"
  have "\<not> processed content w3 ''evt-2''" using two(2) one(6) assms(6) by (simp add: processed_def w3_def w2_def w1_def)
  moreover have "sy_devices w3 = example_devices (?t 0)" by (simp add: w3_def w2_def w1_def)
  ultimately obtain r3 w4 where three: "processEvent ?S example_visitor w3 = (Ret (r3, None), w4)" "sy_disp w4 = sy_disp w3"
    "pr_Skipped r3" "pr_SkipReason r3 = ''no_active_devices''"
    using example_third [OF assms(4) _ assms(3)] by metis
  have seed: "example_seed ?t \<lparr>sy_devices = NewMemoryDeviceStore, sy_prefs = NewMemoryPreferencesStore,
      sy_dlq = NewMemoryDLQHandler 3 Minute (10 * Minute), sy_cache = c0, sy_disp = [], sy_reads = 0\<rparr> =
      (None, w1\<lparr>sy_disp := []\<rparr>)" by (simp add: example_seed_ok w1_def)
  have lines: "printing (Println ''--- event 1: order shipped, notification succeeds ---'') (w1\<lparr>sy_disp := []\<rparr>) = w1"
    "printing (Println ''--- event 2: same EventID resubmitted, idempotency short-circuits it ---'')
       (printing (PrintCounts 1 1 0 False) (w1\<lparr>sy_disp := sy_disp w1 @ [PushToDevice ''fExampleInstallId012_-'' PlatformAndroid
         (msg_Title msg) (msg_Body msg)], sy_cache := c, sy_reads := n\<rparr>)) = w2"
    "printing (Println ''--- event 3: anonymous visitor, no device registered -> skipped, not an error ---'')
       (printing (PrintSkipped True ''already_processed'') (w2\<lparr>sy_cache := c2, sy_reads := sy_reads w2 + 2\<rparr>)) = w3"
    by (simp_all add: printing_def w1_def w2_def w3_def)
  have "example_events ?S (w1\<lparr>sy_disp := []\<rparr>) = (Ret None, printing (PrintSkipped True ''no_active_devices'') w4)"
    using one(2-5) two(3,4) three(3,4)
    by (simp add: example_events_def example_process_def ProcessEvent_def one(1) two(1) three(1) lines
        del: add_2_eq_Suc' add_Suc_right)
  moreover have "sy_disp w3 = [Println ''--- event 1: order shipped, notification succeeds ---'',
     PushToDevice ''fExampleInstallId012_-'' PlatformAndroid (msg_Title msg) (msg_Body msg), PrintCounts 1 1 0 False,
     Println ''--- event 2: same EventID resubmitted, idempotency short-circuits it ---'',
     PrintSkipped True ''already_processed'',
     Println ''--- event 3: anonymous visitor, no device registered -> skipped, not an error ---'']"
    by (simp add: w1_def w2_def w3_def)
  ultimately show ?thesis using assms(1,5) seed three(2) by (simp add: example_main_def example_run_def example_built printing_def Let_def)
qed

lemma title_trimmed: "TrimSpace ''Your order has shipped!'' = ''Your order has shipped!''"
  by code_simp

text \<open>A template library that renders every text as itself.\<close>

definition demo_environment :: "(string, list_cache) environment" where
  "demo_environment = \<lparr>en_text = plain_text, en_tzdb = demo_tzdb, en_rfc3339 = (\<lambda>t. ''now''), en_readings = int,
     en_cache = list_Cache, en_NewMemoryCache = Inr []\<rparr>"

theorem example_run_prints_witness:
  "\<exists>body. snd (example_main demo_environment) ! 1 =
     PushToDevice ''fExampleInstallId012_-'' PlatformAndroid ''Your order has shipped!'' body"
proof -
  let ?E = demo_environment
  let ?c = "projr (compileTemplate plain_text EventTypeOrderShipped order_template)"
  let ?te = "AList.update EventTypeOrderShipped ?c (NewTemplateEngine plain_text)"
  have reg: "RegisterTemplate (en_text ?E) EventTypeOrderShipped order_template (NewTemplateEngine (en_text ?E)) = (None, ?te)"
    by (simp add: RegisterTemplate_def compileTemplate_def demo_environment_def plain_text_def order_template_def)
  have build: "\<exists>msg. BuildMessage (en_text ?E) ev ?te = Inr msg \<and> msg_Title msg = ''Your order has shipped!''"
    if "ev_Type ev = EventTypeOrderShipped" for ev
    using that
    by (simp add: BuildMessage_def compileTemplate_def demo_environment_def plain_text_def order_template_def renderMessage_def
        renderInline_def title_trimmed Let_def)
  obtain msg msg' where m: "BuildMessage (en_text ?E) example_order ?te = Inr msg" "msg_Title msg = ''Your order has shipped!''"
    "BuildMessage (en_text ?E) example_visitor ?te = Inr msg'"
    using build [of example_order] build [of example_visitor] by (auto simp: example_order_def example_visitor_def)
  have env: "cache_durable (en_cache ?E) list_content" "en_NewMemoryCache ?E = Inr []" "list_content [] = (\<lambda>k. None)"
    by (simp_all add: demo_environment_def list_Cache_durable) (simp add: list_content_def fun_eq_iff)
  show ?thesis using example_run_prints [OF reg m(1,3) env] m(2) by simp
qed

end
