(* ===== verification/Spec2Isabelle.thy ===== *)
theory Spec2Isabelle
  imports Grnoti_DLQ_Workers Grnoti_Pacing Grnoti_Delivery Grnoti_Example
begin

text \<open>
  \<^bold>\<open>grnoti: a verified model of the notification library.\<close>

  \<^bold>\<open>The program.\<close>  grnoti turns application events into push notifications.  An event enters through
  \<^verbatim>\<open>Process\<close> or \<^verbatim>\<open>Submit\<close> of the service, or from Kafka through the consumer.  The service drops events that were already
  processed (idempotency store) or that the user does not want (preferences filter), renders a message (template engine,
  possibly localized), decides on devices or a topic (topic router, device store), removes duplicate devices, cuts them
  into batches and hands each batch to the push dispatcher.  The dispatcher groups devices by platform, waits for the rate
  limiter, sends multicasts through a circuit breaker with retries, and classifies the per-device errors.  Afterwards the
  service prunes invalid devices, publishes events with unresolved failures to the dead-letter queue, records metrics,
  publishes lifecycle events and marks the event as processed.  Stores exist in memory, on Postgres, on Mongo and behind a
  cache.

  \<^bold>\<open>Theories and sources\<close> (all source paths are relative to \<^verbatim>\<open>src/\<close>).

  \<^item> \<open>Grnoti_Prelude\<close>: Go's \<^verbatim>\<open>time\<close> and 64-bit arithmetic (\<open>wrap64\<close>, \<open>go_div\<close>), calls that may panic (\<open>go\<close>), Go maps as
    association lists with distinct keys, and the lemmas on lists and maps that the components share.
  \<^item> \<open>Grnoti_Errors\<close>: \<^verbatim>\<open>errors.go\<close>.  An \<open>error\<close> is a sentinel, a typed FCM error, an opaque error of a library, or a wrap
    or join; \<open>errors_is\<close> and \<open>errors_as_fcm\<close> are the walks of \<^verbatim>\<open>errors.Is\<close> and \<^verbatim>\<open>errors.As\<close>.
  \<^item> \<open>Grnoti_Types\<close>: the shared records of \<^verbatim>\<open>types.go\<close> and their validation.
  \<^item> \<open>Grnoti_Batch\<close>: \<^verbatim>\<open>batchsplitter.go\<close>, both loops with the capacity overflow of \<^verbatim>\<open>make\<close>.
  \<^item> \<open>Grnoti_Retry\<close>: \<^verbatim>\<open>retrystrategy.go\<close>; delays on 64 bits, with the panic of \<^verbatim>\<open>rand.Int63n\<close> on a wrapped bound.
  \<^item> \<open>Grnoti_Circuit\<close>: \<^verbatim>\<open>circuitbreaker.go\<close>; the two critical sections of \<^verbatim>\<open>Execute\<close> as functions and their
    interleaving over any number of callers as a step relation.
  \<^item> \<open>Grnoti_Pool\<close>: \<^verbatim>\<open>workerpool.go\<close> as a step relation on queue, workers and the phases of \<^verbatim>\<open>Stop\<close>.
  \<^item> \<open>Grnoti_Devices\<close>: the in-memory device store (\<^verbatim>\<open>memory.go\<close>), the locale \<open>device_store\<close>, and \<^verbatim>\<open>topicrouter.go\<close>.
  \<^item> \<open>Grnoti_DLQ\<close>: the in-memory dead-letter queue (\<^verbatim>\<open>memory.go\<close>), its transition system and the locale
    \<open>dlq_contract\<close>; \<open>Grnoti_DLQ_Postgres\<close> and \<open>Grnoti_DLQ_Mongo\<close>: \<^verbatim>\<open>dlq.postgres.go\<close> with
    \<^verbatim>\<open>internal/postgresdb/dlq.sql.go\<close>, and \<^verbatim>\<open>dlq.mongo.go\<close>.
  \<^item> \<open>Grnoti_DLQ_Workers\<close>: concurrent retry workers on those two.  \<^verbatim>\<open>MarkRetried\<close> is cut into its two statements, the workers are a
    step relation (\<open>worker_step\<close>), and an abstract queue with atomic marks (\<open>slot_step\<close>) is what they implement.
  \<^item> \<open>Grnoti_Payload\<close> and \<open>Grnoti_Dispatcher\<close>: \<^verbatim>\<open>payloadvalidator.go\<close> and \<^verbatim>\<open>dispatcher.fcm.go\<close>: message building per
    platform, payload limits on bytes, error classification, and \<^verbatim>\<open>Send\<close>, \<^verbatim>\<open>SendToDevice\<close>, \<^verbatim>\<open>SendToTopic\<close>.
  \<^item> \<open>Grnoti_Service\<close>: \<^verbatim>\<open>service.go\<close> and \<^verbatim>\<open>events.go\<close>: the whole of \<^verbatim>\<open>processEvent\<close>, and \<^verbatim>\<open>Submit\<close> against \<^verbatim>\<open>Close\<close>.  The
    collaborators are records of functions on a world \<open>'w\<close>, as the Go code takes them as interfaces.
  \<^item> \<open>Grnoti_Preferences\<close>: the in-memory store, the locale \<open>preferences_store\<close> and \<^verbatim>\<open>preferencesfilter.go\<close>, quiet hours with
    time zones included.
  \<^item> \<open>Grnoti_Experiment\<close>: \<^verbatim>\<open>experiment.go\<close> and the in-memory experiment store.
  \<^item> \<open>Grnoti_Cache\<close>: \<^verbatim>\<open>cache.idempotency.go\<close>, \<^verbatim>\<open>cache.preferences.go\<close>, \<^verbatim>\<open>cache.experiment.go\<close> over an abstract cache.
  \<^item> \<open>Grnoti_Backend\<close>, \<open>Grnoti_Postgres\<close>, \<open>Grnoti_Mongo\<close>: the device, preferences and experiment stores on the two databases.
    Each statement of \<^verbatim>\<open>internal/postgresdb/*.sql.go\<close> and each update document of \<^verbatim>\<open>*.mongo.go\<close> is a function on a table.
  \<^item> \<open>Grnoti_Connect\<close>: \<^verbatim>\<open>connectPostgres\<close> and the constructors and \<^verbatim>\<open>Close\<close> of the backed stores, as operations on the set of
    open handles; \<^verbatim>\<open>applyPostgresSchema\<close> in concurrent processes as a step relation around the advisory lock.
  \<^item> \<open>Grnoti_RateLimiter\<close>: \<^verbatim>\<open>ratelimiter.go\<close> and \<^verbatim>\<open>ratelimiter.redis.go\<close>, Lua script included.
  \<^item> \<open>Grnoti_Kafka\<close>: \<^verbatim>\<open>consumer.kafka.go\<close> and \<^verbatim>\<open>producer.kafka.go\<close>.
  \<^item> \<open>Grnoti_Templates\<close>: \<^verbatim>\<open>eventtypes.go\<close>, \<^verbatim>\<open>templateengine.go\<close> and \<^verbatim>\<open>localization.go\<close>.
  \<^item> \<open>Grnoti_System\<close>: the components put together as \<^verbatim>\<open>example/main.go\<close> does: one world (\<open>system\<close>) with one of the three
    device stores (\<open>memory_devices\<close>, \<open>postgres_devices\<close>, \<open>mongo_devices\<close>), one of the three dead-letter queues
    (through \<^verbatim>\<open>PublishToDLQ\<close>, which is all the service calls of them), the in-memory preferences, the
    cache under the idempotency store, the dispatcher and the clock, the dependencies (\<open>system_deps\<close>) and the service that
    \<^verbatim>\<open>NewNotificationService\<close> builds from them.
  \<^item> \<open>Grnoti_Delivery\<close>: the FCM dispatcher in that system: what becomes of every device of an event, and of a dead-lettered event
    that is resubmitted.
  \<^item> \<open>Grnoti_Pacing\<close>: the FCM dispatcher with \<^verbatim>\<open>Wait\<close> of the Redis limiter as its \<^verbatim>\<open>RateLimiter\<close>, on a bucket that other
    processes use too.
  \<^item> \<open>Grnoti_Example\<close>: \<^verbatim>\<open>example/main.go\<close>: the logging dispatcher and the whole of \<^verbatim>\<open>run\<close>.

  \<^bold>\<open>Interfaces.\<close>  A contract that several components implement, or that a client relies on, is a locale; its consequences
  are proved once inside it and reach the code through interpretations.

  \<^item> \<open>device_store\<close> (what a lookup returns after a save, an invalidation, a deletion, up to the resolution of stored times):
    \<open>mem_dev\<close>, \<open>pg_dev\<close>, \<open>mongo_dev\<close>.
  \<^item> \<open>preferences_store\<close> (a get returns the last save): \<open>mem_prefs\<close>, \<open>pg_prefs\<close>, \<open>mongo_prefs\<close>, and \<open>cached_prefs\<close>, the
    read-through cache in front of a store that satisfies the same contract.
  \<^item> \<open>dlq_contract\<close> (how each call moves the status of a record, whether it succeeds or fails): \<open>mem_dlq\<close>, \<open>pg_dlq\<close>,
    \<open>mongo_dlq\<close>.
  \<^item> \<open>split_mark\<close> (what each statement of a queue does to the status, the attempts and the bound of an event): \<open>pg_workers\<close>,
    \<open>mongo_workers\<close>.
  \<^item> \<open>wired_devices\<close> extends \<open>device_store\<close> by the operations that the service calls; the theorems on the wired service are proved in it:
    \<open>mem_wired\<close>, \<open>pg_wired\<close>, \<open>mongo_wired\<close>.
  \<^item> \<open>recording_queue\<close> (what is published is in the queue) and \<open>wired_system\<close>, which joins it with \<open>wired_devices\<close>: \<open>mem_system\<close>,
    \<open>pg_system\<close>, \<open>mongo_system\<close>.
  \<^item> \<open>push_dispatcher\<close> (a result accounts for every distinct FID it was given): \<open>fcm\<close>, and \<open>wired_fcm\<close>, the dispatcher as a part of
    the system.  The service's accounting rests on it.

  \<^bold>\<open>What is shown.\<close>

  \<^item> Delivery: \<open>Deduplicate\<close> keeps the first device of each FID; the dispatcher's and the service's counts add up to the
    distinct FIDs; each multicast has at most 500 of them and waits for the limiter; unresolved failures reach the dead-letter queue; a processed event
    is not processed again while its mark lives; a retry resends the whole batch.
  \<^item> Dead-letter queue: on all three backends an event is handed to one claimer at a time; claims come in due order; a record
    is retried after each backoff and exhausted exactly at its bound; the three \<^verbatim>\<open>MarkRetried\<close> implement one abstract step; what
    a failing statement leaves behind on Postgres and Mongo.  Workers whose statements interleave keep one owner per claimed
    event and implement the queue with atomic marks, as long as each claim is marked once; two marks of one claim can reopen a
    resolved event.
  \<^item> Concurrency: the invariant of the breaker under any interleaving and when it trips; the pool's \<^verbatim>\<open>Stop\<close> terminates and
    drains the queue; \<^verbatim>\<open>Submit\<close> racing with \<^verbatim>\<open>Close\<close> panics in some interleaving; the schema is applied by one caller at a
    time.
  \<^item> Stores: the backends of devices and preferences agree with the in-memory ones; every device handed out is well formed; the cache is invisible to the filter;
    a store closes what it opened and nothing else.
  \<^item> Filtering and experiments: the filter decides from the latest save; quiet hours are a cyclic interval; an assignment is
    stable and published once; each variant owns as many hash buckets as its weight.
  \<^item> Rate limits: the calls allowed to a whole fleet in a time span are bounded, and with them the calls that a dispatcher behind the
    limiter makes to FCM, retries included; \<^verbatim>\<open>Wait\<close> returns.
  \<^item> Kafka: which messages the next session reads again; a batch is sent whole or not at all; publishing and consuming is the
    identity on events.
  \<^item> Templates: what a rendered message contains; an accepted template renders; the cache of compiled localized templates is
    invisible.
  \<^item> The whole system: processing an event with the FCM dispatcher never panics, and every device it is for is delivered to, gone, or
    its event is in the dead-letter queue, with devices and queue in memory, on Postgres or on Mongo; a dead-lettered event that is resubmitted
    while its mark lives is dropped; a redelivered Kafka message is acknowledged without a second dispatch; a device that FCM reports as
    gone is not handed out again and no other is lost; an event that could not be delivered is handed out by a later claim of
    the dead-letter queue; a user who opted out gets nothing.  The example program prints exactly one push.

  \<^bold>\<open>Loops and bounds.\<close>  Recursion over data is structural or has a measure, and no result depends on fuel.  A loop that waits
  for the outside world (\<open>start_loop\<close> and \<open>ConsumeClaim\<close> of the consumer, \<open>wait_loop\<close> of the Redis limiter) recurses over the list
  of what each turn meets; that it returns is stated for every such list that contains what it waits for.  The retry loop of
  the dispatcher is bounded by the attempts the strategy allows, the claim loop on Mongo by the limit of the claim.  Integers
  have their width where it matters: delays and capacities (64 bits), hash buckets (32 bits), database columns (32 bits).

  \<^bold>\<open>Parameters.\<close>  Code outside \<^verbatim>\<open>src/\<close> is an argument of the definitions that use it: the FCM client and its error predicates,
  \<^verbatim>\<open>rand.Int63n\<close> (documented range as hypothesis), the time zone database, the cache library, the Kafka client, \<^verbatim>\<open>pgxpool\<close> and the
  Mongo driver, the servers behind them (a script says which statements fail), the JSON and BSON codecs, Redis' clock and its
  printing of numbers, \<^verbatim>\<open>golang.org/x/time/rate\<close>, \<^verbatim>\<open>text/template\<close>, \<^verbatim>\<open>time.ParseDuration\<close>, MD5.  Hypotheses on them are named
  predicates (\<open>cache_ok\<close>, \<open>codec_ok\<close>, \<open>int63n_ok\<close>, ...), and each property that has one comes with a witness that instantiates
  it.  A database statement is atomic and has no effect when it fails.

  \<^bold>\<open>Not modelled.\<close>  \<^verbatim>\<open>logger.go\<close>, \<^verbatim>\<open>version.go\<close> and \<^verbatim>\<open>docs.go\<close>: logging has no effect on results, the rest is
  documentation.  \<^verbatim>\<open>SchemaSQL\<close>, which returns the schema text.  \<^verbatim>\<open>internal/postgresdb/db.go\<close> and \<^verbatim>\<open>querier.go\<close>: generated
  interface declarations.  The TTL index of the Mongo queue, which deletes on the server.  Purges that remove an event which a
  worker holds: the step relation of the workers leaves them out.  Cancellation of a context is modelled where the code tests
  for it.

  The wired system keeps preferences in memory; the Postgres and Mongo stores are related to the in-memory one by the contract
  \<open>preferences_store\<close>.  In the theorems on the wired system the databases answer; a device lookup that fails is covered
  by \<open>lookup_failure_drops_event\<close>, and a publication that fails is logged by the service and lost.  That a dead letter is handed out
  again is shown on the in-memory queue, where a claim has no limit and no row fails to decode.
\<close>

end
